(* ===== verification/Zorkd_Prelude.thy ===== *)
theory Zorkd_Prelude
  imports Main "HOL-Library.AList" "HOL-Library.Word" "HOL-Library.Char_ord"
    "HOL-Library.List_Lexorder" "HOL-Library.Product_Lexorder"
begin

text \<open>
  What every component of the development shares: Go's error values and their wrapping,
  the result type of a fallible call, time, byte slices, decimal numerals, and the
  collections of facts the component proofs rest on.

  A Go call that returns \<open>(T, error)\<close> is modelled by a value of \<open>goerr + 'a\<close>: \<open>Inl\<close> for
  a non-nil error, \<open>Inr\<close> for the value. A call that also changes a state returns the
  result paired with the new state.
\<close>

named_theorems result_iff
  \<open>when a fallible step of the model returns a value\<close>
named_theorems frame_simps
  \<open>which parts of a state an operation leaves alone\<close>

section \<open>Errors\<close>

text \<open>
  The sentinels the code compares errors with: those of package game (session.go, saves.go),
  of auth, session, invite and database, the two of package context, the two of io/fs, flag's,
  and the engine's.
\<close>

datatype sentinel =
    ErrSessionNotFound | ErrVersionConflict | ErrGameOver | ErrStoryUnavailable
  | ErrSaveNotFound | ErrInvalidSaveName | ErrTooManySaves | ErrSaveMismatch
  | ErrInvalidCredentials | ErrEmailTaken | ErrUserNotFound | ErrInvalidEmail
  | ErrWeakPassword | ErrPasswordMismatch | ErrNoSession | ErrNotInvited
  | ErrParentMissing | ErrParentNotDirectory | ErrNotRegularFile
  | CtxCanceled | CtxDeadlineExceeded | FsErrNotExist | FsErrExist | FlagErrHelp
  | ZErrExecutionLimit | ZErrInvalidState | ZErrInvalidStory | ZErrExecutionFault
  | ZErrInvalidOpcode | ZErrMemoryAccess | ZErrInvalidText

text \<open>
  \<open>Opaque\<close> is an error with nothing inside it (errors.New at the place it is returned),
  \<open>Wrap m e\<close> is fmt.Errorf with one \<open>%w\<close>, and \<open>Join\<close> an error that unwraps to several.
\<close>

datatype goerr =
    Opaque string
  | Sentinel sentinel
  | Wrap string goerr
  | Join string "goerr list"

fun errors_is :: "goerr \<Rightarrow> sentinel \<Rightarrow> bool" where
  "errors_is (Opaque _) s = False"
| "errors_is (Sentinel t) s = (t = s)"
| "errors_is (Wrap _ e) s = errors_is e s"
| "errors_is (Join _ es) s = list_ex (\<lambda>e. errors_is e s) es"

text \<open>The value of a fallible call, and sequencing: the first error is the result.\<close>

type_synonym 'a result = "goerr + 'a"

definition bind_r :: "'a result \<Rightarrow> ('a \<Rightarrow> 'b result) \<Rightarrow> 'b result" where
  "bind_r m f = (case m of Inl e \<Rightarrow> Inl e | Inr x \<Rightarrow> f x)"

definition wrap_r :: "string \<Rightarrow> 'a result \<Rightarrow> 'a result" where
  "wrap_r msg m = (case m of Inl e \<Rightarrow> Inl (Wrap msg e) | Inr x \<Rightarrow> Inr x)"

lemma bind_r_simps [simp]: "bind_r (Inl e) f = Inl e" "bind_r (Inr x) f = f x"
  by (simp_all add: bind_r_def)

lemma wrap_r_simps [simp]: "wrap_r msg (Inl e) = Inl (Wrap msg e)" "wrap_r msg (Inr x) = Inr x"
  by (simp_all add: wrap_r_def)

lemma bind_r_Inr [result_iff]: "bind_r m f = Inr y \<longleftrightarrow> (\<exists>x. m = Inr x \<and> f x = Inr y)"
  by (cases m) simp_all

lemma wrap_r_Inr [result_iff]: "wrap_r msg m = Inr y \<longleftrightarrow> m = Inr y"
  by (cases m) simp_all

lemma wrap_r_Inl [result_iff]: "wrap_r msg m = Inl e \<longleftrightarrow> (\<exists>e'. m = Inl e' \<and> e = Wrap msg e')"
  by (cases m) auto

lemma if_Inr [result_iff]: "(if b then Inl e else m) = Inr y \<longleftrightarrow> \<not> b \<and> m = Inr y"
  by simp

lemma not_isl_Inr: "\<not> isl m \<longleftrightarrow> (\<exists>x. m = Inr x)"
  by (cases m) simp_all

section \<open>Time, durations, byte slices\<close>

text \<open>
  Instants and durations are nanoseconds. The zero \<open>time.Time\<close> is the instant 0, which is
  what \<open>IsZero\<close> tests.
\<close>

type_synonym time = int
type_synonym duration = int

definition second :: duration where "second = 1000000000"
definition minute :: duration where "minute = 60 * second"
definition hour :: duration where "hour = 60 * minute"

abbreviation is_zero :: "time \<Rightarrow> bool" where "is_zero t \<equiv> t = 0"

lemmas duration_defs = second_def minute_def hour_def

type_synonym bytes = "8 word list"

text \<open>\<open>len(b) == 0\<close> for a slice that may be nil.\<close>

definition no_bytes :: "bytes option \<Rightarrow> bool" where
  "no_bytes b = (case b of None \<Rightarrow> True | Some xs \<Rightarrow> xs = [])"

lemma no_bytes_simps [simp]: "no_bytes None" "no_bytes (Some xs) \<longleftrightarrow> xs = []"
  by (simp_all add: no_bytes_def)

section \<open>Decimal numerals\<close>

text \<open>
  \<open>strconv.FormatInt(n, 10)\<close>, and \<open>strconv.ParseInt(s, 10, 64)\<close>: an optional sign, one or
  more decimal digits and nothing else, within 64 bits.
\<close>

definition digit_char :: "nat \<Rightarrow> char" where
  "digit_char d = char_of (48 + d)"

fun nat_digits :: "nat \<Rightarrow> string" where
  "nat_digits n = (if n < 10 then [digit_char n] else nat_digits (n div 10) @ [digit_char (n mod 10)])"

declare nat_digits.simps [simp del]

definition format_int :: "int \<Rightarrow> string" where
  "format_int i = (if i < 0 then CHR ''-'' # nat_digits (nat (- i)) else nat_digits (nat i))"

definition digit_value :: "char \<Rightarrow> nat option" where
  "digit_value c = (let b = of_char c in if 48 \<le> b \<and> b \<le> 57 then Some (b - 48) else None)"

fun digits_value :: "nat \<Rightarrow> string \<Rightarrow> nat option" where
  "digits_value acc [] = Some acc"
| "digits_value acc (c # cs) =
     (case digit_value c of None \<Rightarrow> None | Some d \<Rightarrow> digits_value (10 * acc + d) cs)"

definition parse_nat :: "string \<Rightarrow> nat option" where
  "parse_nat s = (if s = [] then None else digits_value 0 s)"

definition parse_int64 :: "string \<Rightarrow> int option" where
  "parse_int64 s =
     (case s of
        c # cs \<Rightarrow>
          if c = CHR ''-'' then
            (case parse_nat cs of
               Some n \<Rightarrow> if n \<le> 2 ^ 63 then Some (- int n) else None | None \<Rightarrow> None)
          else
            (case parse_nat (if c = CHR ''+'' then cs else s) of
               Some n \<Rightarrow> if n < 2 ^ 63 then Some (int n) else None | None \<Rightarrow> None)
      | [] \<Rightarrow> None)"

lemma of_char_digit: "d < 10 \<Longrightarrow> of_char (digit_char d) = 48 + d"
  by (simp add: digit_char_def of_char_of)

lemma digit_value_digit_char: "d < 10 \<Longrightarrow> digit_value (digit_char d) = Some d"
  by (simp add: digit_value_def of_char_digit)

lemma digits_value_append:
  "digits_value acc (xs @ ys) = (case digits_value acc xs of None \<Rightarrow> None | Some a \<Rightarrow> digits_value a ys)"
  by (induction xs arbitrary: acc) (auto split: option.splits)

lemma nat_digits_nonempty [simp]: "nat_digits n \<noteq> []"
  by (subst nat_digits.simps) simp

lemma digits_value_nat_digits: "digits_value 0 (nat_digits n) = Some n"
proof (induction n rule: nat_digits.induct)
  case (1 n)
  show ?case
  proof (cases "n < 10")
    case True
    then show ?thesis by (subst nat_digits.simps) (simp add: digit_value_digit_char)
  next
    case False
    with 1 have "digits_value 0 (nat_digits (n div 10)) = Some (n div 10)" by simp
    with False show ?thesis
      by (subst nat_digits.simps) (simp add: digits_value_append digit_value_digit_char)
  qed
qed

lemma parse_nat_digits [simp]: "parse_nat (nat_digits n) = Some n"
  by (simp add: parse_nat_def digits_value_nat_digits)

lemma nat_digits_inj: "nat_digits m = nat_digits n \<longleftrightarrow> m = n"
  by (metis digits_value_nat_digits option.inject)

lemma hd_nat_digits: "\<exists>d < 10. hd (nat_digits n) = digit_char d"
proof (induction n rule: nat_digits.induct)
  case (1 n)
  show ?case
  proof (cases "n < 10")
    case True
    then show ?thesis by (subst nat_digits.simps) auto
  next
    case False
    with 1 show ?thesis by (subst nat_digits.simps) (simp add: hd_append)
  qed
qed

lemma nat_digits_sign: "hd (nat_digits n) \<noteq> CHR ''-''" "hd (nat_digits n) \<noteq> CHR ''+''"
proof -
  obtain d where "d < 10" and d: "hd (nat_digits n) = digit_char d" using hd_nat_digits by blast
  then have b: "of_char (hd (nat_digits n)) = (48 + d :: nat)" by (simp add: of_char_digit)
  have "of_char (CHR ''-'') = (45 :: nat)" "of_char (CHR ''+'') = (43 :: nat)" by simp_all
  with b show "hd (nat_digits n) \<noteq> CHR ''-''" "hd (nat_digits n) \<noteq> CHR ''+''" by auto
qed

lemma parse_format_int:
  assumes "0 \<le> i" "i < 2 ^ 63"
  shows "parse_int64 (format_int i) = Some i"
proof -
  obtain c cs where c: "nat_digits (nat i) = c # cs" by (cases "nat_digits (nat i)") auto
  with nat_digits_sign [of "nat i"] have "c \<noteq> CHR ''-''" "c \<noteq> CHR ''+''" by auto
  moreover from c have "parse_nat (c # cs) = Some (nat i)" by (metis parse_nat_digits)
  moreover from assms have "nat i < 2 ^ 63" by (simp add: nat_less_iff)
  ultimately show ?thesis using assms c by (simp add: parse_int64_def format_int_def)
qed

lemma format_int_inj: "0 \<le> i \<Longrightarrow> 0 \<le> j \<Longrightarrow> format_int i = format_int j \<longleftrightarrow> i = j"
  by (auto simp: format_int_def nat_digits_inj)

lemma format_int_eq [simp]: "format_int i = format_int j \<longleftrightarrow> i = j"
proof (cases "(i < 0) = (j < 0)")
  case True
  then show ?thesis by (auto simp: format_int_def nat_digits_inj)
next
  case False
  have neq: "CHR ''-'' # xs \<noteq> nat_digits n" for xs n
  proof
    assume "CHR ''-'' # xs = nat_digits n"
    then have "hd (nat_digits n) = CHR ''-''" by (metis list.sel(1))
    then show False by (simp add: nat_digits_sign)
  qed
  then have neq': "nat_digits n \<noteq> CHR ''-'' # xs" for xs n by (metis neq)
  show ?thesis using False by (auto simp: format_int_def neq neq')
qed

lemma format_int_nonempty [simp]: "format_int i \<noteq> []"
  by (simp add: format_int_def)

section \<open>Association lists\<close>

text \<open>
  A Go map is an association list with distinct keys: its order is the order a \<open>range\<close> loop
  happens to visit, which the code never relies on.
\<close>

abbreviation keys :: "('k \<times> 'v) list \<Rightarrow> 'k list" where "keys m \<equiv> map fst m"

declare map_of_eq_Some_iff [simp del] Some_eq_map_of_iff [simp del]

lemma map_of_filter_other:
  "distinct (keys m) \<Longrightarrow> map_of (filter P m) k = (case map_of m k of
      None \<Rightarrow> None | Some v \<Rightarrow> if P (k, v) then Some v else None)"
  by (induction m) (auto split: option.splits simp: map_of_eq_None_iff
      dest: map_of_SomeD intro: rev_image_eqI)

lemma distinct_keys_filter: "distinct (keys m) \<Longrightarrow> distinct (keys (filter P m))"
  by (induction m) auto

lemma mem_map_of: "distinct (keys m) \<Longrightarrow> (k, v) \<in> set m \<longleftrightarrow> map_of m k = Some v"
  by (simp add: map_of_eq_Some_iff)

lemma find_None_iff': "List.find P xs = None \<longleftrightarrow> (\<forall>x \<in> set xs. \<not> P x)"
  by (auto simp: find_None_iff)

lemma find_SomeD: "List.find P xs = Some x \<Longrightarrow> x \<in> set xs \<and> P x"
  by (metis find_Some_iff nth_mem)

end
