(* ===== verification/Keyed_Mutex.thy ===== *)
theory Keyed_Mutex
  imports Zorkd_Prelude
begin

text \<open>
  The lock per session identifier (\<open>keyedMutex\<close>, session.go): a map from key to an entry that
  is made when the first caller arrives and dropped when the last one leaves.

  The stretch between \<open>k.mu.Lock()\<close> and \<open>k.mu.Unlock()\<close> neither blocks nor calls out, so it is
  one step; so is taking and releasing \<open>entry.mu\<close>. A caller goes through four steps, and
  the callers' steps interleave in any order. Entries live on a heap, because a caller keeps its
  pointer to one after the map may have let go of it.
\<close>

record entry_lock =
  el_owner :: "nat option"
  el_holders :: int

text \<open>Where a caller is: outside, waiting for \<open>entry.mu\<close>, inside, or past \<open>entry.mu.Unlock()\<close>.\<close>

datatype phase = Out | Waiting string nat | Inside string nat | Leaving string nat

record mutex =
  mx_locks :: "string \<rightharpoonup> nat"
  mx_heap :: "nat \<rightharpoonup> entry_lock"
  mx_next :: nat
  mx_phase :: "nat \<Rightarrow> phase"

definition no_locks :: mutex where
  "no_locks = \<lparr>mx_locks = Map.empty, mx_heap = Map.empty, mx_next = 0, mx_phase = (\<lambda>_. Out)\<rparr>"

text \<open>\<open>entry, ok := k.locks[key]\<close> and the making of a new one; then \<open>entry.holders++\<close>.\<close>

definition enter :: "nat \<Rightarrow> string \<Rightarrow> mutex \<Rightarrow> mutex option" where
  "enter t key m =
     (if mx_phase m t \<noteq> Out then None
      else case mx_locks m key of
        Some a \<Rightarrow>
          (case mx_heap m a of
             None \<Rightarrow> None
           | Some e \<Rightarrow> Some (m\<lparr>mx_heap := (mx_heap m)(a \<mapsto> e\<lparr>el_holders := el_holders e + 1\<rparr>),
                mx_phase := (mx_phase m)(t := Waiting key a)\<rparr>))
      | None \<Rightarrow>
          Some (m\<lparr>mx_locks := (mx_locks m)(key \<mapsto> mx_next m),
                  mx_heap := (mx_heap m)(mx_next m \<mapsto> \<lparr>el_owner = None, el_holders = 1\<rparr>),
                  mx_next := mx_next m + 1,
                  mx_phase := (mx_phase m)(t := Waiting key (mx_next m))\<rparr>))"

text \<open>\<open>entry.mu.Lock()\<close> returns once nobody holds it.\<close>

definition acquire :: "nat \<Rightarrow> mutex \<Rightarrow> mutex option" where
  "acquire t m =
     (case mx_phase m t of
        Waiting key a \<Rightarrow>
          (case mx_heap m a of
             Some e \<Rightarrow>
               if el_owner e = None
               then Some (m\<lparr>mx_heap := (mx_heap m)(a \<mapsto> e\<lparr>el_owner := Some t\<rparr>),
                            mx_phase := (mx_phase m)(t := Inside key a)\<rparr>)
               else None
           | None \<Rightarrow> None)
      | _ \<Rightarrow> None)"

text \<open>The function \<open>lock\<close> returned: \<open>entry.mu.Unlock()\<close>, then the stretch that leaves.\<close>

definition unlock :: "nat \<Rightarrow> mutex \<Rightarrow> mutex option" where
  "unlock t m =
     (case mx_phase m t of
        Inside key a \<Rightarrow>
          (case mx_heap m a of
             Some e \<Rightarrow> Some (m\<lparr>mx_heap := (mx_heap m)(a \<mapsto> e\<lparr>el_owner := None\<rparr>),
                               mx_phase := (mx_phase m)(t := Leaving key a)\<rparr>)
           | None \<Rightarrow> None)
      | _ \<Rightarrow> None)"

definition leave :: "nat \<Rightarrow> mutex \<Rightarrow> mutex option" where
  "leave t m =
     (case mx_phase m t of
        Leaving key a \<Rightarrow>
          (case mx_heap m a of
             Some e \<Rightarrow>
               let e' = e\<lparr>el_holders := el_holders e - 1\<rparr> in
               Some (m\<lparr>mx_heap := (mx_heap m)(a \<mapsto> e'),
                       mx_locks := (if el_holders e' = 0 then (mx_locks m)(key := None) else mx_locks m),
                       mx_phase := (mx_phase m)(t := Out)\<rparr>)
           | None \<Rightarrow> None)
      | _ \<Rightarrow> None)"

inductive lock_step :: "mutex \<Rightarrow> mutex \<Rightarrow> bool" where
  step_enter: "enter t key m = Some m' \<Longrightarrow> lock_step m m'"
| step_acquire: "acquire t m = Some m' \<Longrightarrow> lock_step m m'"
| step_unlock: "unlock t m = Some m' \<Longrightarrow> lock_step m m'"
| step_leave: "leave t m = Some m' \<Longrightarrow> lock_step m m'"

abbreviation lock_reachable :: "mutex \<Rightarrow> bool" where
  "lock_reachable m \<equiv> lock_step\<^sup>*\<^sup>* no_locks m"

section \<open>The invariant\<close>

text \<open>The key and the entry a caller has to do with.\<close>

fun uses :: "phase \<Rightarrow> (string \<times> nat) option" where
  "uses Out = None"
| "uses (Waiting key a) = Some (key, a)"
| "uses (Inside key a) = Some (key, a)"
| "uses (Leaving key a) = Some (key, a)"

definition users_of :: "mutex \<Rightarrow> nat \<Rightarrow> nat set" where
  "users_of m a = {t. \<exists>key. uses (mx_phase m t) = Some (key, a)}"

text \<open>
  An entry in the map has one holder counted for every caller that has its pointer; a caller's
  pointer is the map's entry for its key; an entry is locked by the caller inside.
\<close>

definition lock_inv :: "mutex \<Rightarrow> bool" where
  "lock_inv m \<longleftrightarrow>
     finite {t. mx_phase m t \<noteq> Out}
     \<and> (\<forall>key a. mx_locks m key = Some a \<longrightarrow> a < mx_next m \<and> users_of m a \<noteq> {}
          \<and> (\<exists>e. mx_heap m a = Some e \<and> el_holders e = int (card (users_of m a))))
     \<and> (\<forall>t key a. uses (mx_phase m t) = Some (key, a) \<longrightarrow> mx_locks m key = Some a)
     \<and> (\<forall>k l a. mx_locks m k = Some a \<longrightarrow> mx_locks m l = Some a \<longrightarrow> k = l)
     \<and> (\<forall>a e t. mx_heap m a = Some e \<longrightarrow> el_owner e = Some t \<longrightarrow> (\<exists>key. mx_phase m t = Inside key a))
     \<and> (\<forall>t key a. mx_phase m t = Inside key a \<longrightarrow> (\<exists>e. mx_heap m a = Some e \<and> el_owner e = Some t))
     \<and> (\<forall>a. mx_next m \<le> a \<longrightarrow> mx_heap m a = None)"

lemma lock_inv_initial: "lock_inv no_locks"
  by (simp add: lock_inv_def no_locks_def)

lemma lock_invD:
  assumes "lock_inv m"
  shows "finite {t. mx_phase m t \<noteq> Out}"
    and "mx_locks m key = Some a \<Longrightarrow> a < mx_next m \<and> users_of m a \<noteq> {}
          \<and> (\<exists>e. mx_heap m a = Some e \<and> el_holders e = int (card (users_of m a)))"
    and "uses (mx_phase m t) = Some (key, a) \<Longrightarrow> mx_locks m key = Some a"
    and "mx_locks m key = Some a \<Longrightarrow> mx_locks m l = Some a \<Longrightarrow> key = l"
    and "mx_heap m a = Some e \<Longrightarrow> el_owner e = Some t \<Longrightarrow> \<exists>key. mx_phase m t = Inside key a"
    and "mx_phase m t = Inside key a \<Longrightarrow> \<exists>e. mx_heap m a = Some e \<and> el_owner e = Some t"
    and "mx_next m \<le> a \<Longrightarrow> mx_heap m a = None"
  using assms unfolding lock_inv_def by blast+

lemma users_of_finite: "lock_inv m \<Longrightarrow> finite (users_of m a)"
proof -
  assume "lock_inv m"
  then have "finite {t. mx_phase m t \<noteq> Out}" by (rule lock_invD)
  moreover have "users_of m a \<subseteq> {t. mx_phase m t \<noteq> Out}" by (auto simp: users_of_def)
  ultimately show ?thesis by (rule finite_subset [rotated])
qed

text \<open>A step that moves a caller without changing the pointer it has.\<close>

lemma lock_inv_move:
  assumes i: "lock_inv m" and u: "uses p = Some (key, a)" "uses (mx_phase m t) = Some (key, a)"
    and e: "mx_heap m a = Some e" "el_holders e' = el_holders e"
    and own: "el_owner e' = (if p = Inside key a then Some t else None)"
    and was: "el_owner e = None \<or> el_owner e = Some t"
    and m': "m' = m\<lparr>mx_heap := (mx_heap m)(a \<mapsto> e'), mx_phase := (mx_phase m)(t := p)\<rparr>"
  shows "lock_inv m'"
proof -
  have us: "users_of m' b = users_of m b" for b
    using u by (auto simp: users_of_def m')
  have pt: "uses (mx_phase m' s) = uses (mx_phase m s)" for s using u by (simp add: m')
  have "p \<noteq> Out" "mx_phase m t \<noteq> Out" using u by auto
  then have "{s. mx_phase m' s \<noteq> Out} = {s. mx_phase m s \<noteq> Out}" by (auto simp: m')
  then have 1: "finite {s. mx_phase m' s \<noteq> Out}" using lock_invD(1) [OF i] by simp
  have lk: "mx_locks m' = mx_locks m" "mx_next m' = mx_next m" by (simp_all add: m')
  have 2: "b < mx_next m' \<and> users_of m' b \<noteq> {} \<and> (\<exists>e. mx_heap m' b = Some e \<and> el_holders e = int (card (users_of m' b)))"
    if "mx_locks m' k = Some b" for k b
    using lock_invD(2) [OF i, of k b] that e unfolding us lk by (auto simp: m')
  have 5: "\<exists>k. mx_phase m' s = Inside k b" if h: "mx_heap m' b = Some e2" "el_owner e2 = Some s" for b e2 s
  proof (cases "b = a")
    case True
    then have "e2 = e'" using h(1) by (simp add: m')
    then have "p = Inside key a" "s = t" using h(2) own by (auto split: if_splits)
    then show ?thesis using True by (simp add: m')
  next
    case False
    then obtain k where k: "mx_phase m s = Inside k b" using lock_invD(5) [OF i _ h(2)] h(1) by (auto simp: m')
    then have "s \<noteq> t" using u(2) False by auto
    then show ?thesis using k by (simp add: m')
  qed
  have 6: "\<exists>e2. mx_heap m' b = Some e2 \<and> el_owner e2 = Some s" if h: "mx_phase m' s = Inside k b" for s k b
  proof (cases "s = t")
    case True
    then have "p = Inside k b" using h by (simp add: m')
    then show ?thesis using u(1) own True by (simp add: m')
  next
    case False
    then obtain e2 where e2: "mx_heap m b = Some e2" "el_owner e2 = Some s"
      using lock_invD(6) [OF i, of s k b] h by (auto simp: m')
    then have "b \<noteq> a" using e(1) was False by auto
    then show ?thesis using e2 by (simp add: m')
  qed
  have "a < mx_next m" using lock_invD(2) [OF i lock_invD(3) [OF i u(2)]] by simp
  then have 7: "mx_heap m' b = None" if "mx_next m' \<le> b" for b
    using lock_invD(7) [OF i, of b] that by (auto simp: m')
  show ?thesis unfolding lock_inv_def using 1 2 5 6 7 lock_invD(3,4) [OF i] unfolding pt lk by blast
qed

lemma acquire_inv: "lock_inv m \<Longrightarrow> acquire t m = Some m' \<Longrightarrow> lock_inv m'"
proof -
  assume i: "lock_inv m" and "acquire t m = Some m'"
  then obtain key a e where a: "mx_phase m t = Waiting key a" "mx_heap m a = Some e" "el_owner e = None"
      "m' = m\<lparr>mx_heap := (mx_heap m)(a \<mapsto> e\<lparr>el_owner := Some t\<rparr>), mx_phase := (mx_phase m)(t := Inside key a)\<rparr>"
    by (auto simp: acquire_def split: phase.splits option.splits if_splits)
  show ?thesis by (rule lock_inv_move [OF i _ _ a(2) _ _ _ a(4)]) (use a in simp_all)
qed

lemma unlock_inv: "lock_inv m \<Longrightarrow> unlock t m = Some m' \<Longrightarrow> lock_inv m'"
proof -
  assume i: "lock_inv m" and "unlock t m = Some m'"
  then obtain key a e where a: "mx_phase m t = Inside key a" "mx_heap m a = Some e"
      "m' = m\<lparr>mx_heap := (mx_heap m)(a \<mapsto> e\<lparr>el_owner := None\<rparr>), mx_phase := (mx_phase m)(t := Leaving key a)\<rparr>"
    by (auto simp: unlock_def split: phase.splits option.splits)
  have "el_owner e = Some t" using lock_invD(6) [OF i a(1)] a(2) by auto
  then show ?thesis by (intro lock_inv_move [OF i _ _ a(2) _ _ _ a(3)]) (use a in simp_all)
qed

text \<open>A step that adds a waiting caller to an entry of the map.\<close>

lemma lock_inv_join:
  assumes i: "lock_inv m" and out: "mx_phase m t = Out"
    and l: "(mx_locks m) key = Some a \<and> mx_heap m a = Some e0 \<and> n = mx_next m
      \<or> mx_locks m key = None \<and> a = mx_next m \<and> n = mx_next m + 1 \<and> e0 = \<lparr>el_owner = None, el_holders = 0\<rparr>"
    and m': "m' = m\<lparr>mx_locks := (mx_locks m)(key \<mapsto> a), mx_heap := (mx_heap m)(a \<mapsto> e0\<lparr>el_holders := el_holders e0 + 1\<rparr>),
      mx_next := n, mx_phase := (mx_phase m)(t := Waiting key a)\<rparr>"
  shows "lock_inv m'"
proof -
  have an: "a < n" "mx_next m \<le> n" using l lock_invD(2) [OF i, of key a] by auto
  have fresh: "users_of m b = {}" if "mx_locks m key = None" "b = mx_next m" for b
    using lock_invD(3) [OF i] lock_invD(2) [OF i] that by (fastforce simp: users_of_def)
  have us: "users_of m' b = (if b = a then insert t (users_of m a) else users_of m b)" for b
    using out by (auto simp: users_of_def m')
  have tn: "t \<notin> users_of m a" using out by (simp add: users_of_def)
  have cnt: "el_holders e0 = int (card (users_of m a))"
    using l lock_invD(2) [OF i, of key a] fresh [of a] by auto
  have only: "k = key" if "mx_locks m k = Some a" for k
    using l that lock_invD(4) [OF i, of k a key] lock_invD(2) [OF i, of k a] by auto
  have "{s. mx_phase m' s \<noteq> Out} = insert t {s. mx_phase m s \<noteq> Out}" by (auto simp: m')
  then have 1: "finite {s. mx_phase m' s \<noteq> Out}" using lock_invD(1) [OF i] by simp
  have 2: "b < mx_next m' \<and> users_of m' b \<noteq> {} \<and> (\<exists>e. mx_heap m' b = Some e \<and> el_holders e = int (card (users_of m' b)))"
    if h: "mx_locks m' k = Some b" for k b
  proof (cases "b = a")
    case True
    have "el_holders e0 + 1 = int (card (insert t (users_of m a)))" using tn users_of_finite [OF i] cnt by simp
    then show ?thesis using True an by (simp add: us) (simp add: m')
  next
    case False
    then have "mx_locks m k = Some b" using h by (auto simp: m' split: if_splits)
    from lock_invD(2) [OF i this] False an show ?thesis by (auto simp: us) (auto simp: m')
  qed
  have 3: "mx_locks m' k = Some b" if "uses (mx_phase m' s) = Some (k, b)" for s k b
  proof (cases "s = t")
    case True
    then show ?thesis using that by (simp add: m')
  next
    case False
    then have "mx_locks m k = Some b" using lock_invD(3) [OF i, of s k b] that by (simp add: m')
    then show ?thesis using l by (auto simp: m')
  qed
  have 4: "k = k'" if "mx_locks m' k = Some b" "mx_locks m' k' = Some b" for k k' b
    using that only lock_invD(4) [OF i] by (auto simp: m' split: if_splits)
  have 5: "\<exists>k. mx_phase m' s = Inside k b" if h: "mx_heap m' b = Some e2" "el_owner e2 = Some s" for b e2 s
  proof -
    have "\<exists>k. mx_phase m s = Inside k b"
    proof (cases "b = a")
      case True
      then have "el_owner e0 = Some s" using h by (auto simp: m')
      then show ?thesis using True l lock_invD(5) [OF i, of a e0 s] by auto
    next
      case False
      then show ?thesis using h lock_invD(5) [OF i, of b e2 s] by (simp add: m')
    qed
    moreover from this have "s \<noteq> t" using out by auto
    ultimately show ?thesis by (simp add: m')
  qed
  have 6: "\<exists>e2. mx_heap m' b = Some e2 \<and> el_owner e2 = Some s" if h: "mx_phase m' s = Inside k b" for s k b
  proof -
    have "mx_phase m s = Inside k b" using h by (simp add: m' split: if_splits)
    then obtain e2 where e2: "mx_heap m b = Some e2" "el_owner e2 = Some s" using lock_invD(6) [OF i] by blast
    have "b = a \<Longrightarrow> e0 = e2" using l e2(1) lock_invD(7) [OF i, of b] by auto
    then show ?thesis using e2 by (auto simp: m')
  qed
  have 7: "mx_heap m' b = None" if "mx_next m' \<le> b" for b
    using lock_invD(7) [OF i, of b] that an by (auto simp: m')
  show ?thesis unfolding lock_inv_def using 1 2 3 4 5 6 7 by blast
qed

lemma enter_inv: "lock_inv m \<Longrightarrow> enter t key m = Some m' \<Longrightarrow> lock_inv m'"
proof -
  assume i: "lock_inv m" and e: "enter t key m = Some m'"
  then have out: "mx_phase m t = Out" by (auto simp: enter_def split: if_splits)
  show ?thesis
  proof (cases "mx_locks m key")
    case None
    then show ?thesis using e out
      by (intro lock_inv_join [OF i out, of key "mx_next m" "\<lparr>el_owner = None, el_holders = 0\<rparr>" "mx_next m + 1"])
        (auto simp: enter_def)
  next
    case (Some a)
    then obtain e0 where e0: "mx_heap m a = Some e0" using lock_invD(2) [OF i Some] by blast
    have "(mx_locks m)(key \<mapsto> a) = mx_locks m" using Some by (simp add: fun_upd_idem)
    then show ?thesis using e out Some e0
      by (intro lock_inv_join [OF i out, of key a e0 "mx_next m"]) (auto simp: enter_def)
  qed
qed

lemma leave_inv: "lock_inv m \<Longrightarrow> leave t m = Some m' \<Longrightarrow> lock_inv m'"
proof -
  assume i: "lock_inv m" and "leave t m = Some m'"
  then obtain key a e where ph: "mx_phase m t = Leaving key a" and e: "mx_heap m a = Some e"
    and m': "m' = m\<lparr>mx_heap := (mx_heap m)(a \<mapsto> e\<lparr>el_holders := el_holders e - 1\<rparr>),
        mx_locks := (if el_holders e - 1 = 0 then (mx_locks m)(key := None) else mx_locks m),
        mx_phase := (mx_phase m)(t := Out)\<rparr>"
    by (auto simp: leave_def Let_def split: phase.splits option.splits)
  have l: "mx_locks m key = Some a" using lock_invD(3) [OF i, of t key a] ph by simp
  have tu: "t \<in> users_of m a" using ph by (auto simp: users_of_def)
  have cnt: "el_holders e = int (card (users_of m a))" using lock_invD(2) [OF i l] e by auto
  have us: "users_of m' b = (if b = a then users_of m a - {t} else users_of m b)" for b
    using ph by (auto simp: users_of_def m' split: if_splits)
  have cnt': "el_holders e - 1 = int (card (users_of m a - {t}))"
    using cnt tu users_of_finite [OF i, of a] card_gt_0_iff [of "users_of m a"] by (auto simp: card_Diff_singleton)
  have "card (users_of m a - {t}) = 0 \<longleftrightarrow> users_of m a - {t} = {}" using users_of_finite [OF i, of a] by simp
  then have gone: "el_holders e - 1 = 0 \<longleftrightarrow> users_of m a = {t}" unfolding cnt' using tu by auto
  have "{s. mx_phase m' s \<noteq> Out} \<subseteq> {s. mx_phase m s \<noteq> Out}" by (auto simp: m')
  then have 1: "finite {s. mx_phase m' s \<noteq> Out}" using lock_invD(1) [OF i] finite_subset by blast
  have sub: "mx_locks m k = Some b" if "mx_locks m' k = Some b" for k b
    using that by (auto simp: m' split: if_splits)
  have 2: "b < mx_next m' \<and> users_of m' b \<noteq> {} \<and> (\<exists>e. mx_heap m' b = Some e \<and> el_holders e = int (card (users_of m' b)))"
    if h: "mx_locks m' k = Some b" for k b
  proof (cases "b = a")
    case True
    then have "k = key" using sub [OF h] l lock_invD(4) [OF i] by blast
    then have "el_holders e - 1 \<noteq> 0" using h by (auto simp: m')
    then have "users_of m a - {t} \<noteq> {}" using gone tu by blast
    then show ?thesis using True cnt' lock_invD(2) [OF i l] by (simp add: us) (simp add: m')
  next
    case False
    from lock_invD(2) [OF i sub [OF h]] False show ?thesis by (auto simp: us) (auto simp: m')
  qed
  have 3: "mx_locks m' k = Some b" if h: "uses (mx_phase m' s) = Some (k, b)" for s k b
  proof -
    have st: "s \<noteq> t" using h by (auto simp: m')
    then have u: "uses (mx_phase m s) = Some (k, b)" using h by (simp add: m')
    then have lk: "mx_locks m k = Some b" by (rule lock_invD(3) [OF i])
    have "el_holders e - 1 \<noteq> 0" if "k = key"
    proof -
      have "b = a" using that lk l by simp
      then have "s \<in> users_of m a" using u by (auto simp: users_of_def)
      then show ?thesis using gone st by auto
    qed
    then show ?thesis using lk by (auto simp: m')
  qed
  have 4: "k = k'" if "mx_locks m' k = Some b" "mx_locks m' k' = Some b" for k k' b
    using sub [OF that(1)] sub [OF that(2)] lock_invD(4) [OF i] by blast
  have 5: "\<exists>k. mx_phase m' s = Inside k b" if h: "mx_heap m' b = Some e2" "el_owner e2 = Some s" for b e2 s
  proof -
    have "\<exists>e3. mx_heap m b = Some e3 \<and> el_owner e3 = Some s" using h e by (auto simp: m' split: if_splits)
    then obtain k where k: "mx_phase m s = Inside k b" using lock_invD(5) [OF i] by blast
    then have "s \<noteq> t" using ph by auto
    then show ?thesis using k by (simp add: m')
  qed
  have 6: "\<exists>e2. mx_heap m' b = Some e2 \<and> el_owner e2 = Some s" if h: "mx_phase m' s = Inside k b" for s k b
  proof -
    have "mx_phase m s = Inside k b" using h by (simp add: m' split: if_splits)
    from lock_invD(6) [OF i this] show ?thesis using e by (auto simp: m')
  qed
  have 7: "mx_heap m' b = None" if "mx_next m' \<le> b" for b
    using lock_invD(7) [OF i, of b] lock_invD(2) [OF i l] that by (auto simp: m')
  show ?thesis unfolding lock_inv_def using 1 2 3 4 5 6 7 by blast
qed

lemma lock_step_inv: "lock_step m m' \<Longrightarrow> lock_inv m \<Longrightarrow> lock_inv m'"
  by (induction rule: lock_step.induct) (auto intro: enter_inv acquire_inv unlock_inv leave_inv)

lemma lock_reachable_inv: "lock_reachable m \<Longrightarrow> lock_inv m"
  by (induction rule: rtranclp_induct) (auto intro: lock_inv_initial lock_step_inv)

section \<open>What the lock is for\<close>

text \<open>One caller at a time is inside a key, whatever callers come and go.\<close>

lemma inside_unique:
  assumes "lock_inv m" "mx_phase m s = Inside key a" "mx_phase m t = Inside key b"
  shows "s = t"
proof -
  have "uses (mx_phase m s) = Some (key, a)" "uses (mx_phase m t) = Some (key, b)" using assms by simp_all
  note l = this [THEN lock_invD(3) [OF assms(1)]]
  then have "a = b" by simp
  moreover obtain e f where "mx_heap m a = Some e" "el_owner e = Some s" "mx_heap m b = Some f" "el_owner f = Some t"
    using lock_invD(6) [OF assms(1,2)] lock_invD(6) [OF assms(1,3)] by blast
  ultimately show ?thesis by simp
qed

text \<open>Nobody waits for ever by the lock's own doing: a key somebody waits for has a next step.\<close>

lemma waiting_progress:
  assumes i: "lock_inv m" and w: "mx_phase m t = Waiting key a"
  shows "acquire t m \<noteq> None \<or> (\<exists>s. mx_phase m s = Inside key a \<and> unlock s m \<noteq> None)"
proof -
  have l: "mx_locks m key = Some a" using lock_invD(3) [OF i, of t key a] w by simp
  obtain e where e: "mx_heap m a = Some e" using lock_invD(2) [OF i l] by blast
  show ?thesis
  proof (cases "el_owner e")
    case None
    then show ?thesis using w e by (simp add: acquire_def)
  next
    case (Some s)
    then obtain k where k: "mx_phase m s = Inside k a" using lock_invD(5) [OF i e] by blast
    then have "mx_locks m k = Some a" using lock_invD(3) [OF i, of s k a] by simp
    then have "k = key" using lock_invD(4) [OF i] l by blast
    then show ?thesis using k e by (auto simp: unlock_def)
  qed
qed

text \<open>No entry outlives its callers.\<close>

lemma entries_used:
  assumes "lock_inv m" "mx_locks m key = Some a"
  shows "\<exists>t. uses (mx_phase m t) = Some (key, a)"
proof -
  obtain t k where t: "uses (mx_phase m t) = Some (k, a)"
    using lock_invD(2) [OF assms] by (auto simp: users_of_def)
  then have "mx_locks m k = Some a" by (rule lock_invD(3) [OF assms(1)])
  then have "k = key" using lock_invD(4) [OF assms(1)] assms(2) by blast
  then show ?thesis using t by blast
qed

end
