(* ===== verification/Go_Text.thy ===== *)
theory Go_Text
  imports Zorkd_Prelude
begin

text \<open>
  Go strings. A Go string is a sequence of bytes and a \<open>char\<close> of HOL is one byte, so
  \<open>length\<close> is Go's \<open>len\<close>. The functions of packages strings, unicode, utf8 and strconv that
  the code calls on text are written out here over the UTF-8 decoder \<open>decode_rune\<close>.

  Unicode's own data (the simple folding, lower-case and printable tables of package
  unicode) is not written out beyond ASCII: it is the argument \<open>unicode\<close>, and the functions
  are exact on the ASCII half whatever the tables are.
\<close>

section \<open>UTF-8\<close>

abbreviation byte :: "char \<Rightarrow> nat" where "byte c \<equiv> of_char c"

definition rune_error :: nat where "rune_error = 0xFFFD"

definition cont :: "nat \<Rightarrow> bool" where
  "cont b \<longleftrightarrow> 0x80 \<le> b \<and> b \<le> 0xBF"

definition second_ok :: "nat \<Rightarrow> nat \<Rightarrow> bool" where
  "second_ok b0 b1 \<longleftrightarrow>
     (if b0 = 0xE0 then 0xA0 else if b0 = 0xF0 then 0x90 else 0x80) \<le> b1 \<and>
     b1 \<le> (if b0 = 0xED then 0x9F else if b0 = 0xF4 then 0x8F else 0xBF)"

text \<open>\<open>utf8.DecodeRuneInString\<close>: the first rune and its width; a bad byte is (U+FFFD, 1).\<close>

fun decode_rune :: "string \<Rightarrow> nat \<times> nat" where
  "decode_rune [] = (rune_error, 0)"
| "decode_rune (c0 # cs) =
     (let b0 = byte c0 in
      if b0 < 0x80 then (b0, 1)
      else if 0xC2 \<le> b0 \<and> b0 \<le> 0xDF then
        (case cs of
           c1 # _ \<Rightarrow>
             if cont (byte c1) then ((b0 - 0xC0) * 64 + (byte c1 - 0x80), 2) else (rune_error, 1)
         | _ \<Rightarrow> (rune_error, 1))
      else if 0xE0 \<le> b0 \<and> b0 \<le> 0xEF then
        (case cs of
           c1 # c2 # _ \<Rightarrow>
             if second_ok b0 (byte c1) \<and> cont (byte c2)
             then ((b0 - 0xE0) * 4096 + (byte c1 - 0x80) * 64 + (byte c2 - 0x80), 3)
             else (rune_error, 1)
         | _ \<Rightarrow> (rune_error, 1))
      else if 0xF0 \<le> b0 \<and> b0 \<le> 0xF4 then
        (case cs of
           c1 # c2 # c3 # _ \<Rightarrow>
             if second_ok b0 (byte c1) \<and> cont (byte c2) \<and> cont (byte c3)
             then ((b0 - 0xF0) * 262144 + (byte c1 - 0x80) * 4096
                     + (byte c2 - 0x80) * 64 + (byte c3 - 0x80), 4)
             else (rune_error, 1)
         | _ \<Rightarrow> (rune_error, 1))
      else (rune_error, 1))"

lemma decode_rune_width:
  "1 \<le> snd (decode_rune (c # cs))" "snd (decode_rune (c # cs)) \<le> length (c # cs)"
  by (auto simp: Let_def split: list.splits)

text \<open>\<open>for i, r := range s\<close>: the runes of a string, each with the bytes it was read from.\<close>

function runes :: "string \<Rightarrow> (nat \<times> string) list" where
  "runes [] = []"
| "runes (c # cs) =
     (let (r, w) = decode_rune (c # cs)
      in (r, take w (c # cs)) # runes (drop w (c # cs)))"
  by pat_completeness auto
termination
proof (relation "measure length", goal_cases)
  case 1
  then show ?case by simp
next
  case (2 c cs p r w)
  then have "w = snd (decode_rune (c # cs))" by (metis snd_conv)
  with decode_rune_width [of c cs] have "1 \<le> w" by simp
  then show ?case by simp
qed

abbreviation text_of :: "(nat \<times> string) list \<Rightarrow> string" where
  "text_of ps \<equiv> concat (map snd ps)"

lemma text_of_runes [simp]: "text_of (runes s) = s"
  by (induction s rule: runes.induct) (auto split: prod.splits)

definition rune_count :: "string \<Rightarrow> nat" where
  "rune_count s = length (runes s)"

text \<open>A chunk is invalid when it is one byte that decodes to U+FFFD.\<close>

definition bad_chunk :: "nat \<times> string \<Rightarrow> bool" where
  "bad_chunk p \<longleftrightarrow> fst p = rune_error \<and> length (snd p) = 1"

definition valid_utf8 :: "string \<Rightarrow> bool" where
  "valid_utf8 s \<longleftrightarrow> list_all (\<lambda>p. \<not> bad_chunk p) (runes s)"

definition is_ascii :: "string \<Rightarrow> bool" where
  "is_ascii s \<longleftrightarrow> list_all (\<lambda>c. byte c < 0x80) s"

text \<open>\<open>utf8.AppendRune\<close>: surrogates and numbers past U+10FFFF are written as U+FFFD.\<close>

definition encode_rune :: "nat \<Rightarrow> string" where
  "encode_rune r0 =
     (let r = (if (0xD800 \<le> r0 \<and> r0 \<le> 0xDFFF) \<or> 0x10FFFF < r0 then rune_error else r0) in
      map char_of
        (if r < 0x80 then [r]
         else if r < 0x800 then [0xC0 + r div 64, 0x80 + r mod 64]
         else if r < 0x10000 then [0xE0 + r div 4096, 0x80 + r div 64 mod 64, 0x80 + r mod 64]
         else [0xF0 + r div 262144, 0x80 + r div 4096 mod 64, 0x80 + r div 64 mod 64, 0x80 + r mod 64]))"

subsection \<open>Decoding what was decoded\<close>

text \<open>A good chunk decodes to its own rune wherever it stands.\<close>

definition good_chunk :: "nat \<times> string \<Rightarrow> bool" where
  "good_chunk p \<longleftrightarrow> decode_rune (snd p) = (fst p, length (snd p)) \<and> snd p \<noteq> [] \<and> \<not> bad_chunk p"

lemma decode_rune_append:
  assumes "decode_rune s = (r, length s)" "s \<noteq> []" "\<not> (r = rune_error \<and> length s = 1)"
  shows "decode_rune (s @ t) = (r, length s)"
  using assms
  by (cases s) (auto simp: Let_def split: list.splits if_splits)

lemma good_chunk_append: "good_chunk p \<Longrightarrow> decode_rune (snd p @ t) = (fst p, length (snd p))"
  unfolding good_chunk_def bad_chunk_def by (blast intro: decode_rune_append)

lemma decode_rune_take:
  "decode_rune s = (r, w) \<Longrightarrow> s \<noteq> [] \<Longrightarrow> decode_rune (take w s) = (r, w) \<and> length (take w s) = w"
  by (cases s) (auto simp: Let_def split: list.splits if_splits)

lemma runes_append_good: "good_chunk p \<Longrightarrow> runes (snd p @ t) = p # runes t"
proof -
  assume p: "good_chunk p"
  then obtain c cs where s: "snd p @ t = c # cs" unfolding good_chunk_def by (cases "snd p") auto
  have d: "decode_rune (c # cs) = (fst p, length (snd p))" using good_chunk_append [OF p, of t] s by simp
  have "take (length (snd p)) (c # cs) = snd p" "drop (length (snd p)) (c # cs) = t"
    using s [symmetric] by simp_all
  with d show ?thesis by (simp add: s)
qed

lemma runes_text_of: "list_all good_chunk ps \<Longrightarrow> runes (text_of ps) = ps"
  by (induction ps) (auto simp: runes_append_good)

lemma runes_chunks: "p \<in> set (runes s) \<Longrightarrow> \<not> bad_chunk p \<Longrightarrow> good_chunk p"
proof (induction s rule: runes.induct)
  case 1
  then show ?case by simp
next
  case (2 c cs)
  obtain r w where d: "decode_rune (c # cs) = (r, w)" by (cases "decode_rune (c # cs)")
  from d have "p = (r, take w (c # cs)) \<or> p \<in> set (runes (drop w (c # cs)))"
    using "2.prems"(1) by simp
  then show ?case
  proof
    assume p: "p = (r, take w (c # cs))"
    have "1 \<le> w" using decode_rune_width [of c cs] d by simp
    with decode_rune_take [OF d] "2.prems"(2) p show ?thesis
      by (auto simp: good_chunk_def)
  next
    assume "p \<in> set (runes (drop w (c # cs)))"
    with "2.IH" [OF d [symmetric] refl] "2.prems"(2) show ?thesis by blast
  qed
qed

lemma valid_utf8_good: "valid_utf8 s \<Longrightarrow> list_all good_chunk (runes s)"
  by (auto simp: valid_utf8_def list_all_iff intro: runes_chunks)

lemma valid_utf8_text_of: "list_all good_chunk ps \<Longrightarrow> valid_utf8 (text_of ps)"
  by (auto simp: valid_utf8_def runes_text_of list_all_iff good_chunk_def)

lemma good_chunk_ascii: "byte c < 0x80 \<Longrightarrow> good_chunk (byte c, [c])"
  by (simp add: good_chunk_def bad_chunk_def rune_error_def)

lemma runes_ascii: "is_ascii s \<Longrightarrow> runes s = map (\<lambda>c. (byte c, [c])) s"
  by (induction s) (auto simp: is_ascii_def)

section \<open>Spaces, controls, fields\<close>

text \<open>\<open>unicode.IsSpace\<close>: the Latin-1 spaces and the White_Space property beyond them.\<close>

definition is_space :: "nat \<Rightarrow> bool" where
  "is_space r \<longleftrightarrow>
     r \<in> {9, 10, 11, 12, 13, 32, 0x85, 0xA0, 0x1680, 0x2028, 0x2029, 0x202F, 0x205F, 0x3000}
     \<or> (0x2000 \<le> r \<and> r \<le> 0x200A)"

text \<open>\<open>unicode.IsControl\<close>: category Cc, all of it in Latin-1.\<close>

definition is_control :: "nat \<Rightarrow> bool" where
  "is_control r \<longleftrightarrow> r < 32 \<or> (0x7F \<le> r \<and> r < 0xA0)"

text \<open>\<open>strings.TrimSpace\<close>.\<close>

definition trim_space :: "string \<Rightarrow> string" where
  "trim_space s =
     (let sp = (\<lambda>p. is_space (fst p));
          front = dropWhile sp (runes s)
      in text_of (rev (dropWhile sp (rev front))))"

text \<open>\<open>strings.IndexFunc(s, unicode.IsSpace)\<close>: the byte where the first space starts.\<close>

definition index_space :: "string \<Rightarrow> nat option" where
  "index_space s =
     (let front = takeWhile (\<lambda>p. \<not> is_space (fst p)) (runes s)
      in if length front = length (runes s) then None else Some (length (text_of front)))"

text \<open>\<open>strings.Fields\<close> and \<open>strings.Join\<close>.\<close>

fun field_chunks :: "(nat \<times> string) list \<Rightarrow> (nat \<times> string) list \<Rightarrow> (nat \<times> string) list list" where
  "field_chunks cur [] = (if cur = [] then [] else [cur])"
| "field_chunks cur (p # ps) =
     (if is_space (fst p)
      then (if cur = [] then field_chunks [] ps else cur # field_chunks [] ps)
      else field_chunks (cur @ [p]) ps)"

definition str_fields :: "string \<Rightarrow> string list" where
  "str_fields s = map text_of (field_chunks [] (runes s))"

fun join :: "'a list \<Rightarrow> 'a list list \<Rightarrow> 'a list" where
  "join sep [] = []"
| "join sep [x] = x"
| "join sep (x # y # zs) = x @ sep @ join sep (y # zs)"

text \<open>\<open>strings.Split\<close> on one byte, and \<open>strings.SplitN(s, sep, 2)[0]\<close>.\<close>

fun split_on :: "char \<Rightarrow> string \<Rightarrow> string list" where
  "split_on c [] = [[]]"
| "split_on c (x # xs) =
     (if x = c then [] # split_on c xs
      else (case split_on c xs of (y # ys) \<Rightarrow> (x # y) # ys | [] \<Rightarrow> [[x]]))"

definition before :: "char \<Rightarrow> string \<Rightarrow> string" where
  "before c s = takeWhile (\<lambda>x. x \<noteq> c) s"

lemma split_on_nonempty [simp]: "split_on c s \<noteq> []"
  by (induction s) (auto split: list.splits)

lemma join_split_on: "join [c] (split_on c s) = s"
proof (induction s)
  case Nil
  then show ?case by simp
next
  case (Cons x xs)
  obtain y ys where "split_on c xs = y # ys" by (cases "split_on c xs") auto
  with Cons show ?case by (cases ys) auto
qed

subsection \<open>Splitting into fields and joining them again\<close>

definition is_field :: "(nat \<times> string) list \<Rightarrow> bool" where
  "is_field ps \<longleftrightarrow> ps \<noteq> [] \<and> list_all (\<lambda>p. \<not> is_space (fst p)) ps"

abbreviation blank_chunk :: "nat \<times> string" where "blank_chunk \<equiv> (32, '' '')"

lemma is_space_blank [simp]: "is_space 32"
  by (simp add: is_space_def)

lemma good_chunk_blank [simp]: "good_chunk blank_chunk"
  by (simp add: good_chunk_def bad_chunk_def rune_error_def)

lemma field_chunks_fields:
  "list_all (\<lambda>p. \<not> is_space (fst p)) cur \<Longrightarrow> list_all is_field (field_chunks cur ps)"
  by (induction cur ps rule: field_chunks.induct) (auto simp: is_field_def)

lemma field_chunks_subset: "f \<in> set (field_chunks cur ps) \<Longrightarrow> set f \<subseteq> set cur \<union> set ps"
  by (induction cur ps rule: field_chunks.induct) (auto split: if_splits)

lemma field_chunks_take:
  "list_all (\<lambda>p. \<not> is_space (fst p)) f \<Longrightarrow> field_chunks cur (f @ ps) = field_chunks (cur @ f) ps"
  by (induction f arbitrary: cur) auto

lemma field_chunks_join:
  "list_all is_field fs \<Longrightarrow> field_chunks [] (join [blank_chunk] fs) = fs"
proof (induction fs rule: induct_list012)
  case 1
  then show ?case by simp
next
  case (2 f)
  then show ?case using field_chunks_take [of f "[]" "[]"] by (simp add: is_field_def)
next
  case (3 f g fs)
  then have "field_chunks [] (join [blank_chunk] (g # fs)) = g # fs" by simp
  with 3 show ?case
    using field_chunks_take [of f "[]" "blank_chunk # join [blank_chunk] (g # fs)"]
    by (simp add: is_field_def)
qed

lemma text_of_join: "text_of (join [blank_chunk] fs) = join '' '' (map text_of fs)"
  by (induction fs rule: induct_list012) auto

lemma set_join: "set (join sep fs) \<subseteq> set sep \<union> \<Union> (set ` set fs)"
  by (induction fs rule: induct_list012) auto

lemma good_join_fields:
  assumes "valid_utf8 s"
  shows "list_all good_chunk (join [blank_chunk] (field_chunks [] (runes s)))"
proof -
  have "set (join [blank_chunk] (field_chunks [] (runes s))) \<subseteq> insert blank_chunk (set (runes s))"
    using set_join [of "[blank_chunk]" "field_chunks [] (runes s)"]
      field_chunks_subset [of _ "[]" "runes s"] by fastforce
  with valid_utf8_good [OF assms] show ?thesis by (auto simp: list_all_iff)
qed

lemma runes_join_fields:
  "valid_utf8 s \<Longrightarrow>
    runes (join '' '' (str_fields s)) = join [blank_chunk] (field_chunks [] (runes s))"
  using runes_text_of [OF good_join_fields] by (simp only: str_fields_def text_of_join)

lemma valid_utf8_join_fields: "valid_utf8 s \<Longrightarrow> valid_utf8 (join '' '' (str_fields s))"
  using valid_utf8_text_of [OF good_join_fields] by (simp only: str_fields_def text_of_join)

text \<open>Collapsing runs of white space is done once: a collapsed string is its own collapse.\<close>

lemma join_fields_idem:
  assumes "valid_utf8 s"
  shows "join '' '' (str_fields (join '' '' (str_fields s))) = join '' '' (str_fields s)"
  using field_chunks_fields [of "[]" "runes s"]
  by (simp add: str_fields_def [of "join '' '' (str_fields s)"] runes_join_fields [OF assms]
      field_chunks_join) (simp add: str_fields_def)

section \<open>Case\<close>

record unicode =
  u_fold :: "nat \<Rightarrow> nat"
  u_lower :: "nat \<Rightarrow> nat"
  u_print :: "nat \<Rightarrow> bool"

text \<open>
  \<open>u_fold\<close> gives a representative of a rune's \<open>unicode.SimpleFold\<close> orbit, \<open>u_lower\<close> is
  \<open>unicode.ToLower\<close> and \<open>u_print\<close> is \<open>strconv.IsPrint\<close>, each read at U+0080 and above only.
\<close>

definition ascii_lower :: "nat \<Rightarrow> nat" where
  "ascii_lower b = (if 65 \<le> b \<and> b \<le> 90 then b + 32 else b)"

definition fold_rune :: "unicode \<Rightarrow> nat \<Rightarrow> nat" where
  "fold_rune u r = (if r < 0x80 then ascii_lower r else u_fold u r)"

definition lower_rune :: "unicode \<Rightarrow> nat \<Rightarrow> nat" where
  "lower_rune u r = (if r < 0x80 then ascii_lower r else u_lower u r)"

text \<open>\<open>strings.EqualFold\<close>: the two strings read the same rune by rune under folding.\<close>

definition equal_fold :: "unicode \<Rightarrow> string \<Rightarrow> string \<Rightarrow> bool" where
  "equal_fold u a b \<longleftrightarrow> map (fold_rune u \<circ> fst) (runes a) = map (fold_rune u \<circ> fst) (runes b)"

text \<open>\<open>strings.ToLower\<close>: bytewise when the string is ASCII, else \<open>strings.Map\<close>.\<close>

definition to_lower :: "unicode \<Rightarrow> string \<Rightarrow> string" where
  "to_lower u s =
     (if is_ascii s then map (\<lambda>c. char_of (ascii_lower (byte c))) s
      else concat (map (\<lambda>p. encode_rune (lower_rune u (fst p))) (runes s)))"

lemma to_lower_fixed: "list_all (\<lambda>c. byte c < 0x80 \<and> \<not> (65 \<le> byte c \<and> byte c \<le> 90)) s \<Longrightarrow> to_lower u s = s"
  by (auto simp: to_lower_def is_ascii_def ascii_lower_def list_all_iff intro!: map_idI)

lemma equal_fold_refl [simp]: "equal_fold u a a"
  by (simp add: equal_fold_def)

lemma equal_fold_sym: "equal_fold u a b \<longleftrightarrow> equal_fold u b a"
  by (auto simp: equal_fold_def)

lemma equal_fold_trans: "equal_fold u a b \<Longrightarrow> equal_fold u b c \<Longrightarrow> equal_fold u a c"
  by (simp add: equal_fold_def)

section \<open>Quoting\<close>

text \<open>\<open>strconv.Quote\<close>, which is what \<open>%q\<close> writes for a string.\<close>

definition hex_digit :: "nat \<Rightarrow> char" where
  "hex_digit d = (if d < 10 then char_of (48 + d) else char_of (87 + d))"

definition hex_digits :: "nat \<Rightarrow> nat \<Rightarrow> string" where
  "hex_digits n r = map (\<lambda>i. hex_digit (r div 16 ^ i mod 16)) (rev [0..<n])"

definition is_print :: "unicode \<Rightarrow> nat \<Rightarrow> bool" where
  "is_print u r = (if r < 0x80 then 32 \<le> r \<and> r < 0x7F else u_print u r)"

definition quote_chunk :: "unicode \<Rightarrow> nat \<times> string \<Rightarrow> string" where
  "quote_chunk u p =
     (let r = fst p; bs = CHR 0x5C in
      if bad_chunk p then bs # CHR ''x'' # hex_digits 2 (byte (hd (snd p)))
      else if r = 34 \<or> r = 92 then bs # snd p
      else if is_print u r then snd p
      else if r = 7 then [bs, CHR ''a''] else if r = 8 then [bs, CHR ''b'']
      else if r = 12 then [bs, CHR ''f''] else if r = 10 then [bs, CHR ''n'']
      else if r = 13 then [bs, CHR ''r''] else if r = 9 then [bs, CHR ''t'']
      else if r = 11 then [bs, CHR ''v'']
      else if r < 32 \<or> r = 0x7F then bs # CHR ''x'' # hex_digits 2 r
      else if r < 0x10000 then bs # CHR ''u'' # hex_digits 4 r
      else bs # CHR ''U'' # hex_digits 8 r)"

definition quote :: "unicode \<Rightarrow> string \<Rightarrow> string" where
  "quote u s = [CHR 0x22] @ concat (map (quote_chunk u) (runes s)) @ [CHR 0x22]"

text \<open>The facts that evaluate these functions on a concrete string.\<close>

lemmas text_eval =
  cont_def second_ok_def rune_error_def bad_chunk_def valid_utf8_def rune_count_def
  is_space_def is_control_def is_ascii_def trim_space_def index_space_def str_fields_def
  equal_fold_def fold_rune_def lower_rune_def ascii_lower_def to_lower_def encode_rune_def
  quote_def quote_chunk_def is_print_def hex_digits_def hex_digit_def

end
