(* ===== verification/Game_Types.thy ===== *)
theory Game_Types
  imports Go_Text
begin

text \<open>
  The data of package game: story keys, the stored status line (status.go), sessions, saves,
  snapshots and summaries (session.go, saves.go), and what one call receives from outside
  the program (\<open>env\<close>).

  Go's \<open>int\<close> and \<open>int64\<close> counters (turns, versions) are \<open>int\<close>: one is added per command a
  player types, so 64 bits are never reached. The status line's fields keep their widths.
\<close>

text \<open>A story key is the 32 bytes of a SHA-256, read as one 256-bit word.\<close>

type_synonym story_key = "256 word"

record status_line =
  sl_available :: bool
  sl_name :: string
  sl_time_game :: bool
  sl_score :: "16 word"
  sl_moves :: "16 word"
  sl_hours :: "8 word"
  sl_minutes :: "8 word"

definition zero_status :: status_line where
  "zero_status = \<lparr>sl_available = False, sl_name = [], sl_time_game = False,
     sl_score = 0, sl_moves = 0, sl_hours = 0, sl_minutes = 0\<rparr>"

record session =
  s_id :: string
  s_user :: string
  s_key :: story_key
  s_state :: "bytes option"
  s_transcript :: string
  s_status :: status_line
  s_turn :: int
  s_version :: int
  s_halted :: bool

definition zero_session :: session where
  "zero_session = \<lparr>s_id = [], s_user = [], s_key = 0, s_state = None,
     s_transcript = [], s_status = zero_status, s_turn = 0, s_version = 0, s_halted = False\<rparr>"

record save =
  sv_id :: string
  sv_name :: string
  sv_turn :: int
  sv_created :: time

definition zero_save :: save where
  "zero_save = \<lparr>sv_id = [], sv_name = [], sv_turn = 0, sv_created = 0\<rparr>"

record snapshot =
  n_id :: string
  n_user :: string
  n_game :: string
  n_name :: string
  n_key :: story_key
  n_state :: "bytes option"
  n_transcript :: string
  n_status :: status_line
  n_turn :: int
  n_created :: time

record summary =
  y_id :: string
  y_key :: story_key
  y_turn :: int
  y_halted :: bool
  y_updated :: time

text \<open>
  What a call sees of the world outside the program. Time passes while it runs: its k-th use
  of the clock reads \<open>clock e k\<close>, and its k-th use of the database finds its context in
  \<open>ctx_err e k\<close> (\<open>None\<close> while the context is live and the database answers). \<open>call_no\<close>
  tells one call from another: an unseeded machine draws its randomness from it.
\<close>

record env =
  ctx_err :: "nat \<Rightarrow> goerr option"
  ctx_deadline :: "time option"
  clock :: "nat \<Rightarrow> time"
  call_no :: nat

text \<open>The environment as the part of a call after its first \<open>k\<close> steps sees it.\<close>

definition later :: "nat \<Rightarrow> env \<Rightarrow> env" where
  "later k e = e\<lparr>clock := (\<lambda>i. clock e (i + k)), ctx_err := (\<lambda>i. ctx_err e (i + k))\<rparr>"

definition now :: "env \<Rightarrow> time" where
  "now e = clock e 0"

definition ctx_live :: "env \<Rightarrow> bool" where
  "ctx_live e \<longleftrightarrow> ctx_err e 0 = None"

lemma later_simps [simp]: "now (later k e) = clock e k" "ctx_deadline (later k e) = ctx_deadline e"
  "call_no (later k e) = call_no e" "ctx_live (later k e) \<longleftrightarrow> ctx_err e k = None"
  by (simp_all add: later_def now_def ctx_live_def)

text \<open>
  The environment of a call's k-th use of its store: one use reads the clock and the
  database at most eight times.
\<close>

definition nth_use :: "nat \<Rightarrow> env \<Rightarrow> env" where
  "nth_use k e = later (8 * k) e"

section \<open>The engine's result\<close>

text \<open>
  What the code reads of the engine's \<open>zmachine.Result\<close> and \<open>zmachine.StatusLine\<close>. The
  engine itself is a parameter of the model; see theory \<open>Game_Engine\<close>.
\<close>

record z_status =
  z_available :: bool
  z_name :: string
  z_time_game :: bool
  z_score :: "16 word"
  z_turns :: "16 word"
  z_hours :: "8 word"
  z_minutes :: "8 word"

record z_result =
  z_output :: string
  z_upper :: string
  z_state :: "bytes option"
  z_halted :: bool
  z_line :: z_status

definition status_of :: "z_status \<Rightarrow> status_line" where
  "status_of s = \<lparr>sl_available = z_available s, sl_name = z_name s, sl_time_game = z_time_game s,
     sl_score = z_score s, sl_moves = z_turns s, sl_hours = z_hours s, sl_minutes = z_minutes s\<rparr>"

end
