(* ===== verification/Game_Command.thy ===== *)
theory Game_Command
  imports Game_Types
begin

text \<open>
  Which of a player's lines this application answers itself (command.go): the first word
  alone decides, and only SAVE, RESTORE and RESTART are taken from the story.
\<close>

datatype intent = IntentPlay | IntentSave | IntentRestore | IntentRestart

definition intent_string :: "intent \<Rightarrow> string" where
  "intent_string i = (case i of IntentPlay \<Rightarrow> ''play'' | IntentSave \<Rightarrow> ''save''
     | IntentRestore \<Rightarrow> ''restore'' | IntentRestart \<Rightarrow> ''restart'')"

record command =
  c_intent :: intent
  c_text :: string
  c_name :: string

definition interpret_line :: "unicode \<Rightarrow> string \<Rightarrow> command" where
  "interpret_line u line =
     (let text = trim_space line;
          (verb, rest) = (case index_space text of
             Some i \<Rightarrow> (take i text, trim_space (drop (i + 1) text))
           | None \<Rightarrow> (text, []))
      in if to_lower u verb = ''save'' then \<lparr>c_intent = IntentSave, c_text = text, c_name = rest\<rparr>
         else if to_lower u verb = ''restore'' then \<lparr>c_intent = IntentRestore, c_text = text, c_name = rest\<rparr>
         else if to_lower u verb = ''restart'' then \<lparr>c_intent = IntentRestart, c_text = text, c_name = []\<rparr>
         else \<lparr>c_intent = IntentPlay, c_text = text, c_name = []\<rparr>)"

text \<open>The first word of a line, as the code cuts it out.\<close>

definition line_verb :: "string \<Rightarrow> string" where
  "line_verb line =
     (let text = trim_space line in case index_space text of Some i \<Rightarrow> take i text | None \<Rightarrow> text)"

lemma interpret_line_text [simp]: "c_text (interpret_line u line) = trim_space line"
  by (simp add: interpret_line_def Let_def split: prod.splits option.splits)

lemma interpret_line_intent:
  "c_intent (interpret_line u line) =
     (let v = to_lower u (line_verb line) in
      if v = ''save'' then IntentSave else if v = ''restore'' then IntentRestore
      else if v = ''restart'' then IntentRestart else IntentPlay)"
  by (simp add: interpret_line_def line_verb_def Let_def split: prod.splits option.splits)

lemma interpret_line_name:
  "c_intent (interpret_line u line) \<in> {IntentPlay, IntentRestart} \<Longrightarrow> c_name (interpret_line u line) = []"
  by (auto simp: interpret_line_def Let_def split: prod.splits option.splits if_splits)

section \<open>Lower-casing a verb\<close>

text \<open>
  What the code relies on in Unicode's lower-case table: outside ASCII only the Kelvin sign
  and the dotted capital I lower to an ASCII letter (k and i), and neither letter is in one
  of the three verbs.
\<close>

definition lower_table_ok :: "unicode \<Rightarrow> bool" where
  "lower_table_ok u \<longleftrightarrow> (\<forall>r \<ge> 0x80. u_lower u r \<in> {105, 107} \<or> 0x80 \<le> u_lower u r)"

definition ascii_word :: "string \<Rightarrow> bool" where
  "ascii_word w \<longleftrightarrow> list_all (\<lambda>c. 97 \<le> byte c \<and> byte c \<le> 122 \<and> byte c \<noteq> 105 \<and> byte c \<noteq> 107) w"

text \<open>A string that is lower-case ASCII once its capitals are lowered, byte by byte.\<close>

definition same_word :: "string \<Rightarrow> string \<Rightarrow> bool" where
  "same_word s w \<longleftrightarrow> map (\<lambda>c. ascii_lower (byte c)) s = map byte w"

lemma decode_rune_ascii:
  "decode_rune s = (r, w) \<Longrightarrow> r < 0x80 \<Longrightarrow> s \<noteq> [] \<Longrightarrow> w = 1 \<and> byte (hd s) = r"
  by (cases s) (auto simp: Let_def rune_error_def second_ok_def split: list.splits if_splits)

lemma runes_ascii_chunk: "p \<in> set (runes s) \<Longrightarrow> fst p < 0x80 \<Longrightarrow> \<exists>c. snd p = [c] \<and> byte c = fst p"
proof (induction s rule: runes.induct)
  case 1
  then show ?case by simp
next
  case (2 c cs)
  obtain r w where d: "decode_rune (c # cs) = (r, w)" by (cases "decode_rune (c # cs)")
  then have "p = (r, take w (c # cs)) \<or> p \<in> set (runes (drop w (c # cs)))"
    using "2.prems"(1) by simp
  then show ?case
    using "2.IH" [OF d [symmetric] refl] decode_rune_ascii [OF d] "2.prems"(2) by auto
qed

lemma not_ascii_rune: "\<not> is_ascii s \<Longrightarrow> \<exists>p \<in> set (runes s). 0x80 \<le> fst p"
proof (rule ccontr)
  assume "\<not> is_ascii s" and no: "\<not> (\<exists>p \<in> set (runes s). 0x80 \<le> fst p)"
  then obtain c where c: "c \<in> set s" "0x80 \<le> byte c" by (auto simp: is_ascii_def list_all_iff)
  from c(1) have "c \<in> set (text_of (runes s))" by simp
  then obtain p where p: "p \<in> set (runes s)" "c \<in> set (snd p)" by (auto simp del: text_of_runes)
  from no p(1) have r: "fst p < 0x80" by (meson not_le_imp_less)
  from runes_ascii_chunk [OF p(1) r] obtain d where "snd p = [d]" "byte d = fst p" by blast
  with p(2) c(2) r show False by auto
qed

lemma encode_rune_head: "0x80 \<le> r \<Longrightarrow> \<exists>c \<in> set (encode_rune r). 0x80 \<le> byte c"
proof -
  assume "0x80 \<le> r"
  then have *: "byte (hd (encode_rune r)) \<ge> 0x80 \<and> encode_rune r \<noteq> []"
    by (auto simp: encode_rune_def Let_def rune_error_def of_char_of)
  then show ?thesis using hd_in_set by blast
qed

lemma to_lower_word:
  assumes "lower_table_ok u" "ascii_word w"
  shows "to_lower u s = w \<longleftrightarrow> same_word s w"
proof (cases "is_ascii s")
  case True
  have "map char_of (map byte w) = w" by (simp add: map_idI)
  moreover have "map byte (map char_of (map (\<lambda>c. ascii_lower (byte c)) s)) = map (\<lambda>c. ascii_lower (byte c)) s"
    using True by (auto simp: is_ascii_def list_all_iff ascii_lower_def of_char_of)
  moreover have "to_lower u s = map char_of (map (\<lambda>c. ascii_lower (byte c)) s)"
    using True by (simp add: to_lower_def)
  ultimately show ?thesis unfolding same_word_def by fastforce
next
  case False
  then obtain p where p: "p \<in> set (runes s)" "0x80 \<le> fst p" using not_ascii_rune by blast
  let ?x = "u_lower u (fst p)"
  have "\<exists>c \<in> set (encode_rune ?x). 0x80 \<le> byte c \<or> byte c = 105 \<or> byte c = 107"
  proof (cases "0x80 \<le> ?x")
    case False
    with assms(1) p(2) have "?x = 105 \<or> ?x = 107" by (auto simp: lower_table_ok_def)
    then show ?thesis by (auto simp: encode_rune_def)
  qed (use encode_rune_head in blast)
  then obtain c where "c \<in> set (to_lower u s)" "0x80 \<le> byte c \<or> byte c = 105 \<or> byte c = 107"
    using False p by (force simp: to_lower_def lower_rune_def)
  then have other: "to_lower u s \<noteq> w" using assms(2) by (fastforce simp: ascii_word_def list_all_iff)
  obtain d where "d \<in> set s" "0x80 \<le> byte d"
    using False by (auto simp: is_ascii_def list_all_iff)
  then have "ascii_lower (byte d) \<in> set (map (\<lambda>c. ascii_lower (byte c)) s)" "122 < ascii_lower (byte d)"
    by (auto simp: ascii_lower_def)
  moreover have "\<forall>x \<in> set (map byte w). x \<le> 122"
    using assms(2) by (auto simp: ascii_word_def list_all_iff)
  ultimately have "\<not> same_word s w" unfolding same_word_def by (metis not_le)
  with other show ?thesis by simp
qed

text \<open>
  The verbs are matched as the documentation says: the three words, in any ASCII case, and
  nothing else, however the line is spaced around them.
\<close>

lemma interpret_line_verbs:
  assumes "lower_table_ok u"
  shows "c_intent (interpret_line u line) =
     (if same_word (line_verb line) ''save'' then IntentSave
      else if same_word (line_verb line) ''restore'' then IntentRestore
      else if same_word (line_verb line) ''restart'' then IntentRestart else IntentPlay)"
proof -
  have "ascii_word ''save''" "ascii_word ''restore''" "ascii_word ''restart''"
    by (simp_all add: ascii_word_def)
  then show ?thesis using to_lower_word [OF assms] by (simp add: interpret_line_intent Let_def)
qed

end
