(* ===== verification/Game_Engine.thy ===== *)
theory Game_Engine
  imports Game_Types "HOL-Library.While_Combinator"
begin

text \<open>
  Playing one turn on the engine: the classification of faults (errors.go), the story
  library (library.go, games/games.go) and the runner (turn.go).

  The engine is github.com/maloquacious/zmachine, which is not in this repository. It is the
  record \<open>engine\<close> of the functions the code calls; a machine is created, restored into and
  run, and each call may fail. Nothing is assumed of them.
\<close>

record ('story, 'm) engine =
  z_load :: "bytes \<Rightarrow> 'story result"
  z_new :: "'story \<Rightarrow> 64 word \<Rightarrow> 64 word option \<Rightarrow> 'm result"
  z_start :: "env \<Rightarrow> 'm \<Rightarrow> z_result result"
  z_restore :: "'m \<Rightarrow> bytes \<Rightarrow> 'm result"
  z_run :: "env \<Rightarrow> 'm \<Rightarrow> string \<Rightarrow> z_result result"

section \<open>Faults\<close>

datatype fault =
    FaultNone | FaultCanceled | FaultTimeout | FaultExecutionLimit
  | FaultInvalidState | FaultInvalidStory | FaultExecution | FaultInternal

definition classify :: "goerr option \<Rightarrow> fault" where
  "classify err =
     (case err of
        None \<Rightarrow> FaultNone
      | Some e \<Rightarrow>
          if errors_is e CtxCanceled then FaultCanceled
          else if errors_is e CtxDeadlineExceeded then FaultTimeout
          else if errors_is e ZErrExecutionLimit then FaultExecutionLimit
          else if errors_is e ZErrInvalidState then FaultInvalidState
          else if errors_is e ZErrInvalidStory then FaultInvalidStory
          else if errors_is e ZErrExecutionFault \<or> errors_is e ZErrInvalidOpcode
               \<or> errors_is e ZErrMemoryAccess \<or> errors_is e ZErrInvalidText
          then FaultExecution
          else FaultInternal)"

definition retryable :: "fault \<Rightarrow> bool" where
  "retryable f \<longleftrightarrow> f = FaultTimeout"

definition fault_string :: "fault \<Rightarrow> string" where
  "fault_string f = (case f of
      FaultNone \<Rightarrow> ''none'' | FaultCanceled \<Rightarrow> ''canceled'' | FaultTimeout \<Rightarrow> ''timeout''
    | FaultExecutionLimit \<Rightarrow> ''execution_limit'' | FaultInvalidState \<Rightarrow> ''invalid_state''
    | FaultInvalidStory \<Rightarrow> ''invalid_story'' | FaultExecution \<Rightarrow> ''execution''
    | FaultInternal \<Rightarrow> ''internal'')"

lemma classify_Wrap [simp]: "classify (Some (Wrap m e)) = classify (Some e)"
  by (simp add: classify_def)

section \<open>The story library\<close>

record source =
  src_id :: string
  src_title :: string
  src_file :: string
  src_data :: bytes

record 'story entry =
  en_id :: string
  en_title :: string
  en_file :: string
  en_key :: story_key
  en_story :: 'story

record 'story library =
  by_key_map :: "(story_key \<times> 'story entry) list"
  by_id_map :: "(string \<times> 'story entry) list"
  lib_order :: "'story entry list"

text \<open>
  \<open>crypto/sha256\<close> is the argument \<open>sha\<close>: a story key is the hash of the image.
\<close>

definition story_key_of :: "(bytes \<Rightarrow> story_key) \<Rightarrow> bytes \<Rightarrow> story_key" where
  "story_key_of sha data = sha data"

text \<open>\<open>StoryKey.String\<close>: the 32 bytes in lower-case hexadecimal.\<close>

definition story_key_string :: "story_key \<Rightarrow> string" where
  "story_key_string k = hex_digits 64 (unat k)"

definition lib_by_id :: "'story library \<Rightarrow> string \<Rightarrow> 'story entry option" where
  "lib_by_id l i = map_of (by_id_map l) i"

definition lib_by_key :: "'story library \<Rightarrow> story_key \<Rightarrow> 'story entry option" where
  "lib_by_key l k = map_of (by_key_map l) k"

definition lib_all :: "'story library \<Rightarrow> 'story entry list" where
  "lib_all l = lib_order l"

definition lib_len :: "'story library \<Rightarrow> nat" where
  "lib_len l = length (lib_order l)"

text \<open>One turn of the loop in \<open>NewLibrary\<close>, and the loop.\<close>

definition add_source ::
  "(bytes \<Rightarrow> story_key) \<Rightarrow> ('story, 'm) engine \<Rightarrow> source \<Rightarrow> 'story library \<Rightarrow> 'story library result" where
  "add_source sha eng src lib =
     (if src_id src = [] then Inl (Opaque (''library: story '' @ src_file src @ '': empty id''))
      else case map_of (by_id_map lib) (src_id src) of
        Some prior \<Rightarrow> Inl (Opaque (''library: '' @ src_id src @ '': duplicate id, already used by '' @ en_file prior))
      | None \<Rightarrow>
          bind_r (wrap_r (''library: '' @ src_id src @ '': load '' @ src_file src) (z_load eng (src_data src)))
            (\<lambda>story. let key = story_key_of sha (src_data src) in
               case map_of (by_key_map lib) key of
                 Some prior \<Rightarrow> Inl (Opaque (''library: '' @ src_id src @ '': same story image as '' @ en_id prior))
               | None \<Rightarrow>
                   let e = \<lparr>en_id = src_id src, en_title = src_title src, en_file = src_file src,
                            en_key = key, en_story = story\<rparr>
                   in Inr \<lparr>by_key_map = (key, e) # by_key_map lib,
                           by_id_map = (src_id src, e) # by_id_map lib,
                           lib_order = lib_order lib @ [e]\<rparr>))"

fun add_sources ::
  "(bytes \<Rightarrow> story_key) \<Rightarrow> ('story, 'm) engine \<Rightarrow> source list \<Rightarrow> 'story library \<Rightarrow> 'story library result" where
  "add_sources sha eng [] lib = Inr lib"
| "add_sources sha eng (src # srcs) lib =
     bind_r (add_source sha eng src lib) (add_sources sha eng srcs)"

definition new_library ::
  "(bytes \<Rightarrow> story_key) \<Rightarrow> ('story, 'm) engine \<Rightarrow> source list \<Rightarrow> 'story library result" where
  "new_library sha eng srcs =
     (if srcs = [] then Inl (Opaque ''library: no stories'')
      else add_sources sha eng srcs \<lparr>by_key_map = [], by_id_map = [], lib_order = []\<rparr>)"

text \<open>
  \<open>games.All\<close>: the three stories of the binary. The images are embedded files, so they are
  arguments; \<open>Embedded\<close> builds the library from them.
\<close>

definition games_all :: "bytes \<Rightarrow> bytes \<Rightarrow> bytes \<Rightarrow> source list" where
  "games_all zork1 zork2 zork3 =
     [\<lparr>src_id = ''zork1'', src_title = ''Zork I: The Great Underground Empire'',
       src_file = ''zork1-r119-880429.z3'', src_data = zork1\<rparr>,
      \<lparr>src_id = ''zork2'', src_title = ''Zork II: The Wizard of Frobozz'',
       src_file = ''zork2-r63-860811.z3'', src_data = zork2\<rparr>,
      \<lparr>src_id = ''zork3'', src_title = ''Zork III: The Dungeon Master'',
       src_file = ''zork3-r25-860811.z3'', src_data = zork3\<rparr>]"

definition embedded_library ::
  "(bytes \<Rightarrow> story_key) \<Rightarrow> ('story, 'm) engine \<Rightarrow> bytes \<Rightarrow> bytes \<Rightarrow> bytes \<Rightarrow> 'story library result" where
  "embedded_library sha eng z1 z2 z3 = new_library sha eng (games_all z1 z2 z3)"

text \<open>
  The two indexes and the order hold the same entries, under their own identifier and key,
  and neither an identifier nor a key twice.
\<close>

definition library_ok :: "'story library \<Rightarrow> bool" where
  "library_ok l \<longleftrightarrow>
     distinct (map en_id (lib_order l)) \<and> distinct (map en_key (lib_order l))
     \<and> by_id_map l = rev (map (\<lambda>e. (en_id e, e)) (lib_order l))
     \<and> by_key_map l = rev (map (\<lambda>e. (en_key e, e)) (lib_order l))
     \<and> [] \<notin> en_id ` set (lib_order l)"

lemma add_source_ok:
  assumes "library_ok l" "add_source sha eng src l = Inr l'"
  shows "library_ok l'"
  using assms
  by (auto simp: add_source_def library_ok_def result_iff Let_def map_of_eq_None_iff comp_def image_image
      split: if_splits option.splits)

lemma add_source_order:
  assumes "add_source sha eng src l = Inr l'"
  shows "\<exists>story. z_load eng (src_data src) = Inr story \<and> lib_order l' = lib_order l @
     [\<lparr>en_id = src_id src, en_title = src_title src, en_file = src_file src,
       en_key = story_key_of sha (src_data src), en_story = story\<rparr>]"
  using assms by (auto simp: add_source_def result_iff Let_def split: if_splits option.splits)

lemma add_sources_ok: "library_ok l \<Longrightarrow> add_sources sha eng srcs l = Inr l' \<Longrightarrow> library_ok l'"
  by (induction srcs arbitrary: l) (auto simp: result_iff dest: add_source_ok)

lemma add_sources_order:
  "add_sources sha eng srcs l = Inr l' \<Longrightarrow>
    \<exists>es. lib_order l' = lib_order l @ es \<and> map en_id es = map src_id srcs
      \<and> map en_key es = map (story_key_of sha \<circ> src_data) srcs"
proof (induction srcs arbitrary: l)
  case Nil
  then show ?case by simp
next
  case (Cons src srcs)
  then obtain m where m: "add_source sha eng src l = Inr m" "add_sources sha eng srcs m = Inr l'"
    by (auto simp: result_iff)
  obtain es where "lib_order l' = lib_order m @ es" "map en_id es = map src_id srcs"
      "map en_key es = map (story_key_of sha \<circ> src_data) srcs"
    using Cons.IH [OF m(2)] by blast
  with add_source_order [OF m(1)] show ?case by auto
qed

lemma library_ok_empty: "library_ok \<lparr>by_key_map = [], by_id_map = [], lib_order = []\<rparr>"
  by (simp add: library_ok_def)

lemma new_library_ok: "new_library sha eng srcs = Inr l \<Longrightarrow> library_ok l"
  by (auto simp: new_library_def split: if_splits dest: add_sources_ok [OF library_ok_empty])

lemma map_of_rev_index:
  "distinct (map f es) \<Longrightarrow> map_of (rev (map (\<lambda>e. (f e, e)) es)) k = Some e \<longleftrightarrow> e \<in> set es \<and> f e = k"
  by (subst map_of_eq_Some_iff) (auto simp: rev_map [symmetric] comp_def)

lemma library_lookup:
  assumes "library_ok l"
  shows "lib_by_id l i = Some e \<longleftrightarrow> e \<in> set (lib_all l) \<and> en_id e = i"
    and "lib_by_key l k = Some e \<longleftrightarrow> e \<in> set (lib_all l) \<and> en_key e = k"
  using assms by (simp_all add: library_ok_def lib_by_id_def lib_by_key_def lib_all_def map_of_rev_index)

lemma library_same_entry:
  assumes "library_ok l" "lib_by_id l i = Some e"
  shows "lib_by_key l (en_key e) = Some e"
  using assms library_lookup by blast

section \<open>The runner\<close>

definition default_turn_timeout :: duration where "default_turn_timeout = 5 * second"
definition default_instruction_limit :: "64 word" where "default_instruction_limit = 5000000"
definition max_command_bytes :: nat where "max_command_bytes = 256"

record runner =
  turn_timeout :: duration
  instruction_limit :: "64 word"
  rnd_seed :: "64 word option"

type_synonym runner_option = "runner \<Rightarrow> runner"

definition new_runner :: "runner_option list \<Rightarrow> runner" where
  "new_runner opts = fold (\<lambda>f r. f r) opts
     \<lparr>turn_timeout = default_turn_timeout, instruction_limit = default_instruction_limit,
      rnd_seed = None\<rparr>"

definition with_turn_timeout :: "duration \<Rightarrow> runner_option" where
  "with_turn_timeout d r = r\<lparr>turn_timeout := d\<rparr>"

definition with_instruction_limit :: "64 word \<Rightarrow> runner_option" where
  "with_instruction_limit limit r = (if 0 < limit then r\<lparr>instruction_limit := limit\<rparr> else r)"

definition with_random_seed :: "64 word \<Rightarrow> runner_option" where
  "with_random_seed seed r = r\<lparr>rnd_seed := Some seed\<rparr>"

text \<open>
  \<open>bound\<close>: with a positive timeout the call's context ends at the nearer of its own deadline
  and now plus the timeout; otherwise its deadline stands.
\<close>

definition bound_ctx :: "runner \<Rightarrow> env \<Rightarrow> env" where
  "bound_ctx r e =
     (if turn_timeout r \<le> 0 then e
      else e\<lparr>ctx_deadline := Some (case ctx_deadline e of
               None \<Rightarrow> now e + turn_timeout r
             | Some d \<Rightarrow> min d (now e + turn_timeout r))\<rparr>)"

definition new_machine :: "('story, 'm) engine \<Rightarrow> runner \<Rightarrow> 'story entry \<Rightarrow> 'm result" where
  "new_machine eng r story = z_new eng (en_story story) (instruction_limit r) (rnd_seed r)"

definition run_fail :: "'story entry \<Rightarrow> string \<Rightarrow> goerr \<Rightarrow> goerr" where
  "run_fail story op e = Wrap (''game: '' @ en_id story @ '': '' @ op) e"

definition runner_start ::
  "('story, 'm) engine \<Rightarrow> runner \<Rightarrow> env \<Rightarrow> 'story entry option \<Rightarrow> z_result result" where
  "runner_start eng r e story0 =
     (case story0 of
        None \<Rightarrow> Inl (Opaque ''game: start: nil story'')
      | Some story \<Rightarrow>
          let e' = bound_ctx r e in
          case new_machine eng r story of
            Inl err \<Rightarrow> Inl (Wrap (''game: '' @ en_id story @ '': new machine'') err)
          | Inr machine \<Rightarrow>
              (case z_start eng e' machine of
                 Inl err \<Rightarrow> Inl (run_fail story ''start'' err)
               | Inr res \<Rightarrow> Inr res))"

definition runner_run ::
  "('story, 'm) engine \<Rightarrow> runner \<Rightarrow> env \<Rightarrow> 'story entry option \<Rightarrow> bytes option \<Rightarrow> string
     \<Rightarrow> z_result result" where
  "runner_run eng r e story0 saved command =
     (case story0 of
        None \<Rightarrow> Inl (Opaque ''game: run: nil story'')
      | Some story \<Rightarrow>
          if no_bytes saved then Inl (Opaque (''game: '' @ en_id story @ '': run: no saved state''))
          else if max_command_bytes < length command
          then Inl (Opaque (''game: '' @ en_id story @ '': run: command is '' @ nat_digits (length command)
                  @ '' bytes, limit is '' @ nat_digits max_command_bytes))
          else
            let e' = bound_ctx r e in
            case new_machine eng r story of
              Inl err \<Rightarrow> Inl (Wrap (''game: '' @ en_id story @ '': new machine'') err)
            | Inr machine \<Rightarrow>
                (case z_restore eng machine (the saved) of
                   Inl err \<Rightarrow> Inl (run_fail story ''restore'' err)
                 | Inr machine' \<Rightarrow>
                     (case z_run eng e' machine' command of
                        Inl err \<Rightarrow> Inl (run_fail story ''run'' err)
                      | Inr res \<Rightarrow> Inr res)))"

lemma new_runner_bounds:
  "instruction_limit (fold (\<lambda>f r. f r) (map with_instruction_limit ls) r) > 0 \<longleftrightarrow>
     (0 < instruction_limit r \<or> (\<exists>l \<in> set ls. 0 < l))"
  by (induction ls arbitrary: r) (auto simp: with_instruction_limit_def)

lemma bound_ctx_nearer:
  assumes "0 < turn_timeout r"
  shows "\<exists>d. ctx_deadline (bound_ctx r e) = Some d \<and> d \<le> now e + turn_timeout r
    \<and> (\<forall>c. ctx_deadline e = Some c \<longrightarrow> d \<le> c)"
  using assms by (auto simp: bound_ctx_def split: option.splits)

text \<open>A run that returns has gone through a fresh machine restored from the saved bytes.\<close>

lemma runner_run_Inr:
  "runner_run eng r e (Some story) saved command = Inr res \<longleftrightarrow>
     \<not> no_bytes saved \<and> length command \<le> max_command_bytes \<and>
     (\<exists>m m'. new_machine eng r story = Inr m \<and> z_restore eng m (the saved) = Inr m'
        \<and> z_run eng (bound_ctx r e) m' command = Inr res)"
  by (auto simp: runner_run_def Let_def split: sum.splits)

lemma runner_start_Inr:
  "runner_start eng r e (Some story) = Inr res \<longleftrightarrow>
     (\<exists>m. new_machine eng r story = Inr m \<and> z_start eng (bound_ctx r e) m = Inr res)"
  by (auto simp: runner_start_def Let_def split: sum.splits)

text \<open>The annotation of a failed turn keeps its classification.\<close>

lemma classify_run_fail [simp]: "classify (Some (run_fail story op e)) = classify (Some e)"
  by (simp add: run_fail_def)

end
