(* ===== verification/Game_Transcript.thy ===== *)
theory Game_Transcript
  imports Game_Types
begin

text \<open>
  The stored transcript (transcript.go): what is appended to it, and the trim that keeps it
  within its bound by dropping the oldest lines.
\<close>

definition max_transcript_bytes :: nat where
  "max_transcript_bytes = 64 * 1024"

definition newline :: char where "newline = CHR 0x0A"

text \<open>\<open>strings.IndexByte\<close>.\<close>

fun index_byte :: "char \<Rightarrow> string \<Rightarrow> nat option" where
  "index_byte c [] = None"
| "index_byte c (x # xs) = (if x = c then Some 0 else map_option Suc (index_byte c xs))"

definition trim_transcript :: "string \<Rightarrow> nat \<Rightarrow> string" where
  "trim_transcript t limit =
     (if length t \<le> limit then t
      else let cut = drop (length t - limit) t in
        case index_byte newline cut of Some i \<Rightarrow> drop (i + 1) cut | None \<Rightarrow> cut)"

definition append_transcript :: "string \<Rightarrow> string \<Rightarrow> string \<Rightarrow> string" where
  "append_transcript transcript command output =
     trim_transcript (transcript @ command @ [newline] @ output) max_transcript_bytes"

definition append_notice :: "string \<Rightarrow> string \<Rightarrow> string \<Rightarrow> string" where
  "append_notice transcript echo message =
     trim_transcript
       (transcript @ echo @ [newline, CHR ''[''] @ message @ [CHR '']'', newline, newline, CHR ''>''])
       max_transcript_bytes"

lemma index_byte_Some:
  "index_byte c s = Some i \<Longrightarrow> i < length s \<and> s ! i = c \<and> c \<notin> set (take i s)"
  by (induction s arbitrary: i) (auto split: if_splits simp: less_Suc_eq_0_disj)

lemma index_byte_None: "index_byte c s = None \<longleftrightarrow> c \<notin> set s"
  by (induction s) auto

lemma trim_length: "length (trim_transcript t limit) \<le> limit"
  by (auto simp: trim_transcript_def Let_def split: option.splits)

text \<open>What is kept is an end of what there was, cut after a newline where there is one.\<close>

lemma trim_suffix: "\<exists>dropped. t = dropped @ trim_transcript t limit"
proof -
  have "\<exists>n. trim_transcript t limit = drop n t"
    by (auto simp: trim_transcript_def Let_def drop_drop split: option.splits intro: exI [of _ 0])
  then show ?thesis by (metis append_take_drop_id)
qed

lemma trim_at_line:
  assumes "limit < length t" "newline \<in> set (drop (length t - limit) t)"
  shows "\<exists>dropped. t = dropped @ [newline] @ trim_transcript t limit
    \<and> newline \<notin> set (drop (length t - limit) dropped)"
proof -
  let ?cut = "drop (length t - limit) t" let ?old = "take (length t - limit) t"
  obtain i where i: "index_byte newline ?cut = Some i"
    using assms(2) index_byte_None by (metis not_None_eq)
  from index_byte_Some [OF i] have len: "i < length ?cut" and nl: "?cut ! i = newline"
    and no: "newline \<notin> set (take i ?cut)" by blast+
  from id_take_nth_drop [OF len] nl have "?cut = take i ?cut @ [newline] @ drop (i + 1) ?cut"
    by (simp only: append_Cons append_Nil Suc_eq_plus1)
  moreover have "trim_transcript t limit = drop (i + 1) ?cut"
    using assms(1) i by (simp add: trim_transcript_def)
  ultimately have "t = (?old @ take i ?cut) @ [newline] @ trim_transcript t limit"
    by (metis append.assoc append_take_drop_id)
  moreover have "length ?old = length t - limit" by simp
  ultimately show ?thesis using no by (intro exI [of _ "?old @ take i ?cut"]) simp
qed

lemma last_trim:
  assumes "0 < limit" "last t \<noteq> newline" "t \<noteq> []"
  shows "trim_transcript t limit \<noteq> [] \<and> last (trim_transcript t limit) = last t"
proof -
  have *: "trim_transcript t limit \<noteq> []"
  proof (cases "length t \<le> limit")
    case True
    with assms show ?thesis by (simp add: trim_transcript_def)
  next
    case False
    show ?thesis
    proof (cases "newline \<in> set (drop (length t - limit) t)")
      case True
      then show ?thesis using trim_at_line [of limit t] False assms(2)
        by (metis append_Nil2 last_snoc not_le_imp_less)
    next
      case n: False
      then show ?thesis using False assms(1)
        by (simp add: trim_transcript_def index_byte_None [THEN iffD2])
    qed
  qed
  obtain d where "t = d @ trim_transcript t limit" using trim_suffix by blast
  with * show ?thesis by (metis last_appendR)
qed

lemma append_transcript_length: "length (append_transcript t c out) \<le> max_transcript_bytes"
  by (simp add: append_transcript_def trim_length)

lemma append_notice_length: "length (append_notice t echo msg) \<le> max_transcript_bytes"
  by (simp add: append_notice_def trim_length)

lemma append_notice_prompt:
  "append_notice t echo msg \<noteq> [] \<and> last (append_notice t echo msg) = CHR ''>''"
proof -
  let ?t = "t @ echo @ [newline, CHR ''[''] @ msg @ [CHR '']'', newline, newline, CHR ''>'']"
  have "last ?t = CHR ''>''" by simp
  then show ?thesis
    unfolding append_notice_def using last_trim [of max_transcript_bytes ?t]
    by (simp add: max_transcript_bytes_def newline_def)
qed

lemma append_transcript_prompt:
  "out \<noteq> [] \<Longrightarrow> last out = CHR ''>'' \<Longrightarrow>
    append_transcript t c out \<noteq> [] \<and> last (append_transcript t c out) = CHR ''>''"
  unfolding append_transcript_def
  using last_trim [of max_transcript_bytes "t @ c @ [newline] @ out"]
  by (simp add: max_transcript_bytes_def newline_def)

text \<open>A transcript that fits is kept whole.\<close>

lemma append_transcript_fits:
  "length t + length c + 1 + length out \<le> max_transcript_bytes \<Longrightarrow>
    append_transcript t c out = t @ c @ [newline] @ out"
  by (simp add: append_transcript_def trim_transcript_def)

end
