(* ===== verification/Game_Save_Names.thy ===== *)
theory Game_Save_Names
  imports Game_Transcript
begin

text \<open>
  Save names (saves.go): how a name is cleaned before it is stored, when two names are the
  same save, how a name is looked up among a game's saves, and the sentences the transcript
  records about a save.
\<close>

definition max_save_name_bytes :: nat where "max_save_name_bytes = 48"
definition max_saves_per_game :: nat where "max_saves_per_game = 20"

definition clean_save_name :: "string \<Rightarrow> string result" where
  "clean_save_name name0 =
     (if \<not> valid_utf8 name0
      then Inl (Wrap ''game: name is not valid UTF-8'' (Sentinel ErrInvalidSaveName))
      else let name = join '' '' (str_fields name0) in
        if name = [] then Inl (Wrap ''game: name is empty'' (Sentinel ErrInvalidSaveName))
        else if max_save_name_bytes < length name
        then Inl (Wrap (''game: name is '' @ nat_digits (length name) @ '' bytes, limit is ''
               @ nat_digits max_save_name_bytes) (Sentinel ErrInvalidSaveName))
        else if list_ex (\<lambda>p. is_control (fst p)) (runes name)
        then Inl (Wrap ''game: name holds a control character'' (Sentinel ErrInvalidSaveName))
        else Inr name)"

definition same_save_name :: "unicode \<Rightarrow> string \<Rightarrow> string \<Rightarrow> bool" where
  "same_save_name u a b = equal_fold u a b"

fun find_save :: "unicode \<Rightarrow> save list \<Rightarrow> string \<Rightarrow> save option" where
  "find_save u [] name = None"
| "find_save u (s # ss) name = (if same_save_name u (sv_name s) name then Some s else find_save u ss name)"

definition saved_notice :: "unicode \<Rightarrow> string \<Rightarrow> bool \<Rightarrow> string" where
  "saved_notice u name replaced =
     (if replaced then ''Saved as '' @ quote u name @ '', replacing the earlier one.''
      else ''Saved as '' @ quote u name @ ''.'')"

definition restored_notice :: "unicode \<Rightarrow> string \<Rightarrow> string" where
  "restored_notice u name = ''Restored '' @ quote u name @ ''.''"

text \<open>What a cleaned name is: the shape every stored name has.\<close>

definition clean_name :: "string \<Rightarrow> bool" where
  "clean_name n \<longleftrightarrow> n \<noteq> [] \<and> length n \<le> max_save_name_bytes \<and> valid_utf8 n
     \<and> list_all (\<lambda>p. \<not> is_control (fst p)) (runes n) \<and> join '' '' (str_fields n) = n"

lemma clean_save_name_Inr [result_iff]:
  "clean_save_name s = Inr n \<longleftrightarrow> valid_utf8 s \<and> n = join '' '' (str_fields s) \<and> clean_name n"
proof (cases "valid_utf8 s")
  case True
  then show ?thesis using join_fields_idem [OF True] valid_utf8_join_fields [OF True]
    by (auto simp add: clean_save_name_def clean_name_def Let_def list_ex_iff list_all_iff)
qed (simp add: clean_save_name_def)

lemma clean_save_name_shape: "clean_save_name s = Inr n \<Longrightarrow> clean_name n"
  unfolding clean_save_name_Inr by blast

lemma clean_save_name_fixed: "clean_name n \<Longrightarrow> clean_save_name n = Inr n"
  unfolding clean_save_name_Inr by (simp add: clean_name_def)

lemma clean_save_name_Inl: "clean_save_name s = Inl e \<Longrightarrow> errors_is e ErrInvalidSaveName"
  by (auto simp: clean_save_name_def Let_def split: if_splits)

lemma same_save_name_refl [simp]: "same_save_name u a a"
  by (simp add: same_save_name_def)

lemma same_save_name_sym: "same_save_name u a b \<longleftrightarrow> same_save_name u b a"
  by (simp add: same_save_name_def equal_fold_sym)

lemma same_save_name_trans: "same_save_name u a b \<Longrightarrow> same_save_name u b c \<Longrightarrow> same_save_name u a c"
  unfolding same_save_name_def by (rule equal_fold_trans)

lemma same_save_name_common: "same_save_name u a n \<Longrightarrow> same_save_name u b n \<Longrightarrow> same_save_name u a b"
  by (simp add: same_save_name_def equal_fold_def)

lemma find_save_Some: "find_save u ss name = Some s \<Longrightarrow> s \<in> set ss \<and> same_save_name u (sv_name s) name"
  by (induction ss) (auto split: if_splits)

lemma find_save_None: "find_save u ss name = None \<longleftrightarrow> (\<forall>s \<in> set ss. \<not> same_save_name u (sv_name s) name)"
  by (induction ss) auto

text \<open>The first save whose name folds to the one asked for is the one that is found.\<close>

lemma find_save_first:
  assumes "same_save_name u (sv_name s) name" "\<forall>x \<in> set xs. \<not> same_save_name u (sv_name x) name"
  shows "find_save u (xs @ s # ys) name = Some s"
  using assms by (induction xs) auto

end
