(* ===== verification/Game_Store.thy ===== *)
theory Game_Store
  imports Game_Save_Names
begin

text \<open>
  The interface package game holds its sessions behind (\<open>Store\<close> in session.go).

  A Go interface value is a table of methods: the record \<open>store_ops\<close>, polymorphic in the
  store's own state. What an implementation promises is the locale \<open>game_store\<close>, whose laws
  speak of two views of a state: \<open>sess st i\<close>, the session stored under identifier \<open>i\<close>, and
  \<open>shelf st i k\<close>, the save \<open>k\<close> of game \<open>i\<close>. The service's lemmas are proved once, from
  these laws; the memory store and the database both discharge them.
\<close>

record 'st store_ops =
  st_create :: "env \<Rightarrow> session \<Rightarrow> 'st \<Rightarrow> session result \<times> 'st"
  st_load :: "env \<Rightarrow> string \<Rightarrow> string \<Rightarrow> 'st \<Rightarrow> session result"
  st_update :: "env \<Rightarrow> session \<Rightarrow> 'st \<Rightarrow> session result \<times> 'st"
  st_list :: "env \<Rightarrow> string \<Rightarrow> 'st \<Rightarrow> summary list result"
  st_delete :: "env \<Rightarrow> string \<Rightarrow> string \<Rightarrow> 'st \<Rightarrow> unit result \<times> 'st"
  st_create_save :: "env \<Rightarrow> snapshot \<Rightarrow> 'st \<Rightarrow> (save \<times> bool) result \<times> 'st"
  st_saves :: "env \<Rightarrow> string \<Rightarrow> string \<Rightarrow> 'st \<Rightarrow> save list result"
  st_load_save :: "env \<Rightarrow> string \<Rightarrow> string \<Rightarrow> string \<Rightarrow> 'st \<Rightarrow> snapshot result"
  st_delete_save :: "env \<Rightarrow> string \<Rightarrow> string \<Rightarrow> string \<Rightarrow> 'st \<Rightarrow> save result \<times> 'st"

text \<open>The listing view of a save, and of a game.\<close>

definition summarize :: "snapshot \<Rightarrow> save" where
  "summarize n = \<lparr>sv_id = n_id n, sv_name = n_name n, sv_turn = n_turn n, sv_created = n_created n\<rparr>"

lemma summarize_simps [simp]:
  "sv_id (summarize n) = n_id n" "sv_name (summarize n) = n_name n"
  "sv_turn (summarize n) = n_turn n" "sv_created (summarize n) = n_created n"
  by (simp_all add: summarize_def)

text \<open>A snapshot as it is stored: the identifier and the time are the store's.\<close>

definition stored_as :: "string \<Rightarrow> time \<Rightarrow> snapshot \<Rightarrow> snapshot" where
  "stored_as k t n = n\<lparr>n_created := t, n_id := k\<rparr>"

lemma stored_as_simps [simp]:
  "n_id (stored_as k t n) = k" "n_created (stored_as k t n) = t" "n_user (stored_as k t n) = n_user n"
  "n_game (stored_as k t n) = n_game n" "n_name (stored_as k t n) = n_name n"
  "n_key (stored_as k t n) = n_key n" "n_state (stored_as k t n) = n_state n"
  "n_transcript (stored_as k t n) = n_transcript n" "n_status (stored_as k t n) = n_status n"
  "n_turn (stored_as k t n) = n_turn n"
  by (simp_all add: stored_as_def)

text \<open>
  A session a store takes: nil state only once the story has halted, and no empty state,
  which is what the schema's CHECK and \<open>bindState\<close> agree on.
\<close>

definition storable :: "session \<Rightarrow> bool" where
  "storable s \<longleftrightarrow> (case s_state s of None \<Rightarrow> s_halted s | Some b \<Rightarrow> b \<noteq> [])"

lemma storable_simps [simp]:
  "storable (s\<lparr>s_id := i\<rparr>) = storable s" "storable (s\<lparr>s_version := v\<rparr>) = storable s"
  by (simp_all add: storable_def split: option.splits)

definition owned :: "(string \<Rightarrow> session option) \<Rightarrow> string \<Rightarrow> string \<Rightarrow> bool" where
  "owned v u i \<longleftrightarrow> (\<exists>s. v i = Some s \<and> s_user s = u)"

locale game_store =
  fixes ops :: "'st store_ops"
    and up :: "env \<Rightarrow> bool"
    and room :: "'st \<Rightarrow> bool"
    and known :: "'st \<Rightarrow> string \<Rightarrow> bool"
    and wf_id :: "string \<Rightarrow> bool"
    and same :: "string \<Rightarrow> string \<Rightarrow> bool"
    and inv :: "'st \<Rightarrow> bool"
    and sess :: "'st \<Rightarrow> string \<Rightarrow> session option"
    and shelf :: "'st \<Rightarrow> string \<Rightarrow> string \<Rightarrow> snapshot option"
  assumes sess_wf: "inv st \<Longrightarrow> sess st i = Some s \<Longrightarrow> s_id s = i \<and> known st (s_user s) \<and> storable s \<and> wf_id i"
    and shelf_wf: "inv st \<Longrightarrow> shelf st i k = Some n \<Longrightarrow>
          n_id n = k \<and> n_game n = i \<and> (\<exists>s. sess st i = Some s \<and> n_user n = s_user s) \<and> \<not> no_bytes (n_state n)"
    and shelf_names: "inv st \<Longrightarrow> shelf st i k = Some n \<Longrightarrow> shelf st i l = Some m \<Longrightarrow>
          same (n_name n) (n_name m) \<Longrightarrow> k = l"
    and shelf_bound: "inv st \<Longrightarrow> finite (dom (shelf st i)) \<and> card (dom (shelf st i)) \<le> max_saves_per_game"
    and load_sound: "inv st \<Longrightarrow> known st u \<Longrightarrow> st_load ops e u i st = Inr s \<Longrightarrow>
          sess st (s_id s) = Some s \<and> s_user s = u"
    and load_complete: "inv st \<Longrightarrow> up e \<Longrightarrow> sess st i = Some s \<Longrightarrow> s_user s = u \<Longrightarrow>
          st_load ops e u i st = Inr s"
    and load_missing: "inv st \<Longrightarrow> up e \<Longrightarrow> wf_id i \<Longrightarrow> known st u \<Longrightarrow> \<not> owned (sess st) u i \<Longrightarrow>
          \<exists>err. st_load ops e u i st = Inl err \<and> errors_is err ErrSessionNotFound"
    and create_ok: "inv st \<Longrightarrow> up e \<Longrightarrow> room st \<Longrightarrow> known st (s_user s) \<Longrightarrow> storable s \<Longrightarrow>
          \<exists>i st'. st_create ops e s st = (Inr (s\<lparr>s_id := i, s_version := 1\<rparr>), st') \<and> sess st i = None
            \<and> sess st' = (sess st)(i \<mapsto> s\<lparr>s_id := i, s_version := 1\<rparr>) \<and> shelf st' = shelf st"
    and create_inv: "inv st \<Longrightarrow> known st (s_user s) \<Longrightarrow> storable s \<Longrightarrow> inv (snd (st_create ops e s st))"
    and create_known: "known (snd (st_create ops e s st)) = known st"
    and create_effect: "inv st \<Longrightarrow> known st (s_user s) \<Longrightarrow> storable s \<Longrightarrow> st_create ops e s st = (Inr s', st') \<Longrightarrow>
          \<exists>i. s' = s\<lparr>s_id := i, s_version := 1\<rparr> \<and> sess st i = None
            \<and> sess st' = (sess st)(i \<mapsto> s') \<and> shelf st' = shelf st"
    and create_fail: "st_create ops e s st = (Inl err, st') \<Longrightarrow> st' = st"
    and update_ok: "inv st \<Longrightarrow> up e \<Longrightarrow> sess st (s_id s) = Some c \<Longrightarrow> s_user c = s_user s \<Longrightarrow>
          s_key c = s_key s \<Longrightarrow> s_version c = s_version s \<Longrightarrow> storable s \<Longrightarrow>
          \<exists>st'. st_update ops e s st = (Inr (s\<lparr>s_version := s_version s + 1\<rparr>), st')
            \<and> sess st' = (sess st)(s_id s \<mapsto> s\<lparr>s_version := s_version s + 1\<rparr>) \<and> shelf st' = shelf st"
    and update_conflict: "inv st \<Longrightarrow> up e \<Longrightarrow> sess st (s_id s) = Some c \<Longrightarrow> s_user c = s_user s \<Longrightarrow>
          s_version c \<noteq> s_version s \<Longrightarrow> \<exists>err. st_update ops e s st = (Inl err, st) \<and> errors_is err ErrVersionConflict"
    and update_fail: "st_update ops e s st = (Inl err, st') \<Longrightarrow> st' = st"
    and update_effect: "inv st \<Longrightarrow> sess st (s_id s) = Some c \<Longrightarrow> s_user c = s_user s \<Longrightarrow>
          s_key c = s_key s \<Longrightarrow> storable s \<Longrightarrow> st_update ops e s st = (Inr s', st') \<Longrightarrow>
          s' = s\<lparr>s_version := s_version s + 1\<rparr> \<and> s_version c = s_version s
            \<and> sess st' = (sess st)(s_id s \<mapsto> s') \<and> shelf st' = shelf st"
    and update_inv: "inv st \<Longrightarrow> sess st (s_id s) = Some c \<Longrightarrow> s_key c = s_key s \<Longrightarrow> storable s \<Longrightarrow>
          s_user c = s_user s \<Longrightarrow> inv (snd (st_update ops e s st))"
    and update_known: "known (snd (st_update ops e s st)) = known st"
    and delete_ok: "inv st \<Longrightarrow> up e \<Longrightarrow> sess st i = Some s \<Longrightarrow> s_user s = u \<Longrightarrow>
          \<exists>st'. st_delete ops e u i st = (Inr (), st') \<and> sess st' = (sess st)(i := None)
            \<and> shelf st' = (shelf st)(i := Map.empty)"
    and delete_fail: "st_delete ops e u i st = (Inl err, st') \<Longrightarrow> st' = st"
    and delete_frame: "inv st \<Longrightarrow> known st u \<Longrightarrow> snd (st_delete ops e u i st) = st' \<Longrightarrow> \<not> owned (sess st) u j \<Longrightarrow>
          sess st' j = sess st j \<and> shelf st' j = shelf st j"
    and delete_shrinks: "inv st \<Longrightarrow> sess (snd (st_delete ops e u i st)) j = Some s \<Longrightarrow> sess st j = Some s"
    and delete_inv: "inv st \<Longrightarrow> inv (snd (st_delete ops e u i st))"
    and delete_known: "known (snd (st_delete ops e u i st)) = known st"
    and create_save_replace: "inv st \<Longrightarrow> up e \<Longrightarrow> owned (sess st) (n_user n) (n_game n) \<Longrightarrow>
          \<not> no_bytes (n_state n) \<Longrightarrow> clean_name (n_name n) \<Longrightarrow>
          shelf st (n_game n) k = Some m \<Longrightarrow> same (n_name m) (n_name n) \<Longrightarrow>
          \<exists>st'. st_create_save ops e n st =
              (Inr (summarize (stored_as k (now e) n), True), st')
            \<and> sess st' = sess st
            \<and> shelf st' = (shelf st)(n_game n := (shelf st (n_game n))(k \<mapsto> stored_as k (now e) n))"
    and create_save_new: "inv st \<Longrightarrow> up e \<Longrightarrow> room st \<Longrightarrow> owned (sess st) (n_user n) (n_game n) \<Longrightarrow>
          \<not> no_bytes (n_state n) \<Longrightarrow> clean_name (n_name n) \<Longrightarrow>
          (\<And>k m. shelf st (n_game n) k = Some m \<Longrightarrow> \<not> same (n_name m) (n_name n)) \<Longrightarrow>
          card (dom (shelf st (n_game n))) < max_saves_per_game \<Longrightarrow>
          \<exists>k st'. st_create_save ops e n st =
              (Inr (summarize (stored_as k (now e) n), False), st')
            \<and> sess st' = sess st \<and> shelf st (n_game n) k = None
            \<and> shelf st' = (shelf st)(n_game n := (shelf st (n_game n))(k \<mapsto> stored_as k (now e) n))"
    and create_save_full: "inv st \<Longrightarrow> up e \<Longrightarrow> owned (sess st) (n_user n) (n_game n) \<Longrightarrow>
          \<not> no_bytes (n_state n) \<Longrightarrow> clean_name (n_name n) \<Longrightarrow>
          (\<And>k m. shelf st (n_game n) k = Some m \<Longrightarrow> \<not> same (n_name m) (n_name n)) \<Longrightarrow>
          card (dom (shelf st (n_game n))) = max_saves_per_game \<Longrightarrow>
          \<exists>err. st_create_save ops e n st = (Inl err, st) \<and> errors_is err ErrTooManySaves"
    and create_save_fail: "st_create_save ops e n st = (Inl err, st') \<Longrightarrow> st' = st"
    and create_save_frame: "inv st \<Longrightarrow> known st (n_user n) \<Longrightarrow> clean_name (n_name n) \<Longrightarrow> snd (st_create_save ops e n st) = st' \<Longrightarrow>
          sess st' = sess st \<and> (\<forall>j. \<not> owned (sess st) (n_user n) j \<longrightarrow> shelf st' j = shelf st j)"
    and create_save_inv: "inv st \<Longrightarrow> known st (n_user n) \<Longrightarrow> \<not> no_bytes (n_state n) \<Longrightarrow> clean_name (n_name n) \<Longrightarrow>
          inv (snd (st_create_save ops e n st))"
    and create_save_known: "known (snd (st_create_save ops e n st)) = known st"
    and saves_ok: "inv st \<Longrightarrow> up e \<Longrightarrow> owned (sess st) u i \<Longrightarrow>
          \<exists>l. st_saves ops e u i st = Inr l \<and> set l = summarize ` ran (shelf st i)
            \<and> distinct (map sv_id l) \<and> sorted_wrt (\<lambda>a b. sv_created b \<le> sv_created a) l"
    and load_save_complete: "inv st \<Longrightarrow> up e \<Longrightarrow> owned (sess st) u i \<Longrightarrow> shelf st i k = Some n \<Longrightarrow>
          st_load_save ops e u i k st = Inr n"
    and load_save_sound: "inv st \<Longrightarrow> known st u \<Longrightarrow> st_load_save ops e u i k st = Inr n \<Longrightarrow>
          \<exists>j n'. owned (sess st) u j \<and> shelf st j (n_id n) = Some n' \<and>
            n = n'\<lparr>n_game := n_game n, n_user := n_user n\<rparr>"
    and delete_save_ok: "inv st \<Longrightarrow> up e \<Longrightarrow> owned (sess st) u i \<Longrightarrow> shelf st i k = Some n \<Longrightarrow>
          \<exists>st'. st_delete_save ops e u i k st = (Inr (summarize n), st') \<and> sess st' = sess st
            \<and> shelf st' = (shelf st)(i := (shelf st i)(k := None))"
    and delete_save_fail: "st_delete_save ops e u i k st = (Inl err, st') \<Longrightarrow> st' = st"
    and delete_save_frame: "inv st \<Longrightarrow> known st u \<Longrightarrow> snd (st_delete_save ops e u i k st) = st' \<Longrightarrow>
          sess st' = sess st \<and> (\<forall>j. \<not> owned (sess st) u j \<longrightarrow> shelf st' j = shelf st j)"
    and delete_save_inv: "inv st \<Longrightarrow> inv (snd (st_delete_save ops e u i k st))"
    and delete_save_known: "known (snd (st_delete_save ops e u i k st)) = known st"
    and load_same: "inv st \<Longrightarrow> wf_id i \<Longrightarrow> st_load ops e u i st = Inr s \<Longrightarrow> s_id s = i"
    and delete_only: "inv st \<Longrightarrow> wf_id i \<Longrightarrow> j \<noteq> i \<Longrightarrow> sess (snd (st_delete ops e u i st)) j = sess st j"
    and saves_missing: "inv st \<Longrightarrow> up e \<Longrightarrow> wf_id i \<Longrightarrow> known st u \<Longrightarrow> \<not> owned (sess st) u i \<Longrightarrow>
          \<exists>err. st_saves ops e u i st = Inl err \<and> errors_is err ErrSessionNotFound"
    and delete_missing: "inv st \<Longrightarrow> up e \<Longrightarrow> wf_id i \<Longrightarrow> known st u \<Longrightarrow> \<not> owned (sess st) u i \<Longrightarrow>
          \<exists>err. st_delete ops e u i st = (Inl err, st) \<and> errors_is err ErrSessionNotFound"
    and delete_save_missing: "inv st \<Longrightarrow> up e \<Longrightarrow> wf_id i \<Longrightarrow> wf_id k \<Longrightarrow> known st u \<Longrightarrow> \<not> owned (sess st) u i \<Longrightarrow>
          \<exists>err. st_delete_save ops e u i k st = (Inl err, st) \<and> errors_is err ErrSessionNotFound"

end
