(* ===== verification/Game_Memstore.thy ===== *)
theory Game_Memstore
  imports Game_Store "HOL-Library.Multiset"
begin

text \<open>
  The store that keeps sessions in memory (memstore.go). Each of its methods holds the
  store's one mutex from its first line to its last, so a method is one step on the state.
  Slices are values here, which is what \<open>clone\<close> and \<open>cloneSnapshot\<close> make them in the code.
\<close>

record memstore =
  m_sessions :: "(string \<times> session) list"
  m_updated :: "(string \<times> time) list"
  m_saves :: "(string \<times> snapshot) list"
  m_next_id :: int
  m_next_save :: int

definition new_memory_store :: memstore where
  "new_memory_store = \<lparr>m_sessions = [], m_updated = [], m_saves = [], m_next_id = 0, m_next_save = 0\<rparr>"

section \<open>Operations\<close>

definition clone :: "session \<Rightarrow> session" where
  "clone s = s\<lparr>s_state := map_option (\<lambda>b. take (length b) b) (s_state s)\<rparr>"

definition clone_snapshot :: "snapshot \<Rightarrow> snapshot" where
  "clone_snapshot n = n\<lparr>n_state := map_option (\<lambda>b. take (length b) b) (n_state n)\<rparr>"

lemma clone_id [simp]: "clone s = s" "clone_snapshot n = n"
  by (simp_all add: clone_def clone_snapshot_def option.map_ident)

definition mem_create :: "env \<Rightarrow> session \<Rightarrow> memstore \<Rightarrow> session result \<times> memstore" where
  "mem_create e s m =
     (if s_user s = [] then (Inl (Opaque ''create: no user''), m)
      else
        let nxt = m_next_id m + 1;
            s' = s\<lparr>s_id := format_int nxt, s_version := 1\<rparr>
        in (Inr s', m\<lparr>m_next_id := nxt,
              m_sessions := AList.update (s_id s') (clone s') (m_sessions m),
              m_updated := AList.update (s_id s') (now e) (m_updated m)\<rparr>))"

definition mem_load :: "env \<Rightarrow> string \<Rightarrow> string \<Rightarrow> memstore \<Rightarrow> session result" where
  "mem_load e user i m =
     (case map_of (m_sessions m) i of
        None \<Rightarrow> Inl (Wrap i (Sentinel ErrSessionNotFound))
      | Some s \<Rightarrow> if s_user s \<noteq> user then Inl (Wrap i (Sentinel ErrSessionNotFound)) else Inr (clone s))"

definition mem_update :: "env \<Rightarrow> session \<Rightarrow> memstore \<Rightarrow> session result \<times> memstore" where
  "mem_update e s m =
     (case map_of (m_sessions m) (s_id s) of
        None \<Rightarrow> (Inl (Wrap (s_id s) (Sentinel ErrSessionNotFound)), m)
      | Some stored \<Rightarrow>
          if s_user stored \<noteq> s_user s then (Inl (Wrap (s_id s) (Sentinel ErrSessionNotFound)), m)
          else if s_version stored \<noteq> s_version s
          then (Inl (Wrap (s_id s @ '': stored version '' @ format_int (s_version stored)
                  @ '', wrote against '' @ format_int (s_version s)) (Sentinel ErrVersionConflict)), m)
          else let s' = s\<lparr>s_version := s_version s + 1\<rparr>
               in (Inr s', m\<lparr>m_sessions := AList.update (s_id s') (clone s') (m_sessions m),
                             m_updated := AList.update (s_id s') (now e) (m_updated m)\<rparr>))"

definition mem_summary :: "memstore \<Rightarrow> string \<times> session \<Rightarrow> summary" where
  "mem_summary m p = \<lparr>y_id = fst p, y_key = s_key (snd p), y_turn = s_turn (snd p),
     y_halted = s_halted (snd p),
     y_updated = (case map_of (m_updated m) (fst p) of Some t \<Rightarrow> t | None \<Rightarrow> 0)\<rparr>"

definition mem_list :: "env \<Rightarrow> string \<Rightarrow> memstore \<Rightarrow> summary list result" where
  "mem_list e user m =
     Inr (rev (sort_key (\<lambda>y. (y_updated y, y_id y))
       (map (mem_summary m) (filter (\<lambda>p. s_user (snd p) = user) (m_sessions m)))))"

definition mem_owns :: "memstore \<Rightarrow> string \<Rightarrow> string \<Rightarrow> unit result" where
  "mem_owns m user game =
     (case map_of (m_sessions m) game of
        None \<Rightarrow> Inl (Wrap game (Sentinel ErrSessionNotFound))
      | Some s \<Rightarrow> if s_user s \<noteq> user then Inl (Wrap game (Sentinel ErrSessionNotFound)) else Inr ())"

definition mem_delete :: "env \<Rightarrow> string \<Rightarrow> string \<Rightarrow> memstore \<Rightarrow> unit result \<times> memstore" where
  "mem_delete e user i m =
     (case map_of (m_sessions m) i of
        None \<Rightarrow> (Inl (Wrap i (Sentinel ErrSessionNotFound)), m)
      | Some s \<Rightarrow>
          if s_user s \<noteq> user then (Inl (Wrap i (Sentinel ErrSessionNotFound)), m)
          else (Inr (), m\<lparr>m_sessions := AList.delete i (m_sessions m),
                         m_updated := AList.delete i (m_updated m),
                         m_saves := filter (\<lambda>p. n_game (snd p) \<noteq> i) (m_saves m)\<rparr>))"

definition mem_create_save ::
  "unicode \<Rightarrow> env \<Rightarrow> snapshot \<Rightarrow> memstore \<Rightarrow> (save \<times> bool) result \<times> memstore" where
  "mem_create_save u e n0 m =
     (case mem_owns m (n_user n0) (n_game n0) of
        Inl err \<Rightarrow> (Inl err, m)
      | Inr _ \<Rightarrow>
          let n = n0\<lparr>n_created := now e\<rparr> in
          case List.find (\<lambda>p. n_game (snd p) = n_game n \<and> same_save_name u (n_name (snd p)) (n_name n))
                 (m_saves m) of
            Some p \<Rightarrow>
              let n' = n\<lparr>n_id := fst p\<rparr>
              in (Inr (summarize n', True), m\<lparr>m_saves := AList.update (fst p) (clone_snapshot n') (m_saves m)\<rparr>)
          | None \<Rightarrow>
              let held = length (filter (\<lambda>p. n_game (snd p) = n_game n) (m_saves m)) in
              if max_saves_per_game \<le> held
              then (Inl (Wrap (n_game n @ '': '' @ nat_digits held @ '' saves'') (Sentinel ErrTooManySaves)), m)
              else
                let nxt = m_next_save m + 1; n' = n\<lparr>n_id := format_int nxt\<rparr>
                in (Inr (summarize n', False),
                    m\<lparr>m_next_save := nxt, m_saves := AList.update (n_id n') (clone_snapshot n') (m_saves m)\<rparr>))"

definition mem_saves :: "env \<Rightarrow> string \<Rightarrow> string \<Rightarrow> memstore \<Rightarrow> save list result" where
  "mem_saves e user game m =
     bind_r (mem_owns m user game) (\<lambda>_.
       Inr (rev (sort_key (\<lambda>s. (sv_created s, sv_id s))
         (map (summarize \<circ> snd) (filter (\<lambda>p. n_game (snd p) = game) (m_saves m))))))"

definition mem_load_save :: "env \<Rightarrow> string \<Rightarrow> string \<Rightarrow> string \<Rightarrow> memstore \<Rightarrow> snapshot result" where
  "mem_load_save e user game sid m =
     bind_r (mem_owns m user game) (\<lambda>_.
       case map_of (m_saves m) sid of
         None \<Rightarrow> Inl (Wrap sid (Sentinel ErrSaveNotFound))
       | Some stored \<Rightarrow>
           if n_game stored \<noteq> game then Inl (Wrap sid (Sentinel ErrSaveNotFound))
           else Inr (clone_snapshot stored))"

definition mem_delete_save ::
  "env \<Rightarrow> string \<Rightarrow> string \<Rightarrow> string \<Rightarrow> memstore \<Rightarrow> save result \<times> memstore" where
  "mem_delete_save e user game sid m =
     (case mem_owns m user game of
        Inl err \<Rightarrow> (Inl err, m)
      | Inr _ \<Rightarrow>
          (case map_of (m_saves m) sid of
             None \<Rightarrow> (Inl (Wrap sid (Sentinel ErrSaveNotFound)), m)
           | Some stored \<Rightarrow>
               if n_game stored \<noteq> game then (Inl (Wrap sid (Sentinel ErrSaveNotFound)), m)
               else (Inr (summarize stored), m\<lparr>m_saves := AList.delete sid (m_saves m)\<rparr>)))"

definition mem_len :: "memstore \<Rightarrow> nat" where
  "mem_len m = length (m_sessions m)"

definition mem_ops :: "unicode \<Rightarrow> memstore store_ops" where
  "mem_ops u = \<lparr>st_create = mem_create, st_load = mem_load, st_update = mem_update,
     st_list = mem_list, st_delete = mem_delete, st_create_save = mem_create_save u,
     st_saves = mem_saves, st_load_save = mem_load_save, st_delete_save = mem_delete_save\<rparr>"

lemmas mem_ops_defs = mem_ops_def mem_create_def mem_load_def mem_update_def mem_list_def
  mem_delete_def mem_create_save_def mem_saves_def mem_load_save_def mem_delete_save_def mem_owns_def

section \<open>Views and invariant\<close>

definition mem_sess :: "memstore \<Rightarrow> string \<Rightarrow> session option" where
  "mem_sess m = map_of (m_sessions m)"

definition mem_shelf :: "memstore \<Rightarrow> string \<Rightarrow> string \<Rightarrow> snapshot option" where
  "mem_shelf m i k = (case map_of (m_saves m) k of
     Some n \<Rightarrow> if n_game n = i then Some n else None | None \<Rightarrow> None)"

text \<open>A session under its own identifier, one of the first \<open>last_id\<close> that were given out.\<close>

definition sess_row_ok :: "int \<Rightarrow> string \<Rightarrow> session \<Rightarrow> bool" where
  "sess_row_ok last_id i s \<longleftrightarrow> s_id s = i \<and> s_user s \<noteq> [] \<and> storable s
     \<and> (\<exists>k. 1 \<le> k \<and> k \<le> last_id \<and> i = format_int k)"

definition mem_sess_inv :: "memstore \<Rightarrow> bool" where
  "mem_sess_inv m \<longleftrightarrow> distinct (keys (m_sessions m)) \<and> 0 \<le> m_next_id m
     \<and> (\<forall>i s. map_of (m_sessions m) i = Some s \<longrightarrow> sess_row_ok (m_next_id m) i s)"

text \<open>A save under its own identifier, of a game that is there and has the save's owner.\<close>

definition save_row_ok :: "(string \<Rightarrow> session option) \<Rightarrow> int \<Rightarrow> string \<Rightarrow> snapshot \<Rightarrow> bool" where
  "save_row_ok sess last_id k n \<longleftrightarrow> n_id n = k \<and> \<not> no_bytes (n_state n)
     \<and> (\<exists>s. sess (n_game n) = Some s \<and> n_user n = s_user s)
     \<and> (\<exists>j. 1 \<le> j \<and> j \<le> last_id \<and> k = format_int j)"

definition mem_save_inv :: "unicode \<Rightarrow> memstore \<Rightarrow> bool" where
  "mem_save_inv u m \<longleftrightarrow> distinct (keys (m_saves m)) \<and> 0 \<le> m_next_save m
     \<and> (\<forall>k n. map_of (m_saves m) k = Some n \<longrightarrow> save_row_ok (map_of (m_sessions m)) (m_next_save m) k n)
     \<and> (\<forall>k l n n'. map_of (m_saves m) k = Some n \<longrightarrow> map_of (m_saves m) l = Some n' \<longrightarrow>
          n_game n = n_game n' \<longrightarrow> same_save_name u (n_name n) (n_name n') \<longrightarrow> k = l)
     \<and> (\<forall>i. card (dom (mem_shelf m i)) \<le> max_saves_per_game)"

definition mem_inv :: "unicode \<Rightarrow> memstore \<Rightarrow> bool" where
  "mem_inv u m \<longleftrightarrow> mem_sess_inv m \<and> mem_save_inv u m"

lemma mem_inv_new: "mem_inv u new_memory_store"
  by (simp add: mem_inv_def mem_sess_inv_def mem_save_inv_def new_memory_store_def mem_shelf_def
      dom_def)

lemma mem_shelf_Some: "mem_shelf m i k = Some n \<longleftrightarrow> map_of (m_saves m) k = Some n \<and> n_game n = i"
  by (auto simp: mem_shelf_def split: option.splits)

lemma mem_shelf_one: "mem_shelf m i k = Some n \<Longrightarrow> j \<noteq> i \<Longrightarrow> mem_shelf m j k = None"
  by (auto simp: mem_shelf_def split: option.splits if_splits)

lemma mem_held:
  assumes "distinct (keys (m_saves m))"
  shows "length (filter (\<lambda>p. n_game (snd p) = i) (m_saves m)) = card (dom (mem_shelf m i))"
proof -
  let ?l = "filter (\<lambda>p. n_game (snd p) = i) (m_saves m)"
  have "dom (mem_shelf m i) = set (keys ?l)"
    using assms by (auto simp: mem_shelf_Some dom_def mem_map_of [symmetric] image_iff)
  moreover have "distinct (keys ?l)" using assms by (rule distinct_keys_filter)
  ultimately show ?thesis by (metis distinct_card length_map)
qed

lemma mem_shelf_finite [simp]: "finite (dom (mem_shelf m i))"
  by (rule finite_subset [OF _ finite_dom_map_of [of "m_saves m"]])
    (auto simp: mem_shelf_Some dom_def)

section \<open>What the operations keep\<close>

lemmas map_of_update = AList.update_conv'
lemmas map_of_delete = AList.delete_conv'

lemma mem_sess_invD:
  assumes "mem_sess_inv m" "map_of (m_sessions m) i = Some s"
  shows "s_id s = i" "s_user s \<noteq> []" "storable s" "\<exists>k. 1 \<le> k \<and> k \<le> m_next_id m \<and> i = format_int k"
  using assms by (auto simp: mem_sess_inv_def sess_row_ok_def)

lemma sess_row_ok_mono: "sess_row_ok t i s \<Longrightarrow> t \<le> t' \<Longrightarrow> sess_row_ok t' i s"
  unfolding sess_row_ok_def by (meson order_trans)

lemma mem_sess_inv_put:
  assumes "mem_sess_inv m" "sess_row_ok last_id k s" "m_next_id m \<le> last_id"
    "m_sessions m' = AList.update k s (m_sessions m)" "m_next_id m' = last_id"
  shows "mem_sess_inv m'"
  using assms sess_row_ok_mono [OF _ assms(3)]
  by (auto simp: mem_sess_inv_def map_of_update distinct_update split: if_splits)

lemma mem_save_invD:
  assumes "mem_save_inv u m" "map_of (m_saves m) k = Some n"
  shows "n_id n = k" "\<not> no_bytes (n_state n)"
    "\<exists>s. map_of (m_sessions m) (n_game n) = Some s \<and> n_user n = s_user s"
    "\<exists>j. 1 \<le> j \<and> j \<le> m_next_save m \<and> k = format_int j"
  using assms unfolding mem_save_inv_def save_row_ok_def by blast+

lemma mem_fresh_session:
  assumes "mem_sess_inv m"
  shows "map_of (m_sessions m) (format_int (m_next_id m + 1)) = None"
proof (rule ccontr)
  assume "\<not> ?thesis"
  then obtain k where "1 \<le> k" "k \<le> m_next_id m" "format_int (m_next_id m + 1) = format_int k"
    using mem_sess_invD(4) [OF assms] by blast
  then show False by (simp add: format_int_inj)
qed

lemma mem_fresh_save:
  assumes "mem_save_inv u m"
  shows "map_of (m_saves m) (format_int (m_next_save m + 1)) = None"
proof (rule ccontr)
  assume "\<not> ?thesis"
  then obtain k where "1 \<le> k" "k \<le> m_next_save m" "format_int (m_next_save m + 1) = format_int k"
    using mem_save_invD(4) [OF assms] by blast
  then show False by (simp add: format_int_inj)
qed

lemma mem_shelf_sessions [simp]:
  "mem_shelf (m\<lparr>m_sessions := x\<rparr>) = mem_shelf m" "mem_shelf (m\<lparr>m_updated := y\<rparr>) = mem_shelf m"
  "mem_shelf (m\<lparr>m_next_id := k\<rparr>) = mem_shelf m" "mem_shelf (m\<lparr>m_next_save := k\<rparr>) = mem_shelf m"
  by (simp_all add: mem_shelf_def fun_eq_iff)

text \<open>A save that is written reaches the shelf of its own game only.\<close>

lemma mem_shelf_put:
  assumes "map_of (m_saves m) k = None \<or> mem_shelf m (n_game n) k \<noteq> None"
  shows "mem_shelf (m\<lparr>m_saves := AList.update k n (m_saves m)\<rparr>)
    = (mem_shelf m)(n_game n := (mem_shelf m (n_game n))(k \<mapsto> n))"
  using assms by (auto simp: mem_shelf_def map_of_update fun_eq_iff split: option.splits if_splits)

text \<open>A write of sessions that loses none of them and changes no owner keeps the saves' part.\<close>

lemma mem_save_inv_sessions:
  assumes "mem_save_inv u m" "m_saves m' = m_saves m" "m_next_save m' = m_next_save m"
    "\<And>i s. map_of (m_sessions m) i = Some s \<Longrightarrow> \<exists>s'. map_of (m_sessions m') i = Some s' \<and> s_user s' = s_user s"
  shows "mem_save_inv u m'"
proof -
  from assms(2) have "mem_shelf m' = mem_shelf m" by (simp add: mem_shelf_def fun_eq_iff)
  moreover have "save_row_ok (map_of (m_sessions m')) t k n" if "save_row_ok (map_of (m_sessions m)) t k n" for t k n
    using that assms(4) [of "n_game n"] by (fastforce simp: save_row_ok_def)
  ultimately show ?thesis using assms(1-3) by (simp add: mem_save_inv_def)
qed

lemma mem_create_inv:
  assumes "mem_inv u m" "s_user s \<noteq> []" "storable s"
  shows "mem_inv u (snd (mem_create e s m))"
proof -
  from assms(1) have i: "mem_sess_inv m" and v: "mem_save_inv u m" by (auto simp: mem_inv_def)
  let ?m = "snd (mem_create e s m)" let ?i = "format_int (m_next_id m + 1)"
  have eq: "map_of (m_sessions ?m) = (map_of (m_sessions m))(?i \<mapsto> s\<lparr>s_id := ?i, s_version := 1\<rparr>)"
    "m_next_id ?m = m_next_id m + 1" "m_saves ?m = m_saves m" "m_next_save ?m = m_next_save m"
    using assms(2) by (simp_all add: mem_create_def Let_def map_of_update)
  have "sess_row_ok (m_next_id m + 1) ?i (s\<lparr>s_id := ?i, s_version := 1\<rparr>)"
    using i assms(2,3) by (auto simp: sess_row_ok_def mem_sess_inv_def intro!: exI [of _ "m_next_id m + 1"])
  then have "mem_sess_inv ?m"
    by (rule mem_sess_inv_put [OF i]) (use assms(2) in \<open>simp_all add: mem_create_def Let_def\<close>)
  moreover have "mem_save_inv u ?m"
    by (rule mem_save_inv_sessions [OF v]) (use mem_fresh_session [OF i] in \<open>auto simp: eq\<close>)
  ultimately show ?thesis by (simp add: mem_inv_def)
qed

lemma mem_update_inv:
  assumes "mem_inv u m" "mem_sess m (s_id s) = Some c" "s_user c = s_user s" "storable s"
  shows "mem_inv u (snd (mem_update e s m))"
proof (cases "s_version c = s_version s")
  case True
  from assms(1) have i: "mem_sess_inv m" and v: "mem_save_inv u m" by (auto simp: mem_inv_def)
  let ?m = "snd (mem_update e s m)" let ?s = "s\<lparr>s_version := s_version s + 1\<rparr>"
  have c: "map_of (m_sessions m) (s_id s) = Some c" using assms(2) by (simp add: mem_sess_def)
  have eq: "map_of (m_sessions ?m) = (map_of (m_sessions m))(s_id s \<mapsto> ?s)"
    "m_next_id ?m = m_next_id m" "m_saves ?m = m_saves m" "m_next_save ?m = m_next_save m"
    using c assms(3) True by (simp_all add: mem_update_def Let_def map_of_update)
  have "sess_row_ok (m_next_id m) (s_id s) ?s"
    using mem_sess_invD [OF i c] assms(3,4) by (simp add: sess_row_ok_def)
  then have "mem_sess_inv ?m"
    by (rule mem_sess_inv_put [OF i])
      (use c assms(3) True in \<open>simp_all add: mem_update_def Let_def\<close>)
  moreover have "mem_save_inv u ?m"
    by (rule mem_save_inv_sessions [OF v]) (use c assms(3) in \<open>auto simp: eq\<close>)
  ultimately show ?thesis by (simp add: mem_inv_def)
qed (use assms in \<open>simp add: mem_update_def mem_sess_def\<close>)

lemma mem_shelf_filter:
  assumes "distinct (keys (m_saves m))"
  shows "mem_shelf (m\<lparr>m_saves := filter (\<lambda>p. n_game (snd p) \<noteq> i) (m_saves m)\<rparr>)
    = (mem_shelf m)(i := Map.empty)"
  using assms by (auto simp: mem_shelf_def map_of_filter_other fun_eq_iff split: option.splits)

lemma save_row_ok_delete: "save_row_ok v t k n \<Longrightarrow> n_game n \<noteq> i \<Longrightarrow> save_row_ok (v(i := None)) t k n"
  by (simp add: save_row_ok_def)

lemma mem_delete_inv:
  assumes "mem_inv u m"
  shows "mem_inv u (snd (mem_delete e user i m))"
proof (cases "snd (mem_delete e user i m) = m")
  case False
  from assms have s: "mem_sess_inv m" and v: "mem_save_inv u m" by (auto simp: mem_inv_def)
  from v have d: "distinct (keys (m_saves m))" by (simp add: mem_save_inv_def)
  let ?m = "m\<lparr>m_sessions := AList.delete i (m_sessions m), m_updated := AList.delete i (m_updated m),
      m_saves := filter (\<lambda>p. n_game (snd p) \<noteq> i) (m_saves m)\<rparr>"
  from False have eq: "snd (mem_delete e user i m) = ?m"
    by (auto simp: mem_delete_def split: option.splits if_splits)
  have "mem_sess_inv ?m"
    using s by (auto simp: mem_sess_inv_def map_of_delete distinct_delete split: if_splits)
  moreover have "card (dom (mem_shelf ?m j)) \<le> max_saves_per_game" for j
  proof -
    have "mem_shelf ?m = (mem_shelf m)(i := Map.empty)"
      using mem_shelf_filter [OF d, of i] by (simp add: mem_shelf_def fun_eq_iff)
    with v show ?thesis by (simp add: mem_save_inv_def)
  qed
  then have "mem_save_inv u ?m"
    using v unfolding mem_save_inv_def
    by (auto simp: map_of_delete map_of_filter_other d distinct_keys_filter
        intro: save_row_ok_delete split: option.splits if_splits)
  ultimately show ?thesis by (simp add: eq mem_inv_def)
qed (use assms in simp)

text \<open>
  Writing a save under identifier \<open>k\<close> keeps the saves' part when \<open>k\<close> is that game's own slot or
  a new one with room left, and no other save of the game has the name.
\<close>

lemma mem_save_inv_put:
  assumes v: "mem_save_inv u m"
    and g: "map_of (m_sessions m) (n_game n) = Some s" "n_user n = s_user s"
    and n: "n_id n = k" "\<not> no_bytes (n_state n)"
    and k: "\<exists>j. 1 \<le> j \<and> j \<le> last_id \<and> k = format_int j" "m_next_save m \<le> last_id"
    and slot: "mem_shelf m (n_game n) k \<noteq> None \<or>
      map_of (m_saves m) k = None \<and> card (dom (mem_shelf m (n_game n))) < max_saves_per_game"
    and names: "\<And>l o'. mem_shelf m (n_game n) l = Some o' \<Longrightarrow> same_save_name u (n_name o') (n_name n) \<Longrightarrow> l = k"
  shows "mem_save_inv u (m\<lparr>m_next_save := last_id, m_saves := AList.update k n (m_saves m)\<rparr>)"
    (is "mem_save_inv u ?m")
  unfolding mem_save_inv_def
proof (intro conjI allI impI)
  have slot': "map_of (m_saves m) k = None \<or> mem_shelf m (n_game n) k \<noteq> None" using slot by blast
  have shelf: "mem_shelf ?m = (mem_shelf m)(n_game n := (mem_shelf m (n_game n))(k \<mapsto> n))"
    using mem_shelf_put [OF slot'] by (simp add: mem_shelf_def fun_eq_iff)
  show "distinct (keys (m_saves ?m))" using v by (simp add: mem_save_inv_def distinct_update)
  show "0 \<le> m_next_save ?m" using v k(2) by (simp add: mem_save_inv_def)
  show "card (dom (mem_shelf ?m i)) \<le> max_saves_per_game" for i
  proof -
    have "card (dom (mem_shelf m i)) \<le> max_saves_per_game" for i using v by (simp add: mem_save_inv_def)
    moreover have "card (insert k (dom (mem_shelf m (n_game n)))) \<le> max_saves_per_game"
      using slot calculation [of "n_game n"] by (auto simp: card_insert_if domIff)
    ultimately show ?thesis by (simp add: shelf)
  qed
  have "save_row_ok (map_of (m_sessions m)) last_id k n"
    using g n k(1) by (simp add: save_row_ok_def)
  moreover have "save_row_ok (map_of (m_sessions m)) last_id j o'" if "map_of (m_saves m) j = Some o'" for j o'
    using v that k(2) unfolding mem_save_inv_def save_row_ok_def by (meson order_trans)
  ultimately show "save_row_ok (map_of (m_sessions ?m)) (m_next_save ?m) j o'"
    if "map_of (m_saves ?m) j = Some o'" for j o'
    using that by (auto simp: map_of_update split: if_splits)
next
  fix j l o1 o2
  assume 1: "map_of (m_saves ?m) j = Some o1" "map_of (m_saves ?m) l = Some o2"
    and 2: "n_game o1 = n_game o2" "same_save_name u (n_name o1) (n_name o2)"
  have old: "map_of (m_saves m) i = Some x \<Longrightarrow> n_game x = n_game n \<Longrightarrow>
      same_save_name u (n_name x) (n_name n) \<Longrightarrow> i = k" for i x
    using names by (simp add: mem_shelf_Some)
  show "j = l"
  proof (cases "j = k")
    case True
    then show ?thesis using 1 2 old [of l o2] same_save_name_sym
      by (cases "l = k") (auto simp: map_of_update)
  next
    case False
    then have j: "map_of (m_saves m) j = Some o1" using 1 by (simp add: map_of_update)
    show ?thesis
    proof (cases "l = k")
      case True
      then show ?thesis using 1 2 old [OF j] by (auto simp: map_of_update)
    next
      case l: False
      then have "map_of (m_saves m) l = Some o2" using 1 by (simp add: map_of_update)
      with v j 2 show ?thesis unfolding mem_save_inv_def by blast
    qed
  qed
qed

lemma mem_shelf_drop:
  "mem_shelf (m\<lparr>m_saves := AList.delete k (m_saves m)\<rparr>) i = (mem_shelf m i)(k := None)"
  by (auto simp: mem_shelf_def map_of_delete fun_eq_iff split: option.splits)

lemma mem_save_inv_drop:
  assumes "mem_save_inv u m"
  shows "mem_save_inv u (m\<lparr>m_saves := AList.delete k (m_saves m)\<rparr>)"
proof -
  have "card (dom ((mem_shelf m i)(k := None))) \<le> max_saves_per_game" for i
    using assms card_mono [of "dom (mem_shelf m i)" "dom ((mem_shelf m i)(k := None))"]
    by (auto simp: mem_save_inv_def intro: order_trans)
  then show ?thesis
    using assms unfolding mem_save_inv_def mem_shelf_drop
    by (auto simp: map_of_delete distinct_delete split: if_splits)
qed

section \<open>What the operations do\<close>

lemma mem_owns_Inr [result_iff]: "mem_owns m user i = Inr x \<longleftrightarrow> owned (mem_sess m) user i"
  by (auto simp: mem_owns_def owned_def mem_sess_def split: option.splits)

lemma mem_owns_Inl:
  "mem_owns m user i = Inl err \<Longrightarrow> \<not> owned (mem_sess m) user i \<and> errors_is err ErrSessionNotFound"
  by (auto simp: mem_owns_def owned_def mem_sess_def split: option.splits if_splits)

lemma mem_owned_owns: "owned (mem_sess m) user i \<Longrightarrow> mem_owns m user i = Inr ()"
  by (simp add: result_iff)

lemma mem_save_names:
  assumes "mem_save_inv u m" "mem_shelf m i k = Some n" "mem_shelf m i l = Some n'"
    "same_save_name u (n_name n) (n_name n')"
  shows "k = l"
proof -
  from assms(2,3) have "map_of (m_saves m) k = Some n" "map_of (m_saves m) l = Some n'" "n_game n = n_game n'"
    by (simp_all add: mem_shelf_Some)
  with assms(1,4) show ?thesis unfolding mem_save_inv_def by blast
qed

text \<open>The three ways \<open>CreateSave\<close> goes once the game is found to be the user's.\<close>

lemma mem_find_save:
  assumes "mem_save_inv u m"
  shows "List.find (\<lambda>p. n_game (snd p) = g \<and> same_save_name u (n_name (snd p)) name) (m_saves m) = Some (k, n)
    \<longleftrightarrow> mem_shelf m g k = Some n \<and> same_save_name u (n_name n) name" (is "?find = _ \<longleftrightarrow> ?at k n")
proof
  from assms have d: "distinct (keys (m_saves m))" by (simp add: mem_save_inv_def)
  have sound: "?at k n" if "?find = Some (k, n)" for k n
  proof -
    have "(k, n) \<in> set (m_saves m)" "n_game n = g" "same_save_name u (n_name n) name"
      using find_SomeD [OF that] by auto
    with mem_map_of [OF d] show ?thesis by (simp add: mem_shelf_Some)
  qed
  { assume "?find = Some (k, n)" then show "?at k n" by (rule sound) }
  assume at: "?at k n"
  then have "map_of (m_saves m) k = Some n" "n_game n = g" "same_save_name u (n_name n) name"
    unfolding mem_shelf_Some by blast+
  moreover from this(1) have "(k, n) \<in> set (m_saves m)" by (rule map_of_SomeD)
  ultimately have "?find \<noteq> None" unfolding find_None_iff' by fastforce
  then obtain k' n' where f: "?find = Some (k', n')" by auto
  from sound [OF f] at have "same_save_name u (n_name n') (n_name n)"
    by (auto intro: same_save_name_common)
  with sound [OF f] at have "k' = k" using mem_save_names [OF assms] by blast
  with sound [OF f] at f show "?find = Some (k, n)" by simp
qed

lemma mem_create_save_replace:
  assumes "mem_inv u m" "owned (mem_sess m) (n_user n) (n_game n)"
    "mem_shelf m (n_game n) k = Some old" "same_save_name u (n_name old) (n_name n)"
  shows "mem_create_save u e n m =
    (Inr (summarize (stored_as k (now e) n), True),
     m\<lparr>m_saves := AList.update k (stored_as k (now e) n) (m_saves m)\<rparr>)"
  using assms mem_find_save [of u m "n_game n" "n_name n" k old]
  by (simp add: mem_create_save_def mem_owned_owns mem_inv_def Let_def stored_as_def)

lemma mem_create_save_new:
  assumes "mem_inv u m" "owned (mem_sess m) (n_user n) (n_game n)"
    "\<And>k old. mem_shelf m (n_game n) k = Some old \<Longrightarrow> \<not> same_save_name u (n_name old) (n_name n)"
  shows "mem_create_save u e n m =
    (let held = card (dom (mem_shelf m (n_game n)));
         k = format_int (m_next_save m + 1); n' = stored_as k (now e) n in
     if max_saves_per_game \<le> held
     then (Inl (Wrap (n_game n @ '': '' @ nat_digits held @ '' saves'') (Sentinel ErrTooManySaves)), m)
     else (Inr (summarize n', False),
           m\<lparr>m_next_save := m_next_save m + 1, m_saves := AList.update k n' (m_saves m)\<rparr>))"
proof -
  from assms(1) have v: "mem_save_inv u m" and d: "distinct (keys (m_saves m))"
    by (auto simp: mem_inv_def mem_save_inv_def)
  have "List.find (\<lambda>p. n_game (snd p) = n_game n \<and> same_save_name u (n_name (snd p)) (n_name n)) (m_saves m) = None"
  proof (rule ccontr)
    assume "\<not> ?thesis"
    then obtain k old where "List.find (\<lambda>p. n_game (snd p) = n_game n
        \<and> same_save_name u (n_name (snd p)) (n_name n)) (m_saves m) = Some (k, old)" by auto
    with mem_find_save [OF v] assms(3) show False by blast
  qed
  then show ?thesis using assms(2) mem_held [OF d, of "n_game n"]
    by (simp add: mem_create_save_def mem_owned_owns Let_def stored_as_def)
qed

lemma mem_create_save_inv:
  assumes "mem_inv u m" "\<not> no_bytes (n_state n)"
  shows "mem_inv u (snd (mem_create_save u e n m))"
proof (cases "owned (mem_sess m) (n_user n) (n_game n)")
  case True
  from assms(1) have i: "mem_sess_inv m" and v: "mem_save_inv u m" by (auto simp: mem_inv_def)
  from True obtain s where s: "map_of (m_sessions m) (n_game n) = Some s" "n_user n = s_user s"
    by (auto simp: owned_def mem_sess_def)
  show ?thesis
  proof (cases "\<exists>k old. mem_shelf m (n_game n) k = Some old \<and> same_save_name u (n_name old) (n_name n)")
    case rep: True
    then obtain k old where k: "mem_shelf m (n_game n) k = Some old" "same_save_name u (n_name old) (n_name n)"
      by blast
    have "mem_save_inv u (m\<lparr>m_next_save := m_next_save m,
        m_saves := AList.update k (stored_as k (now e) n) (m_saves m)\<rparr>)"
    proof (rule mem_save_inv_put [OF v])
      fix l o' assume "mem_shelf m (n_game (stored_as k (now e) n)) l = Some o'"
        "same_save_name u (n_name o') (n_name (stored_as k (now e) n))"
      then have "mem_shelf m (n_game n) l = Some o'" "same_save_name u (n_name o') (n_name old)"
        using k(2) by (auto intro: same_save_name_common)
      then show "l = k" using mem_save_names [OF v _ k(1)] by blast
    qed (use s assms(2) k mem_save_invD(4) [OF v, of k old] in \<open>auto simp: mem_shelf_Some\<close>)
    with i show ?thesis
      by (simp add: mem_create_save_replace [OF assms(1) True k] mem_inv_def mem_sess_inv_def)
  next
    case new: False
    let ?k = "format_int (m_next_save m + 1)"
    have nx: "0 \<le> m_next_save m" using v by (simp add: mem_save_inv_def)
    have "mem_save_inv u (m\<lparr>m_next_save := m_next_save m + 1,
        m_saves := AList.update ?k (stored_as ?k (now e) n) (m_saves m)\<rparr>)"
      if "card (dom (mem_shelf m (n_game n))) < max_saves_per_game"
      by (rule mem_save_inv_put [OF v])
        (use s assms(2) new that nx mem_fresh_save [OF v] in \<open>auto intro: exI [of _ "m_next_save m + 1"]\<close>)
    with i assms(1) show ?thesis
      using mem_create_save_new [OF assms(1) True, of e] new
      by (simp add: Let_def mem_inv_def mem_sess_inv_def not_le)
  qed
next
  case False
  then show ?thesis using assms(1) by (auto simp: mem_create_save_def result_iff split: sum.splits)
qed

lemma mem_saves_list:
  assumes "mem_inv u m" "owned (mem_sess m) user i"
  shows "\<exists>l. mem_saves e user i m = Inr l \<and> set l = summarize ` ran (mem_shelf m i)
    \<and> distinct (map sv_id l) \<and> sorted_wrt (\<lambda>a b. sv_created b \<le> sv_created a) l"
proof -
  let ?f = "filter (\<lambda>p. n_game (snd p) = i) (m_saves m)"
  let ?key = "\<lambda>s. (sv_created s, sv_id s)"
  let ?l = "rev (sort_key ?key (map (summarize \<circ> snd) ?f))"
  from assms(1) have v: "mem_save_inv u m" and d: "distinct (keys (m_saves m))"
    by (auto simp: mem_inv_def mem_save_inv_def)
  have at: "(k, n) \<in> set ?f \<longleftrightarrow> mem_shelf m i k = Some n" for k n
    using mem_map_of [OF d] by (auto simp: mem_shelf_Some)
  have "snd ` set ?f = ran (mem_shelf m i)"
    unfolding ran_def using at by (auto simp del: set_filter) (force simp del: set_filter)
  then have set: "set ?l = summarize ` ran (mem_shelf m i)" 
    using image_image [of summarize snd "set ?f"] by (simp del: set_filter)
  have "n_id (snd p) = fst p" if "p \<in> set ?f" for p
    using mem_save_invD(1) [OF v] that at [of "fst p" "snd p"] by (simp add: mem_shelf_Some)
  then have "map sv_id (map (summarize \<circ> snd) ?f) = keys ?f" by (simp add: comp_def)
  then have "distinct (map sv_id (map (summarize \<circ> snd) ?f))" using d by (simp only: distinct_keys_filter)
  moreover have "mset (map sv_id ?l) = mset (map sv_id (map (summarize \<circ> snd) ?f))"
    by (simp only: mset_map mset_rev mset_sort)
  ultimately have dist: "distinct (map sv_id ?l)" by (rule mset_eq_imp_distinct_iff [THEN iffD1, rotated, OF _ sym])
  have "sorted (map ?key (sort_key ?key (map (summarize \<circ> snd) ?f)))" by simp
  then have "sorted_wrt (\<lambda>a b. sv_created b \<le> sv_created a) ?l"
    unfolding sorted_wrt_rev sorted_map by (rule sorted_wrt_mono_rel [rotated]) (auto simp: less_eq_prod_def)
  with set dist show ?thesis using mem_owned_owns [OF assms(2)] by (auto simp: mem_saves_def)
qed

lemma mem_load_Inr: "mem_load e user i m = Inr s \<longleftrightarrow> mem_sess m i = Some s \<and> s_user s = user"
  by (auto simp: mem_load_def mem_sess_def split: option.splits)

lemma mem_load_Inl:
  "mem_load e user i m = Inl err \<Longrightarrow> \<not> owned (mem_sess m) user i \<and> errors_is err ErrSessionNotFound"
  by (auto simp: mem_load_def mem_sess_def owned_def split: option.splits if_splits)

lemma mem_load_save_Inr:
  "mem_load_save e user i k m = Inr n \<longleftrightarrow> owned (mem_sess m) user i \<and> mem_shelf m i k = Some n"
  by (auto simp: mem_load_save_def result_iff mem_shelf_Some split: option.splits)

lemma mem_create_eq:
  assumes "mem_inv u m" "s_user s \<noteq> []"
  shows "\<exists>i m'. mem_create e s m = (Inr (s\<lparr>s_id := i, s_version := 1\<rparr>), m') \<and> mem_sess m i = None
    \<and> mem_sess m' = (mem_sess m)(i \<mapsto> s\<lparr>s_id := i, s_version := 1\<rparr>) \<and> mem_shelf m' = mem_shelf m"
  using assms mem_fresh_session [of m]
  by (auto simp: mem_create_def mem_sess_def Let_def map_of_update mem_inv_def mem_shelf_def fun_eq_iff)

lemma mem_update_eq:
  "mem_sess m (s_id s) = Some c \<Longrightarrow> s_user c = s_user s \<Longrightarrow> s_version c = s_version s \<Longrightarrow>
    \<exists>m'. mem_update e s m = (Inr (s\<lparr>s_version := s_version s + 1\<rparr>), m')
      \<and> mem_sess m' = (mem_sess m)(s_id s \<mapsto> s\<lparr>s_version := s_version s + 1\<rparr>) \<and> mem_shelf m' = mem_shelf m"
  by (auto simp: mem_update_def mem_sess_def Let_def map_of_update mem_shelf_def fun_eq_iff)

lemma mem_update_Inr:
  "mem_update e s m = (Inr s', m') \<Longrightarrow> s' = s\<lparr>s_version := s_version s + 1\<rparr>
    \<and> (\<exists>c. mem_sess m (s_id s) = Some c \<and> s_user c = s_user s \<and> s_version c = s_version s)"
  by (auto simp: mem_update_def mem_sess_def Let_def split: option.splits if_splits)

lemma mem_delete_eq:
  assumes "mem_inv u m" "owned (mem_sess m) user i"
  shows "\<exists>m'. mem_delete e user i m = (Inr (), m') \<and> mem_sess m' = (mem_sess m)(i := None)
    \<and> mem_shelf m' = (mem_shelf m)(i := Map.empty)"
proof -
  have "distinct (keys (m_saves m))" using assms(1) by (simp add: mem_inv_def mem_save_inv_def)
  from mem_shelf_filter [OF this, of i] assms(2) show ?thesis
    by (auto simp: mem_delete_def mem_sess_def owned_def map_of_delete mem_shelf_def fun_eq_iff)
qed

lemma mem_delete_other: "\<not> owned (mem_sess m) user i \<Longrightarrow> snd (mem_delete e user i m) = m"
  by (auto simp: mem_delete_def mem_sess_def owned_def split: option.splits)

lemma mem_create_save_other: "\<not> owned (mem_sess m) (n_user n) (n_game n) \<Longrightarrow> snd (mem_create_save u e n m) = m"
  by (auto simp: mem_create_save_def result_iff split: sum.splits)

lemma mem_sess_saves [simp]: "mem_sess (m\<lparr>m_saves := x\<rparr>) = mem_sess m" "mem_sess (m\<lparr>m_next_save := k\<rparr>) = mem_sess m"
  by (simp_all add: mem_sess_def)

lemma mem_shelf_put_new:
  "map_of (m_saves m) k = None \<or> mem_shelf m (n_game n) k \<noteq> None \<Longrightarrow>
    mem_shelf (m\<lparr>m_next_save := t, m_saves := AList.update k n (m_saves m)\<rparr>)
      = (mem_shelf m)(n_game n := (mem_shelf m (n_game n))(k \<mapsto> n))"
  using mem_shelf_put [of m k n] by (simp add: mem_shelf_def fun_eq_iff)

lemma mem_create_save_fail: "mem_create_save u e n m = (Inl err, m') \<Longrightarrow> m' = m"
  by (auto simp: mem_create_save_def Let_def split: sum.splits option.splits if_splits)

lemma mem_create_save_frame:
  assumes "mem_inv u m"
  shows "mem_sess (snd (mem_create_save u e n m)) = mem_sess m"
    and "\<not> owned (mem_sess m) (n_user n) j \<Longrightarrow> mem_shelf (snd (mem_create_save u e n m)) j = mem_shelf m j"
proof -
  show "mem_sess (snd (mem_create_save u e n m)) = mem_sess m"
    by (auto simp: mem_create_save_def Let_def split: sum.splits option.splits)
  assume j: "\<not> owned (mem_sess m) (n_user n) j"
  show "mem_shelf (snd (mem_create_save u e n m)) j = mem_shelf m j"
  proof (cases "owned (mem_sess m) (n_user n) (n_game n)")
    case own: True
    with j have ne: "j \<noteq> n_game n" by blast
    from assms have v: "mem_save_inv u m" by (simp add: mem_inv_def)
    show ?thesis
    proof (cases "\<exists>k old. mem_shelf m (n_game n) k = Some old \<and> same_save_name u (n_name old) (n_name n)")
      case True
      then obtain k old where "mem_shelf m (n_game n) k = Some old" "same_save_name u (n_name old) (n_name n)"
        by blast
      with ne show ?thesis using mem_create_save_replace [OF assms own] mem_shelf_put [of m k "stored_as k (now e) n"]
        by simp
    next
      case False
      with ne show ?thesis using mem_create_save_new [OF assms own, of e] mem_fresh_save [OF v]
        by (simp add: Let_def mem_shelf_put_new)
    qed
  qed (simp add: mem_create_save_other)
qed

lemma mem_delete_save_eq:
  "owned (mem_sess m) user i \<Longrightarrow> mem_shelf m i k = Some n \<Longrightarrow>
    mem_delete_save e user i k m = (Inr (summarize n), m\<lparr>m_saves := AList.delete k (m_saves m)\<rparr>)"
  by (simp add: mem_delete_save_def mem_owned_owns mem_shelf_Some)

lemma mem_delete_save_other:
  "\<not> (owned (mem_sess m) user i \<and> mem_shelf m i k \<noteq> None) \<Longrightarrow> snd (mem_delete_save e user i k m) = m"
  by (auto simp: mem_delete_save_def result_iff mem_shelf_Some mem_shelf_def split: sum.splits option.splits)

lemma mem_delete_save_fail: "mem_delete_save e user i k m = (Inl err, m') \<Longrightarrow> m' = m"
  by (auto simp: mem_delete_save_def split: sum.splits option.splits if_splits)

text \<open>The memory store keeps every promise of the interface.\<close>

interpretation mem: game_store "mem_ops u" "\<lambda>_. True" "\<lambda>_. True" "\<lambda>_ user. user \<noteq> []" "\<lambda>_. True"
  "same_save_name u" "mem_inv u" mem_sess mem_shelf for u :: unicode
proof (unfold_locales, goal_cases)
  case (1 st i s)
  then show ?case using mem_sess_invD by (auto simp: mem_inv_def mem_sess_def)
next
  case (2 st i k n)
  then show ?case using mem_save_invD
    by (fastforce simp: mem_inv_def mem_sess_def mem_shelf_Some)
next
  case (3 st i k n l m)
  then show ?case using mem_save_names by (auto simp: mem_inv_def)
next
  case (4 st i)
  then show ?case by (simp add: mem_inv_def mem_save_inv_def)
next
  case (5 st user e i s)
  then show ?case using mem_sess_invD(1) [of st i s]
    by (auto simp: mem_ops_def mem_load_Inr mem_inv_def mem_sess_def)
next
  case (6 st e i s user)
  then show ?case by (simp add: mem_ops_def mem_load_Inr)
next
  case (7 st e i user)
  then show ?case using mem_load_Inl [of e user i st] mem_load_Inr [of e user i st]
    by (cases "mem_load e user i st") (auto simp: mem_ops_def owned_def)
next
  case (8 st e s)
  then show ?case using mem_create_eq [of u st s e] by (simp add: mem_ops_def)
next
  case (9 st s e)
  then show ?case by (simp add: mem_ops_def mem_create_inv)
next
  case (11 st s e s' st')
  then show ?case using mem_create_eq [of u st s e] by (auto simp: mem_ops_def)
next
  case (12 e s st err st')
  then show ?case by (auto simp: mem_ops_def mem_create_def Let_def split: if_splits)
next
  case (13 st e s c)
  then show ?case using mem_update_eq [of st s c e] by (simp add: mem_ops_def)
next
  case (14 st e s c)
  then show ?case by (auto simp: mem_ops_def mem_update_def mem_sess_def)
next
  case (15 e s st err st')
  then show ?case by (auto simp: mem_ops_def mem_update_def Let_def split: option.splits if_splits)
next
  case (16 st s c e s' st')
  then show ?case using mem_update_Inr [of e s st s' st'] mem_update_eq [of st s c e]
    by (auto simp: mem_ops_def)
next
  case (17 st s c e)
  then show ?case by (simp add: mem_ops_def mem_update_inv)
next
  case (18 st e i s user)
  then show ?case using mem_delete_eq [of u st user i e] by (auto simp: mem_ops_def owned_def)
next
  case (19 e user i st err st')
  then show ?case by (auto simp: mem_ops_def mem_delete_def split: option.splits if_splits)
next
  case (20 st user e i st' j)
  then show ?case using mem_delete_eq [of u st user i e] mem_delete_other [of st user i e]
    by (cases "owned (mem_sess st) user i") (auto simp: mem_ops_def)
next
  case (21 st e user i j s)
  then show ?case using mem_delete_eq [of u st user i e] mem_delete_other [of st user i e]
    by (cases "owned (mem_sess st) user i") (auto simp: mem_ops_def split: if_splits)
next
  case (22 st e user i)
  then show ?case by (simp add: mem_ops_def mem_delete_inv)
next
  case (24 st e n k m)
  then show ?case using mem_create_save_replace [of u st n k m e] mem_shelf_put [of st k "stored_as k (now e) n"]
    by (simp add: mem_ops_def)
next
  case (25 st e n)
  let ?k = "format_int (m_next_save st + 1)"
  have f: "map_of (m_saves st) ?k = None" using 25(1) mem_fresh_save [of u st] by (simp add: mem_inv_def)
  have c: "mem_create_save u e n st = (Inr (summarize (stored_as ?k (now e) n), False),
      st\<lparr>m_next_save := m_next_save st + 1, m_saves := AList.update ?k (stored_as ?k (now e) n) (m_saves st)\<rparr>)"
    using mem_create_save_new [of u st n e] 25 by (simp add: Let_def)
  have s: "mem_shelf (snd (mem_create_save u e n st)) = (mem_shelf st)(n_game n :=
      (mem_shelf st (n_game n))(?k \<mapsto> stored_as ?k (now e) n))"
    using f by (auto simp: c mem_shelf_def map_of_update fun_eq_iff split: option.splits if_splits)
  have n: "mem_shelf st (n_game n) ?k = None" using f by (simp add: mem_shelf_def)
  show ?case using c s n by (auto simp: mem_ops_def mem_sess_def)
next
  case (26 st e n)
  then show ?case using mem_create_save_new [of u st n e] by (simp add: mem_ops_def Let_def)
next
  case (27 e n st err st')
  then show ?case using mem_create_save_fail [of u e n st err st'] by (simp add: mem_ops_def)
next
  case (28 st n e st')
  then show ?case using mem_create_save_frame(1) [of u st e n] mem_create_save_frame(2) [of u st n] by (auto simp: mem_ops_def)
next
  case (29 st n e)
  then show ?case by (simp add: mem_ops_def mem_create_save_inv)
next
  case (31 st e user i)
  then show ?case using mem_saves_list [of u st user i e] by (simp add: mem_ops_def)
next
  case (32 st e user i k n)
  then show ?case by (simp add: mem_ops_def mem_load_save_Inr)
next
  case (33 st user e i k n)
  then show ?case using mem_save_invD(1) [of u st k n]
    by (auto simp: mem_ops_def mem_load_save_Inr mem_inv_def mem_shelf_Some)
next
  case (34 st e user i k n)
  then show ?case using mem_shelf_one [OF 34(4)]
    by (auto simp: mem_ops_def mem_delete_save_eq mem_shelf_drop fun_eq_iff mem_sess_def)
next
  case (35 e user i k st err st')
  then show ?case using mem_delete_save_fail [of e user i k st err st'] by (simp add: mem_ops_def)
next
  case (36 st user e i k st')
  show ?case
  proof (cases "owned (mem_sess st) user i \<and> mem_shelf st i k \<noteq> None")
    case True
    then obtain n where n: "mem_shelf st i k = Some n" by auto
    have "mem_shelf st j k = None" if "\<not> owned (mem_sess st) user j" for j
      using mem_shelf_one [OF n, of j] that True by (cases "j = i") auto
    then show ?thesis using True n 36(3)
      by (auto simp: mem_ops_def mem_delete_save_eq mem_shelf_drop fun_eq_iff mem_sess_def)
  next
    case False
    then show ?thesis using mem_delete_save_other [of st user i k e] 36(3) by (auto simp: mem_ops_def)
  qed
next
  case (37 st e user i k)
  then show ?case using mem_delete_save_other [of st user i k e] mem_save_inv_drop [of u st k]
    by (cases "owned (mem_sess st) user i \<and> mem_shelf st i k \<noteq> None")
      (auto simp: mem_ops_def mem_delete_save_eq mem_inv_def mem_sess_inv_def)
next
  case (39 st i e user s)
  then show ?case using mem_sess_invD(1) by (auto simp: mem_ops_def mem_load_Inr mem_inv_def mem_sess_def)
next
  case (40 st i j e user)
  then show ?case using mem_delete_eq [where u = u and m = st and user = user and i = i and e = e] mem_delete_other [where m = st and user = user and i = i and e = e]
    by (cases "owned (mem_sess st) user i") (auto simp: mem_ops_def)
next
  case (41 st e i user)
  then show ?case using mem_owned_owns [of st user i]
    by (auto simp: mem_ops_def mem_saves_def mem_owns_def owned_def mem_sess_def split: option.splits)
next
  case (42 st e i user)
  then show ?case by (auto simp: mem_ops_def mem_delete_def owned_def mem_sess_def split: option.splits)
next
  case (43 st e i k user)
  then show ?case
    by (auto simp: mem_ops_def mem_delete_save_def mem_owns_def owned_def mem_sess_def split: option.splits)
qed (auto simp: mem_ops_def)

end
