(* ===== verification/Game_Service.thy ===== *)
theory Game_Service
  imports Game_Command Game_Engine Game_Memstore
begin

text \<open>
  The game service (session.go, saves.go): the whole read-run-write cycle over a store.

  Each operation is written as the code runs it with the session's lock held; the lock is
  theory \<open>Keyed_Mutex\<close>. A call reads and writes the store in turn, so its k-th use of the
  store sees the environment \<open>nth_use k\<close>. The first half of the theory is the operations, over
  any store; the second half proves them correct inside \<open>game_store\<close>, from the laws alone.
\<close>

section \<open>The operations\<close>

record ('story, 'm, 'st) service =
  svc_engine :: "('story, 'm) engine"
  svc_unicode :: unicode
  svc_library :: "'story library"
  svc_runner :: runner
  svc_store :: "'st store_ops"

definition new_service ::
  "('story, 'm) engine \<Rightarrow> unicode \<Rightarrow> 'story library option \<Rightarrow> runner option \<Rightarrow> 'st store_ops option
     \<Rightarrow> ('story, 'm, 'st) service result" where
  "new_service eng u library runner store =
     (case library of None \<Rightarrow> Inl (Opaque ''game: service: nil library'')
      | Some l \<Rightarrow> case runner of None \<Rightarrow> Inl (Opaque ''game: service: nil runner'')
      | Some r \<Rightarrow> case store of None \<Rightarrow> Inl (Opaque ''game: service: nil store'')
      | Some s \<Rightarrow> Inr \<lparr>svc_engine = eng, svc_unicode = u, svc_library = l, svc_runner = r, svc_store = s\<rparr>)"

text \<open>What one submitted line produced.\<close>

definition zero_z_status :: z_status where
  "zero_z_status = \<lparr>z_available = False, z_name = [], z_time_game = False, z_score = 0, z_turns = 0,
     z_hours = 0, z_minutes = 0\<rparr>"

definition zero_result :: z_result where
  "zero_result = \<lparr>z_output = [], z_upper = [], z_state = None, z_halted = False, z_line = zero_z_status\<rparr>"

record turn =
  t_intent :: intent
  t_session :: session
  t_result :: z_result
  t_save :: save
  t_replaced :: bool
  t_asked :: bool

definition zero_turn :: turn where
  "zero_turn = \<lparr>t_intent = IntentPlay, t_session = zero_session, t_result = zero_result,
     t_save = zero_save, t_replaced = False, t_asked = False\<rparr>"

definition turn_notice :: "unicode \<Rightarrow> turn \<Rightarrow> string" where
  "turn_notice u t = (case t_intent t of
      IntentSave \<Rightarrow> saved_notice u (sv_name (t_save t)) (t_replaced t)
    | IntentRestore \<Rightarrow> restored_notice u (sv_name (t_save t))
    | _ \<Rightarrow> [])"

text \<open>The prefix every error about a session carries.\<close>

definition session_err :: "string \<Rightarrow> string \<Rightarrow> goerr \<Rightarrow> goerr" where
  "session_err i what e = Wrap (''game: session '' @ i @ what) e"

definition service_new_game ::
  "('story, 'm, 'st) service \<Rightarrow> env \<Rightarrow> string \<Rightarrow> string \<Rightarrow> 'st \<Rightarrow> (session \<times> z_result) result \<times> 'st" where
  "service_new_game v e user story st =
     (if user = [] then (Inl (Opaque ''game: new game: no user''), st)
      else case lib_by_id (svc_library v) story of
        None \<Rightarrow> (Inl (Wrap (''game: '' @ story) (Sentinel ErrStoryUnavailable)), st)
      | Some en \<Rightarrow>
         (case runner_start (svc_engine v) (svc_runner v) e (Some en) of
            Inl err \<Rightarrow> (Inl err, st)
          | Inr res \<Rightarrow>
             (case st_create (svc_store v) (nth_use 1 e)
                 (zero_session\<lparr>s_user := user, s_key := en_key en, s_state := z_state res,
                    s_transcript := z_output res, s_status := status_of (z_line res),
                    s_halted := z_halted res\<rparr>) st of
                (Inl err, st') \<Rightarrow> (Inl (Wrap (''game: '' @ story @ '': create session'') err), st')
              | (Inr s, st') \<Rightarrow> (Inr (s, res), st'))))"

text \<open>An ordinary line: a turn of the story, and the session it leaves.\<close>

definition played :: "session \<Rightarrow> string \<Rightarrow> z_result \<Rightarrow> session" where
  "played s command res =
     s\<lparr>s_state := z_state res, s_transcript := append_transcript (s_transcript s) command (z_output res),
       s_status := status_of (z_line res), s_turn := s_turn s + 1, s_halted := z_halted res\<rparr>"

text \<open>
  The error of a failed write names the turn of the session the store returned with it,
  which is the zero session.
\<close>

definition play_turn ::
  "('story, 'm, 'st) service \<Rightarrow> env \<Rightarrow> string \<Rightarrow> string \<Rightarrow> string \<Rightarrow> 'st \<Rightarrow> turn result \<times> 'st" where
  "play_turn v e user i command st =
     (case st_load (svc_store v) e user i st of
        Inl err \<Rightarrow> (Inl (session_err i '': load'' err), st)
      | Inr s \<Rightarrow>
          if s_halted s then (Inl (session_err i [] (Sentinel ErrGameOver)), st)
          else case lib_by_key (svc_library v) (s_key s) of
            None \<Rightarrow> (Inl (session_err i ('': story '' @ story_key_string (s_key s)) (Sentinel ErrStoryUnavailable)), st)
          | Some en \<Rightarrow>
             (case runner_run (svc_engine v) (svc_runner v) (nth_use 1 e) (Some en) (s_state s) command of
                Inl err \<Rightarrow> (Inl err, st)
              | Inr res \<Rightarrow>
                 (case st_update (svc_store v) (nth_use 2 e) (played s command res) st of
                    (Inl err, st') \<Rightarrow>
                      (Inl (session_err i ('': store turn '' @ format_int (s_turn zero_session)) err), st')
                  | (Inr s', st') \<Rightarrow>
                      (Inr (zero_turn\<lparr>t_intent := IntentPlay, t_session := s', t_result := res\<rparr>), st'))))"

text \<open>The snapshot \<open>Service.save\<close> writes: the whole screen travels with the state.\<close>

definition snapshot_of :: "string \<Rightarrow> string \<Rightarrow> string \<Rightarrow> session \<Rightarrow> snapshot" where
  "snapshot_of user i name s =
     \<lparr>n_id = [], n_user = user, n_game = i, n_name = name, n_key = s_key s, n_state = s_state s,
      n_transcript = s_transcript s, n_status = s_status s, n_turn = s_turn s, n_created = 0\<rparr>"

text \<open>\<open>Service.save\<close>: a failed update of the transcript is not the caller's problem.\<close>

definition save_locked ::
  "('story, 'm, 'st) service \<Rightarrow> env \<Rightarrow> string \<Rightarrow> string \<Rightarrow> string \<Rightarrow> string \<Rightarrow> 'st
     \<Rightarrow> (session \<times> save \<times> bool) result \<times> 'st" where
  "save_locked v e user i name echo st =
     (case st_load (svc_store v) e user i st of
        Inl err \<Rightarrow> (Inl (session_err i '': load'' err), st)
      | Inr s \<Rightarrow>
          if no_bytes (s_state s) then (Inl (session_err i [] (Sentinel ErrGameOver)), st)
          else
            (case st_create_save (svc_store v) (nth_use 1 e) (snapshot_of user i name s) st of
               (Inl err, st1) \<Rightarrow>
                 (Inl (session_err i ('': write save '' @ quote (svc_unicode v) name) err), st1)
             | (Inr (saved, replaced), st1) \<Rightarrow>
                 let s' = s\<lparr>s_transcript := append_notice (s_transcript s) echo
                             (saved_notice (svc_unicode v) (sv_name saved) replaced)\<rparr> in
                 (case st_update (svc_store v) (nth_use 2 e) s' st1 of
                    (Inl _, st2) \<Rightarrow> (Inr (s', saved, replaced), st2)
                  | (Inr updated, st2) \<Rightarrow> (Inr (updated, saved, replaced), st2))))"

text \<open>\<open>Service.restore\<close>, and the session it writes.\<close>

definition restored :: "unicode \<Rightarrow> session \<Rightarrow> snapshot \<Rightarrow> string \<Rightarrow> session" where
  "restored u s n echo =
     s\<lparr>s_state := n_state n, s_status := n_status n, s_turn := n_turn n,
       s_transcript := append_notice (n_transcript n) echo (restored_notice u (n_name n)),
       s_halted := False\<rparr>"

definition restore_locked ::
  "('story, 'm, 'st) service \<Rightarrow> env \<Rightarrow> string \<Rightarrow> string \<Rightarrow> string \<Rightarrow> string \<Rightarrow> 'st
     \<Rightarrow> (session \<times> save) result \<times> 'st" where
  "restore_locked v e user i k echo st =
     (case st_load (svc_store v) e user i st of
        Inl err \<Rightarrow> (Inl (session_err i '': load'' err), st)
      | Inr s \<Rightarrow>
         (case st_load_save (svc_store v) (nth_use 1 e) user i k st of
            Inl err \<Rightarrow> (Inl (session_err i ('': load save '' @ k) err), st)
          | Inr n \<Rightarrow>
             if n_key n \<noteq> s_key s then (Inl (session_err i ('': save '' @ k) (Sentinel ErrSaveMismatch)), st)
             else
               (case st_update (svc_store v) (nth_use 2 e) (restored (svc_unicode v) s n echo) st of
                  (Inl err, st') \<Rightarrow> (Inl (session_err i ('': restore save '' @ k) err), st')
                | (Inr s', st') \<Rightarrow>
                    (Inr (s', \<lparr>sv_id = n_id n, sv_name = n_name n, sv_turn = n_turn n,
                               sv_created = n_created n\<rparr>), st'))))"

text \<open>A SAVE and a RESTORE the player typed.\<close>

definition play_save ::
  "('story, 'm, 'st) service \<Rightarrow> env \<Rightarrow> string \<Rightarrow> string \<Rightarrow> command \<Rightarrow> 'st \<Rightarrow> turn result \<times> 'st" where
  "play_save v e user i line st =
     (if c_name line = [] then (Inr (zero_turn\<lparr>t_intent := IntentSave, t_asked := True\<rparr>), st)
      else case clean_save_name (c_name line) of
        Inl err \<Rightarrow> (Inl err, st)
      | Inr clean \<Rightarrow>
         (case save_locked v e user i clean (c_text line) st of
            (Inl err, st') \<Rightarrow> (Inl err, st')
          | (Inr (s, saved, replaced), st') \<Rightarrow>
              (Inr (zero_turn\<lparr>t_intent := IntentSave, t_session := s, t_save := saved,
                      t_replaced := replaced\<rparr>), st')))"

definition play_restore ::
  "('story, 'm, 'st) service \<Rightarrow> env \<Rightarrow> string \<Rightarrow> string \<Rightarrow> command \<Rightarrow> 'st \<Rightarrow> turn result \<times> 'st" where
  "play_restore v e user i line st =
     (if c_name line = [] then (Inr (zero_turn\<lparr>t_intent := IntentRestore, t_asked := True\<rparr>), st)
      else case st_saves (svc_store v) e user i st of
        Inl err \<Rightarrow> (Inl (session_err i '': list saves'' err), st)
      | Inr saves \<Rightarrow>
         (case find_save (svc_unicode v) saves (join '' '' (str_fields (c_name line))) of
            None \<Rightarrow> (Inl (session_err i ('': save '' @ quote (svc_unicode v) (c_name line))
                       (Sentinel ErrSaveNotFound)), st)
          | Some wanted \<Rightarrow>
             (case restore_locked v (nth_use 1 e) user i (sv_id wanted) (c_text line) st of
                (Inl err, st') \<Rightarrow> (Inl err, st')
              | (Inr (s, saved), st') \<Rightarrow>
                  (Inr (zero_turn\<lparr>t_intent := IntentRestore, t_session := s, t_save := saved\<rparr>), st'))))"

definition service_play ::
  "('story, 'm, 'st) service \<Rightarrow> env \<Rightarrow> string \<Rightarrow> string \<Rightarrow> string \<Rightarrow> 'st \<Rightarrow> turn result \<times> 'st" where
  "service_play v e user i command st =
     (if user = [] then (Inl (Opaque ''game: play: no user''), st)
      else let line = interpret_line (svc_unicode v) command in
        case c_intent line of
          IntentSave \<Rightarrow> play_save v e user i line st
        | IntentRestore \<Rightarrow> play_restore v e user i line st
        | IntentRestart \<Rightarrow> (Inr (zero_turn\<lparr>t_intent := IntentRestart, t_asked := True\<rparr>), st)
        | IntentPlay \<Rightarrow> play_turn v e user i command st)"

definition restarted :: "session \<Rightarrow> z_result \<Rightarrow> session" where
  "restarted s res =
     s\<lparr>s_state := z_state res, s_transcript := z_output res, s_status := status_of (z_line res),
       s_turn := 0, s_halted := z_halted res\<rparr>"

definition service_restart ::
  "('story, 'm, 'st) service \<Rightarrow> env \<Rightarrow> string \<Rightarrow> string \<Rightarrow> 'st \<Rightarrow> turn result \<times> 'st" where
  "service_restart v e user i st =
     (if user = [] then (Inl (Opaque ''game: restart: no user''), st)
      else case st_load (svc_store v) e user i st of
        Inl err \<Rightarrow> (Inl (session_err i '': load'' err), st)
      | Inr s \<Rightarrow>
         (case lib_by_key (svc_library v) (s_key s) of
            None \<Rightarrow> (Inl (session_err i ('': story '' @ story_key_string (s_key s)) (Sentinel ErrStoryUnavailable)), st)
          | Some en \<Rightarrow>
             (case runner_start (svc_engine v) (svc_runner v) (nth_use 1 e) (Some en) of
                Inl err \<Rightarrow> (Inl err, st)
              | Inr res \<Rightarrow>
                 (case st_update (svc_store v) (nth_use 2 e) (restarted s res) st of
                    (Inl err, st') \<Rightarrow> (Inl (session_err i '': store restart'' err), st')
                  | (Inr s', st') \<Rightarrow>
                      (Inr (zero_turn\<lparr>t_intent := IntentRestart, t_session := s', t_result := res\<rparr>), st')))))"

definition service_games ::
  "('story, 'm, 'st) service \<Rightarrow> env \<Rightarrow> string \<Rightarrow> 'st \<Rightarrow> summary list result" where
  "service_games v e user st =
     (if user = [] then Inl (Opaque ''game: games: no user'')
      else wrap_r (''game: user '' @ user @ '': list games'') (st_list (svc_store v) e user st))"

definition service_delete ::
  "('story, 'm, 'st) service \<Rightarrow> env \<Rightarrow> string \<Rightarrow> string \<Rightarrow> 'st \<Rightarrow> unit result \<times> 'st" where
  "service_delete v e user i st =
     (if user = [] then (Inl (Opaque ''game: delete: no user''), st)
      else case st_delete (svc_store v) e user i st of
        (Inl err, st') \<Rightarrow> (Inl (session_err i '': delete'' err), st')
      | (Inr _, st') \<Rightarrow> (Inr (), st'))"

definition service_session ::
  "('story, 'm, 'st) service \<Rightarrow> env \<Rightarrow> string \<Rightarrow> string \<Rightarrow> 'st \<Rightarrow> session result" where
  "service_session v e user i st =
     (if user = [] then Inl (Opaque ''game: session: no user'')
      else wrap_r (''game: session '' @ i @ '': load'') (st_load (svc_store v) e user i st))"

definition service_saves ::
  "('story, 'm, 'st) service \<Rightarrow> env \<Rightarrow> string \<Rightarrow> string \<Rightarrow> 'st \<Rightarrow> save list result" where
  "service_saves v e user i st =
     (if user = [] then Inl (Opaque ''game: saves: no user'')
      else wrap_r (''game: session '' @ i @ '': list saves'') (st_saves (svc_store v) e user i st))"

definition service_save ::
  "('story, 'm, 'st) service \<Rightarrow> env \<Rightarrow> string \<Rightarrow> string \<Rightarrow> string \<Rightarrow> 'st \<Rightarrow> (save \<times> bool) result \<times> 'st" where
  "service_save v e user i name st =
     (if user = [] then (Inl (Opaque ''game: save: no user''), st)
      else case clean_save_name name of
        Inl err \<Rightarrow> (Inl err, st)
      | Inr clean \<Rightarrow>
         (case save_locked v e user i clean ''save'' st of
            (Inl err, st') \<Rightarrow> (Inl err, st')
          | (Inr (_, saved, replaced), st') \<Rightarrow> (Inr (saved, replaced), st')))"

definition service_restore ::
  "('story, 'm, 'st) service \<Rightarrow> env \<Rightarrow> string \<Rightarrow> string \<Rightarrow> string \<Rightarrow> 'st \<Rightarrow> (session \<times> save) result \<times> 'st" where
  "service_restore v e user i k st =
     (if user = [] then (Inl (Opaque ''game: restore: no user''), st)
      else restore_locked v e user i k ''restore'' st)"

definition service_delete_save ::
  "('story, 'm, 'st) service \<Rightarrow> env \<Rightarrow> string \<Rightarrow> string \<Rightarrow> string \<Rightarrow> 'st \<Rightarrow> save result \<times> 'st" where
  "service_delete_save v e user i k st =
     (if user = [] then (Inl (Opaque ''game: delete save: no user''), st)
      else case st_delete_save (svc_store v) e user i k st of
        (Inl err, st') \<Rightarrow> (Inl (session_err i ('': delete save '' @ k) err), st')
      | (Inr deleted, st') \<Rightarrow> (Inr deleted, st'))"

end
