(* ===== verification/Db_Tables.thy ===== *)
theory Db_Tables
  imports Game_Save_Names
begin

text \<open>
  The SQLite database under package database: the tables of migrations/, with the constraints
  SQLite enforces (CHECK, UNIQUE, FOREIGN KEY with ON DELETE CASCADE, rowid assignment), and
  the helpers the stores share (identifiers that come from outside, status columns,
  connections).

  A table is an association list from rowid to row. Every use a store makes of its connection
  (taking it from the pool, each statement, BEGIN and COMMIT) may fail: the k-th use of a
  call fails with \<open>ctx_err e k\<close>. A failed statement changes nothing.

  A TEXT timestamp is the instant it stands for: \<open>stamp\<close> writes UTC at a fixed width, which
  sorts as the instants do and parses back to the same one.
\<close>

section \<open>Rows\<close>

text \<open>The seven status columns (\<open>bindStatus\<close>, \<open>readStatus\<close>): integers are stored in 64 bits.\<close>

record status_cols =
  sc_available :: bool
  sc_name :: string
  sc_time_game :: bool
  sc_score :: int
  sc_moves :: int
  sc_hours :: int
  sc_minutes :: int

definition bind_status :: "status_line \<Rightarrow> status_cols" where
  "bind_status s = \<lparr>sc_available = sl_available s, sc_name = sl_name s, sc_time_game = sl_time_game s,
     sc_score = sint (sl_score s), sc_moves = sint (sl_moves s),
     sc_hours = uint (sl_hours s), sc_minutes = uint (sl_minutes s)\<rparr>"

definition read_status :: "status_cols \<Rightarrow> status_line" where
  "read_status c = \<lparr>sl_available = sc_available c, sl_name = sc_name c, sl_time_game = sc_time_game c,
     sl_score = word_of_int (sc_score c), sl_moves = word_of_int (sc_moves c),
     sl_hours = word_of_int (sc_hours c), sl_minutes = word_of_int (sc_minutes c)\<rparr>"

lemma read_bind_status [simp]: "read_status (bind_status s) = s"
  by (simp add: read_status_def bind_status_def)

record user_row =
  u_email :: string
  u_password :: string
  u_created :: time
  u_updated :: time

record game_row =
  g_user :: int
  g_key :: story_key
  g_state :: "bytes option"
  g_transcript :: string
  g_turn :: int
  g_version :: int
  g_halted :: bool
  g_status :: status_cols
  g_created :: time
  g_updated :: time

record save_row =
  r_game :: int
  r_name :: string
  r_key :: story_key
  r_state :: bytes
  r_transcript :: string
  r_turn :: int
  r_status :: status_cols
  r_created :: time

record auth_row =
  a_token :: "256 word"
  a_user :: int
  a_created :: time
  a_expires :: time

record invite_row =
  i_token :: "256 word"
  i_email :: string
  i_created :: time
  i_expires :: time
  i_redeemed :: "time option"
  i_user :: "int option"

record db =
  d_users :: "(int \<times> user_row) list"
  d_games :: "(int \<times> game_row) list"
  d_saves :: "(int \<times> save_row) list"
  d_auth :: "(int \<times> auth_row) list"
  d_invites :: "(int \<times> invite_row) list"

definition empty_db :: db where
  "empty_db = \<lparr>d_users = [], d_games = [], d_saves = [], d_auth = [], d_invites = []\<rparr>"

section \<open>Constraints\<close>

text \<open>
  \<open>id INTEGER PRIMARY KEY\<close> without AUTOINCREMENT: a new row gets one more than the largest
  rowid in the table, so the identifier of a deleted last row is given out again. At the
  largest 64-bit rowid the insert is refused (SQLite would first look for a free one).
\<close>

definition max_rowid :: int where "max_rowid = 2 ^ 63 - 1"

definition next_rowid :: "(int \<times> 'a) list \<Rightarrow> int option" where
  "next_rowid t = (let m = fold max (keys t) 0 in if m < max_rowid then Some (m + 1) else None)"

text \<open>\<open>length(x) > 0\<close> for TEXT: SQLite counts up to the first NUL.\<close>

definition check_text :: "string \<Rightarrow> bool" where
  "check_text s \<longleftrightarrow> takeWhile (\<lambda>c. c \<noteq> CHR 0x00) s \<noteq> []"

definition check_game :: "game_row \<Rightarrow> bool" where
  "check_game g \<longleftrightarrow> g_halted g \<or> \<not> no_bytes (g_state g)"

definition check_save :: "save_row \<Rightarrow> bool" where
  "check_save r \<longleftrightarrow> check_text (r_name r) \<and> r_state r \<noteq> []"

text \<open>The NOCASE collation folds ASCII capitals and nothing else.\<close>

definition nocase :: "string \<Rightarrow> string \<Rightarrow> bool" where
  "nocase a b \<longleftrightarrow> map (\<lambda>c. ascii_lower (byte c)) a = map (\<lambda>c. ascii_lower (byte c)) b"

text \<open>\<open>UNIQUE INDEX saves_game_name\<close>, as a write of row \<open>k\<close> checks it.\<close>

definition name_free :: "db \<Rightarrow> int option \<Rightarrow> int \<Rightarrow> string \<Rightarrow> bool" where
  "name_free d k game name \<longleftrightarrow>
     list_all (\<lambda>(j, r). Some j = k \<or> \<not> (r_game r = game \<and> nocase (r_name r) name)) (d_saves d)"

definition constraint_failed :: "string \<Rightarrow> goerr" where
  "constraint_failed what = Opaque (''sqlite: constraint failed: '' @ what)"

definition disk_full :: goerr where "disk_full = Opaque ''sqlite: database or disk is full''"

text \<open>\<open>DELETE FROM games\<close> with the cascade to saves.\<close>

definition drop_game :: "int \<Rightarrow> db \<Rightarrow> db" where
  "drop_game k d = d\<lparr>d_games := AList.delete k (d_games d),
     d_saves := filter (\<lambda>(_, r). r_game r \<noteq> k) (d_saves d)\<rparr>"

section \<open>Connections and identifiers\<close>

text \<open>The k-th use of the connection in a call; \<open>DB.conn\<close> is the first.\<close>

definition db_use :: "env \<Rightarrow> nat \<Rightarrow> unit result" where
  "db_use e k = (case ctx_err e k of Some err \<Rightarrow> Inl err | None \<Rightarrow> Inr ())"

definition db_conn :: "env \<Rightarrow> nat \<Rightarrow> unit result" where
  "db_conn e k = wrap_r ''database: connection'' (db_use e k)"

definition db_ping :: "env \<Rightarrow> unit result" where
  "db_ping e = bind_r (wrap_r ''database: ping'' (db_conn e 0))
     (\<lambda>_. wrap_r ''database: ping'' (db_use e 1))"

text \<open>
  Identifiers that come from outside: anything that is not the decimal of a positive 64-bit
  integer reads as something that does not exist.
\<close>

definition row_id :: "unicode \<Rightarrow> string \<Rightarrow> int result" where
  "row_id u s = (case parse_int64 s of
     Some n \<Rightarrow> if n < 1 then Inl (Wrap (''database: session '' @ quote u s) (Sentinel ErrSessionNotFound)) else Inr n
   | None \<Rightarrow> Inl (Wrap (''database: session '' @ quote u s) (Sentinel ErrSessionNotFound)))"

definition user_row_id :: "unicode \<Rightarrow> string \<Rightarrow> int result" where
  "user_row_id u s = (case parse_int64 s of
     Some n \<Rightarrow> if n < 1 then Inl (Wrap (''database: user '' @ quote u s) (Sentinel ErrUserNotFound)) else Inr n
   | None \<Rightarrow> Inl (Wrap (''database: user '' @ quote u s) (Sentinel ErrUserNotFound)))"

definition save_row_id :: "unicode \<Rightarrow> string \<Rightarrow> int result" where
  "save_row_id u s = (case parse_int64 s of
     Some n \<Rightarrow> if n < 1 then Inl (Wrap (''database: save '' @ quote u s) (Sentinel ErrSaveNotFound)) else Inr n
   | None \<Rightarrow> Inl (Wrap (''database: save '' @ quote u s) (Sentinel ErrSaveNotFound)))"

text \<open>The identifiers the database itself hands out.\<close>

definition id_of :: "int \<Rightarrow> string" where "id_of k = format_int k"

definition rowid_ok :: "int \<Rightarrow> bool" where "rowid_ok k \<longleftrightarrow> 1 \<le> k \<and> k \<le> max_rowid"

lemma db_use_simps [simp]: "ctx_err e k = None \<Longrightarrow> db_use e k = Inr ()"
  "ctx_err e k = Some x \<Longrightarrow> db_use e k = Inl x"
  by (simp_all add: db_use_def)

lemma db_use_Inr [result_iff]: "db_use e k = Inr y \<longleftrightarrow> ctx_err e k = None"
  by (simp add: db_use_def split: option.splits)

lemma db_conn_Inr [result_iff]: "db_conn e k = Inr y \<longleftrightarrow> ctx_err e k = None"
  by (simp add: db_conn_def result_iff)

lemma db_conn_simps [simp]: "ctx_err e k = None \<Longrightarrow> db_conn e k = Inr ()"
  by (simp add: db_conn_def)

lemma parse_id_of [simp]: "rowid_ok k \<Longrightarrow> parse_int64 (id_of k) = Some k"
  by (simp add: id_of_def rowid_ok_def max_rowid_def parse_format_int)

lemma row_id_of [simp]: "rowid_ok k \<Longrightarrow> row_id u (id_of k) = Inr k"
  "rowid_ok k \<Longrightarrow> user_row_id u (id_of k) = Inr k" "rowid_ok k \<Longrightarrow> save_row_id u (id_of k) = Inr k"
  by (simp_all add: row_id_def user_row_id_def save_row_id_def) (simp_all add: rowid_ok_def)

lemma id_of_eq [simp]: "id_of j = id_of k \<longleftrightarrow> j = k"
  by (simp add: id_of_def)

lemma row_id_Inl: "row_id u s = Inl err \<Longrightarrow> errors_is err ErrSessionNotFound"
  by (auto simp: row_id_def split: option.splits if_splits)

lemma save_row_id_Inl: "save_row_id u s = Inl err \<Longrightarrow> errors_is err ErrSaveNotFound"
  by (auto simp: save_row_id_def split: option.splits if_splits)

lemma parse_int64_bound: "parse_int64 s = Some n \<Longrightarrow> n \<le> max_rowid"
  by (auto simp: parse_int64_def max_rowid_def split: list.splits if_splits option.splits)

lemma row_id_Inr [result_iff]: "row_id u s = Inr k \<longleftrightarrow> parse_int64 s = Some k \<and> rowid_ok k"
  by (auto simp: row_id_def rowid_ok_def split: option.splits dest: parse_int64_bound)

lemma user_row_id_Inr [result_iff]: "user_row_id u s = Inr k \<longleftrightarrow> parse_int64 s = Some k \<and> rowid_ok k"
  by (auto simp: user_row_id_def rowid_ok_def split: option.splits dest: parse_int64_bound)

lemma save_row_id_Inr [result_iff]: "save_row_id u s = Inr k \<longleftrightarrow> parse_int64 s = Some k \<and> rowid_ok k"
  by (auto simp: save_row_id_def rowid_ok_def split: option.splits dest: parse_int64_bound)

lemma fold_max_ge: "(m :: int) \<le> fold max ks m" "k \<in> set ks \<Longrightarrow> k \<le> fold max ks m"
proof -
  have "m \<le> fold max ks m \<and> (\<forall>k \<in> set ks. k \<le> fold max ks m)"
  proof (induction ks arbitrary: m)
    case (Cons a ks)
    from Cons [of "max a m"] show ?case by auto
  qed simp
  then show "m \<le> fold max ks m" "k \<in> set ks \<Longrightarrow> k \<le> fold max ks m" by auto
qed

lemma next_rowid_fresh: "next_rowid t = Some k \<Longrightarrow> k \<notin> set (keys t) \<and> rowid_ok k"
  using fold_max_ge(1) [of 0 "keys t"] fold_max_ge(2) [of k "keys t" 0]
  by (auto simp: next_rowid_def rowid_ok_def Let_def max_rowid_def split: if_splits)

lemma nocase_refl [simp]: "nocase a a" by (simp add: nocase_def)

lemma nocase_common: "nocase a n \<Longrightarrow> nocase b n \<Longrightarrow> nocase a b" by (simp add: nocase_def)

lemma clean_check_text: "clean_name n \<Longrightarrow> check_text n"
proof -
  assume c: "clean_name n"
  have "hd n \<noteq> CHR 0x00"
  proof
    assume z: "hd n = CHR 0x00"
    obtain cs where n: "n = CHR 0x00 # cs" using c z by (cases n) (auto simp: clean_name_def)
    have "(0, [CHR 0x00]) \<in> set (runes n)" by (simp add: n Let_def)
    moreover have "is_control 0" by (simp add: is_control_def)
    ultimately show False using c by (auto simp: clean_name_def list_all_iff)
  qed
  then show ?thesis using c by (cases n) (auto simp: check_text_def clean_name_def)
qed

end
