(* ===== verification/Db_Games.thy ===== *)
theory Db_Games
  imports Db_Tables Game_Store
begin

text \<open>
  The store of games in progress and their saves over the database (internal/database/sessions.go
  and saves.go): one definition per method of \<open>Sessions\<close> and per helper, each statement in the
  order the code runs it.
\<close>

section \<open>Sessions\<close>

text \<open>A row as \<open>loadSession\<close> reads it: an empty or NULL state column reads as no state.\<close>

definition read_state :: "bytes option \<Rightarrow> bytes option" where
  "read_state b = (if no_bytes b then None else b)"

definition session_of_row :: "int \<Rightarrow> game_row \<Rightarrow> session" where
  "session_of_row k g = \<lparr>s_id = id_of k, s_user = id_of (g_user g), s_key = g_key g,
     s_state = read_state (g_state g), s_transcript = g_transcript g,
     s_status = read_status (g_status g), s_turn = g_turn g, s_version = g_version g,
     s_halted = g_halted g\<rparr>"

definition game_row_of :: "int \<Rightarrow> time \<Rightarrow> session \<Rightarrow> game_row" where
  "game_row_of owner at s = \<lparr>g_user = owner, g_key = s_key s, g_state = s_state s,
     g_transcript = s_transcript s, g_turn = s_turn s, g_version = 1, g_halted = s_halted s,
     g_status = bind_status (s_status s), g_created = at, g_updated = at\<rparr>"

text \<open>\<open>UPDATE games SET ...\<close>: everything but the owner, the story and the creation time.\<close>

definition updated_row :: "time \<Rightarrow> session \<Rightarrow> game_row \<Rightarrow> game_row" where
  "updated_row at s g = g\<lparr>g_state := s_state s, g_transcript := s_transcript s, g_turn := s_turn s,
     g_halted := s_halted s, g_status := bind_status (s_status s),
     g_version := g_version g + 1, g_updated := at\<rparr>"

definition games_create :: "unicode \<Rightarrow> env \<Rightarrow> session \<Rightarrow> db \<Rightarrow> session result \<times> db" where
  "games_create u e s d =
     (case user_row_id u (s_user s) of
        Inl err \<Rightarrow> (Inl (Wrap ''database: create session'' err), d)
      | Inr owner \<Rightarrow>
         (case db_conn e 0 of
            Inl err \<Rightarrow> (Inl err, d)
          | Inr _ \<Rightarrow>
              let row = game_row_of owner (now e) s;
                  refused = (\<lambda>err. (Inl (Wrap ''database: create session'' err), d)) in
              (case db_use e 1 of
                 Inl err \<Rightarrow> refused err
               | Inr _ \<Rightarrow>
                  (case next_rowid (d_games d) of
                     None \<Rightarrow> refused disk_full
                   | Some k \<Rightarrow>
                       if \<not> check_game row then refused (constraint_failed ''CHECK'')
                       else if map_of (d_users d) owner = None then refused (constraint_failed ''FOREIGN KEY'')
                       else (Inr (s\<lparr>s_id := id_of k, s_version := 1\<rparr>),
                             d\<lparr>d_games := (k, row) # d_games d\<rparr>)))))"

text \<open>\<open>loadSession\<close>, run as the call's \<open>j\<close>-th use of the connection.\<close>

definition load_session :: "env \<Rightarrow> nat \<Rightarrow> int \<Rightarrow> int \<Rightarrow> db \<Rightarrow> session result" where
  "load_session e j owner k d =
     bind_r (wrap_r (''database: session '' @ format_int k @ '': load'') (db_use e j))
       (\<lambda>_. case map_of (d_games d) k of
          Some g \<Rightarrow> if g_user g = owner then Inr (session_of_row k g)
            else Inl (Wrap (''database: session '' @ format_int k) (Sentinel ErrSessionNotFound))
        | None \<Rightarrow> Inl (Wrap (''database: session '' @ format_int k) (Sentinel ErrSessionNotFound)))"

definition games_load :: "unicode \<Rightarrow> env \<Rightarrow> string \<Rightarrow> string \<Rightarrow> db \<Rightarrow> session result" where
  "games_load u e user i d =
     (case user_row_id u user of
        Inl _ \<Rightarrow> Inl (Wrap (''database: session '' @ i) (Sentinel ErrSessionNotFound))
      | Inr owner \<Rightarrow> bind_r (row_id u i) (\<lambda>k. bind_r (db_conn e 0) (\<lambda>_. load_session e 1 owner k d)))"

definition games_update :: "unicode \<Rightarrow> env \<Rightarrow> session \<Rightarrow> db \<Rightarrow> session result \<times> db" where
  "games_update u e s d =
     (case user_row_id u (s_user s) of
        Inl _ \<Rightarrow> (Inl (Wrap (''database: session '' @ s_id s) (Sentinel ErrSessionNotFound)), d)
      | Inr owner \<Rightarrow>
         (case row_id u (s_id s) of
            Inl err \<Rightarrow> (Inl err, d)
          | Inr k \<Rightarrow>
             (case db_conn e 0 of
                Inl err \<Rightarrow> (Inl err, d)
              | Inr _ \<Rightarrow>
                 (case db_use e 1 of
                    Inl err \<Rightarrow> (Inl (Wrap (''database: session '' @ s_id s @ '': update'') err), d)
                  | Inr _ \<Rightarrow>
                     (case map_of (d_games d) k of
                        Some g \<Rightarrow>
                          if g_user g = owner \<and> g_version g = s_version s then
                            if check_game (updated_row (now e) s g)
                            then (Inr (s\<lparr>s_version := s_version s + 1\<rparr>),
                                  d\<lparr>d_games := AList.update k (updated_row (now e) s g) (d_games d)\<rparr>)
                            else (Inl (Wrap (''database: session '' @ s_id s @ '': update'')
                                    (constraint_failed ''CHECK'')), d)
                          else (case load_session e 2 owner k d of
                              Inl err \<Rightarrow> (Inl err, d)
                            | Inr _ \<Rightarrow> (Inl (Wrap (''database: session '' @ s_id s) (Sentinel ErrVersionConflict)), d))
                      | None \<Rightarrow> (case load_session e 2 owner k d of
                            Inl err \<Rightarrow> (Inl err, d)
                          | Inr _ \<Rightarrow> (Inl (Wrap (''database: session '' @ s_id s) (Sentinel ErrVersionConflict)), d)))))))"

definition summary_of_row :: "int \<times> game_row \<Rightarrow> summary" where
  "summary_of_row p = \<lparr>y_id = id_of (fst p), y_key = g_key (snd p), y_turn = g_turn (snd p),
     y_halted = g_halted (snd p), y_updated = g_updated (snd p)\<rparr>"

text \<open>\<open>ORDER BY updated_at DESC, id DESC\<close>.\<close>

definition games_list :: "unicode \<Rightarrow> env \<Rightarrow> string \<Rightarrow> db \<Rightarrow> summary list result" where
  "games_list u e user d =
     (case user_row_id u user of
        Inl _ \<Rightarrow> Inr []
      | Inr owner \<Rightarrow>
          bind_r (db_conn e 0) (\<lambda>_.
            bind_r (wrap_r (''database: user '' @ user @ '': list games'') (db_use e 1)) (\<lambda>_.
              Inr (map summary_of_row
                (sort_key (\<lambda>p. (- g_updated (snd p), - fst p))
                  (filter (\<lambda>p. g_user (snd p) = owner) (d_games d)))))))"

definition games_delete :: "unicode \<Rightarrow> env \<Rightarrow> string \<Rightarrow> string \<Rightarrow> db \<Rightarrow> unit result \<times> db" where
  "games_delete u e user i d =
     (case user_row_id u user of
        Inl _ \<Rightarrow> (Inl (Wrap (''database: session '' @ i) (Sentinel ErrSessionNotFound)), d)
      | Inr owner \<Rightarrow>
         (case row_id u i of
            Inl err \<Rightarrow> (Inl err, d)
          | Inr k \<Rightarrow>
             (case db_conn e 0 of
                Inl err \<Rightarrow> (Inl err, d)
              | Inr _ \<Rightarrow>
                 (case db_use e 1 of
                    Inl err \<Rightarrow> (Inl (Wrap (''database: session '' @ i @ '': delete'') err), d)
                  | Inr _ \<Rightarrow>
                     (case map_of (d_games d) k of
                        Some g \<Rightarrow> if g_user g = owner then (Inr (), drop_game k d)
                          else (Inl (Wrap (''database: session '' @ i) (Sentinel ErrSessionNotFound)), d)
                      | None \<Rightarrow> (Inl (Wrap (''database: session '' @ i) (Sentinel ErrSessionNotFound)), d))))))"

section \<open>Saves\<close>

definition owns_game :: "env \<Rightarrow> nat \<Rightarrow> int \<Rightarrow> int \<Rightarrow> db \<Rightarrow> unit result" where
  "owns_game e j owner game d =
     bind_r (wrap_r (''database: session '' @ format_int game) (db_use e j))
       (\<lambda>_. case map_of (d_games d) game of
          Some g \<Rightarrow> if g_user g = owner then Inr ()
            else Inl (Wrap (''database: session '' @ format_int game) (Sentinel ErrSessionNotFound))
        | None \<Rightarrow> Inl (Wrap (''database: session '' @ format_int game) (Sentinel ErrSessionNotFound)))"

text \<open>The row a name occupies, or zero; the last row the query returns wins.\<close>

definition save_id_by_name :: "unicode \<Rightarrow> env \<Rightarrow> nat \<Rightarrow> int \<Rightarrow> string \<Rightarrow> db \<Rightarrow> int result" where
  "save_id_by_name u e j game name d =
     bind_r (wrap_r (''database: session '' @ format_int game @ '': find save '' @ quote u name) (db_use e j))
       (\<lambda>_. Inr (fold (\<lambda>p i. if r_game (snd p) = game \<and> nocase (r_name (snd p)) name then fst p else i)
                  (d_saves d) 0))"

definition count_saves :: "env \<Rightarrow> nat \<Rightarrow> int \<Rightarrow> db \<Rightarrow> nat result" where
  "count_saves e j game d =
     bind_r (wrap_r (''database: session '' @ format_int game @ '': count saves'') (db_use e j))
       (\<lambda>_. Inr (length (filter (\<lambda>p. r_game (snd p) = game) (d_saves d))))"

definition save_row_of :: "int \<Rightarrow> snapshot \<Rightarrow> save_row" where
  "save_row_of game n = \<lparr>r_game = game, r_name = n_name n, r_key = n_key n, r_state = the (n_state n),
     r_transcript = n_transcript n, r_turn = n_turn n, r_status = bind_status (n_status n),
     r_created = n_created n\<rparr>"

definition insert_save :: "env \<Rightarrow> nat \<Rightarrow> int \<Rightarrow> snapshot \<Rightarrow> db \<Rightarrow> (int \<times> db) result" where
  "insert_save e j game n d =
     wrap_r (''database: session '' @ format_int game @ '': write save'')
       (bind_r (db_use e j) (\<lambda>_.
          case next_rowid (d_saves d) of
            None \<Rightarrow> Inl disk_full
          | Some k \<Rightarrow>
              let row = save_row_of game n in
              if \<not> check_save row then Inl (constraint_failed ''CHECK'')
              else if map_of (d_games d) game = None then Inl (constraint_failed ''FOREIGN KEY'')
              else if \<not> name_free d None game (n_name n) then Inl (constraint_failed ''UNIQUE'')
              else Inr (k, d\<lparr>d_saves := (k, row) # d_saves d\<rparr>)))"

definition replace_save :: "env \<Rightarrow> nat \<Rightarrow> int \<Rightarrow> snapshot \<Rightarrow> db \<Rightarrow> db result" where
  "replace_save e j k n d =
     wrap_r (''database: save '' @ format_int k @ '': replace'')
       (bind_r (db_use e j) (\<lambda>_.
          case map_of (d_saves d) k of
            None \<Rightarrow> Inr d
          | Some r \<Rightarrow>
              let row = save_row_of (r_game r) n in
              if \<not> check_save row then Inl (constraint_failed ''CHECK'')
              else if \<not> name_free d (Some k) (r_game r) (n_name n) then Inl (constraint_failed ''UNIQUE'')
              else Inr (d\<lparr>d_saves := AList.update k row (d_saves d)\<rparr>)))"

text \<open>
  The body of CreateSave inside the transaction: the row written, whether it was there
  before, the connection uses so far, and the tables to commit.
\<close>

definition write_save ::
  "unicode \<Rightarrow> env \<Rightarrow> int \<Rightarrow> int \<Rightarrow> snapshot \<Rightarrow> db \<Rightarrow> (int \<times> bool \<times> nat \<times> db) result" where
  "write_save u e owner game n d =
     bind_r (owns_game e 2 owner game d) (\<lambda>_.
     bind_r (save_id_by_name u e 3 game (n_name n) d) (\<lambda>existing.
       if existing \<noteq> 0 then
         bind_r (replace_save e 4 existing n d) (\<lambda>d'. Inr (existing, True, 5, d'))
       else
         bind_r (count_saves e 4 game d) (\<lambda>held.
           if max_saves_per_game \<le> held
           then Inl (Wrap (''database: session '' @ n_game n @ '': '' @ nat_digits held @ '' saves'')
                  (Sentinel ErrTooManySaves))
           else bind_r (insert_save e 5 game n d) (\<lambda>(k, d'). Inr (k, False, 6, d')))))"

text \<open>
  The deferred \<open>end(&err)\<close> commits, and rolls back when the commit fails; but the results are
  not named, so the error it then stores in \<open>err\<close> is not the one the caller gets.
\<close>

definition games_create_save :: "unicode \<Rightarrow> env \<Rightarrow> snapshot \<Rightarrow> db \<Rightarrow> (save \<times> bool) result \<times> db" where
  "games_create_save u e n d =
     (case user_row_id u (n_user n) of
        Inl _ \<Rightarrow> (Inl (Wrap (''database: session '' @ n_game n) (Sentinel ErrSessionNotFound)), d)
      | Inr owner \<Rightarrow>
         (case row_id u (n_game n) of
            Inl err \<Rightarrow> (Inl err, d)
          | Inr game \<Rightarrow>
              if no_bytes (n_state n)
              then (Inl (Opaque (''database: session '' @ n_game n @ '': save '' @ quote u (n_name n) @ '': no state'')), d)
              else
               (case db_conn e 0 of
                  Inl err \<Rightarrow> (Inl err, d)
                | Inr _ \<Rightarrow>
                   (case db_use e 1 of
                      Inl err \<Rightarrow> (Inl (Wrap (''database: session '' @ n_game n @ '': write save'') err), d)
                    | Inr _ \<Rightarrow>
                       (case write_save u e owner game (n\<lparr>n_created := now e\<rparr>) d of
                          Inl err \<Rightarrow> (Inl err, d)
                        | Inr (k, replaced, j, d') \<Rightarrow>
                            (Inr (\<lparr>sv_id = id_of k, sv_name = n_name n, sv_turn = n_turn n,
                                   sv_created = now e\<rparr>, replaced),
                             if ctx_err e j = None then d' else d))))))"

definition save_of_row :: "int \<times> save_row \<Rightarrow> save" where
  "save_of_row p = \<lparr>sv_id = id_of (fst p), sv_name = r_name (snd p), sv_turn = r_turn (snd p),
     sv_created = r_created (snd p)\<rparr>"

definition games_saves :: "unicode \<Rightarrow> env \<Rightarrow> string \<Rightarrow> string \<Rightarrow> db \<Rightarrow> save list result" where
  "games_saves u e user i d =
     (case user_row_id u user of
        Inl _ \<Rightarrow> Inl (Wrap (''database: session '' @ i) (Sentinel ErrSessionNotFound))
      | Inr owner \<Rightarrow>
          bind_r (row_id u i) (\<lambda>game.
          bind_r (db_conn e 0) (\<lambda>_.
          bind_r (owns_game e 1 owner game d) (\<lambda>_.
          bind_r (wrap_r (''database: session '' @ i @ '': list saves'') (db_use e 2)) (\<lambda>_.
            Inr (map save_of_row
              (sort_key (\<lambda>p. (- r_created (snd p), - fst p))
                (filter (\<lambda>p. r_game (snd p) = game) (d_saves d)))))))))"

definition snapshot_of_row :: "string \<Rightarrow> string \<Rightarrow> int \<Rightarrow> save_row \<Rightarrow> snapshot" where
  "snapshot_of_row user i k r = \<lparr>n_id = id_of k, n_user = user, n_game = i, n_name = r_name r,
     n_key = r_key r, n_state = read_state (Some (r_state r)), n_transcript = r_transcript r,
     n_status = read_status (r_status r), n_turn = r_turn r, n_created = r_created r\<rparr>"

definition games_load_save ::
  "unicode \<Rightarrow> env \<Rightarrow> string \<Rightarrow> string \<Rightarrow> string \<Rightarrow> db \<Rightarrow> snapshot result" where
  "games_load_save u e user i k d =
     (case user_row_id u user of
        Inl _ \<Rightarrow> Inl (Wrap (''database: session '' @ i) (Sentinel ErrSessionNotFound))
      | Inr owner \<Rightarrow>
          bind_r (row_id u i) (\<lambda>game.
          bind_r (save_row_id u k) (\<lambda>row.
          bind_r (db_conn e 0) (\<lambda>_.
          bind_r (owns_game e 1 owner game d) (\<lambda>_.
          bind_r (wrap_r (''database: session '' @ i @ '': load save '' @ k) (db_use e 2)) (\<lambda>_.
            case map_of (d_saves d) row of
              Some r \<Rightarrow> if r_game r = game then Inr (snapshot_of_row user i row r)
                else Inl (Wrap (''database: session '' @ i @ '': save '' @ k) (Sentinel ErrSaveNotFound))
            | None \<Rightarrow> Inl (Wrap (''database: session '' @ i @ '': save '' @ k) (Sentinel ErrSaveNotFound))))))))"

definition games_delete_save ::
  "unicode \<Rightarrow> env \<Rightarrow> string \<Rightarrow> string \<Rightarrow> string \<Rightarrow> db \<Rightarrow> save result \<times> db" where
  "games_delete_save u e user i k d =
     (case bind_r (games_load_save u e user i k d) (\<lambda>n.
             bind_r (save_row_id u k) (\<lambda>row.
             bind_r (db_conn e 3) (\<lambda>_.
             bind_r (row_id u i) (\<lambda>game.
             bind_r (wrap_r (''database: session '' @ i @ '': delete save '' @ k) (db_use e 4)) (\<lambda>_.
               case map_of (d_saves d) row of
                 Some r \<Rightarrow> if r_game r = game then Inr (n, row)
                   else Inl (Wrap (''database: session '' @ i @ '': save '' @ k) (Sentinel ErrSaveNotFound))
               | None \<Rightarrow> Inl (Wrap (''database: session '' @ i @ '': save '' @ k) (Sentinel ErrSaveNotFound))))))) of
        Inl err \<Rightarrow> (Inl err, d)
      | Inr (n, row) \<Rightarrow>
          (Inr \<lparr>sv_id = n_id n, sv_name = n_name n, sv_turn = n_turn n, sv_created = n_created n\<rparr>,
           d\<lparr>d_saves := AList.delete row (d_saves d)\<rparr>))"

definition games_ops :: "unicode \<Rightarrow> db store_ops" where
  "games_ops u = \<lparr>st_create = games_create u, st_load = games_load u, st_update = games_update u,
     st_list = games_list u, st_delete = games_delete u, st_create_save = games_create_save u,
     st_saves = games_saves u, st_load_save = games_load_save u, st_delete_save = games_delete_save u\<rparr>"

end
