(* ===== verification/Db_Store.thy ===== *)
theory Db_Store
  imports Db_Games
begin

text \<open>
  The database keeps the promises of the game store: the invariant of the two tables, how a
  state is seen through the interface's identifiers, what each method does to what is seen,
  and the interpretation of \<open>game_store\<close> on \<open>Sessions\<close>.
\<close>

section \<open>What is seen\<close>

text \<open>The row an identifier names, when it is written the way the database writes it.\<close>

definition canon :: "string \<Rightarrow> int option" where
  "canon i = (case parse_int64 i of
     Some k \<Rightarrow> if rowid_ok k \<and> id_of k = i then Some k else None | None \<Rightarrow> None)"

lemma canon_Some: "canon i = Some k \<longleftrightarrow> i = id_of k \<and> rowid_ok k"
  by (auto simp: canon_def split: option.splits)

lemma canon_id_of [simp]: "rowid_ok k \<Longrightarrow> canon (id_of k) = Some k"
  by (simp add: canon_Some)

definition db_sess :: "db \<Rightarrow> string \<Rightarrow> session option" where
  "db_sess d i = (case canon i of
     Some k \<Rightarrow> map_option (session_of_row k) (map_of (d_games d) k) | None \<Rightarrow> None)"

definition db_shelf :: "db \<Rightarrow> string \<Rightarrow> string \<Rightarrow> snapshot option" where
  "db_shelf d i k = (case (canon i, canon k) of
     (Some g, Some j) \<Rightarrow>
       (case (map_of (d_games d) g, map_of (d_saves d) j) of
          (Some gr, Some r) \<Rightarrow> if r_game r = g then Some (snapshot_of_row (id_of (g_user gr)) i j r) else None
        | _ \<Rightarrow> None)
   | _ \<Rightarrow> None)"

definition db_known :: "db \<Rightarrow> string \<Rightarrow> bool" where
  "db_known d user \<longleftrightarrow> (\<exists>k. canon user = Some k \<and> map_of (d_users d) k \<noteq> None)"

definition db_up :: "env \<Rightarrow> bool" where
  "db_up e \<longleftrightarrow> (\<forall>k < 8. ctx_err e k = None)"

definition db_room :: "db \<Rightarrow> bool" where
  "db_room d \<longleftrightarrow> next_rowid (d_games d) \<noteq> None \<and> next_rowid (d_saves d) \<noteq> None"

lemma db_sess_Some:
  "db_sess d i = Some s \<longleftrightarrow>
     (\<exists>k g. i = id_of k \<and> rowid_ok k \<and> map_of (d_games d) k = Some g \<and> s = session_of_row k g)"
  by (auto simp: db_sess_def canon_Some split: option.splits)

lemma db_sess_id_of: "rowid_ok k \<Longrightarrow> db_sess d (id_of k) = map_option (session_of_row k) (map_of (d_games d) k)"
  by (simp add: db_sess_def)

lemma db_shelf_Some:
  "db_shelf d i k = Some n \<longleftrightarrow>
     (\<exists>g j gr r. i = id_of g \<and> rowid_ok g \<and> k = id_of j \<and> rowid_ok j \<and> map_of (d_games d) g = Some gr
        \<and> map_of (d_saves d) j = Some r \<and> r_game r = g \<and> n = snapshot_of_row (id_of (g_user gr)) i j r)"
proof
  assume "db_shelf d i k = Some n"
  then obtain g j where c: "canon i = Some g" "canon k = Some j"
    by (auto simp: db_shelf_def split: option.splits)
  with \<open>db_shelf d i k = Some n\<close> obtain gr r where "map_of (d_games d) g = Some gr" "map_of (d_saves d) j = Some r"
    "r_game r = g" "n = snapshot_of_row (id_of (g_user gr)) i j r"
    by (auto simp: db_shelf_def split: option.splits if_splits)
  with c show "\<exists>g j gr r. i = id_of g \<and> rowid_ok g \<and> k = id_of j \<and> rowid_ok j \<and> map_of (d_games d) g = Some gr
        \<and> map_of (d_saves d) j = Some r \<and> r_game r = g \<and> n = snapshot_of_row (id_of (g_user gr)) i j r"
    unfolding canon_Some by blast
qed (auto simp: db_shelf_def)

lemma db_upD: "db_up e \<Longrightarrow> k < 8 \<Longrightarrow> ctx_err e k = None"
  by (simp add: db_up_def)

lemma session_of_row_simps [simp]:
  "s_id (session_of_row k g) = id_of k" "s_user (session_of_row k g) = id_of (g_user g)"
  "s_key (session_of_row k g) = g_key g" "s_version (session_of_row k g) = g_version g"
  "s_halted (session_of_row k g) = g_halted g" "s_state (session_of_row k g) = read_state (g_state g)"
  by (simp_all add: session_of_row_def)

lemma snapshot_of_row_simps [simp]:
  "n_id (snapshot_of_row u i k r) = id_of k" "n_user (snapshot_of_row u i k r) = u"
  "n_game (snapshot_of_row u i k r) = i" "n_name (snapshot_of_row u i k r) = r_name r"
  "n_state (snapshot_of_row u i k r) = read_state (Some (r_state r))"
  "n_turn (snapshot_of_row u i k r) = r_turn r" "n_created (snapshot_of_row u i k r) = r_created r"
  by (simp_all add: snapshot_of_row_def)

lemma storable_row: "storable (session_of_row k g) \<longleftrightarrow> check_game g"
  by (auto simp: storable_def check_game_def read_state_def no_bytes_def split: option.splits)

lemma session_row_round:
  "storable s \<Longrightarrow> s_user s = id_of owner \<Longrightarrow>
    session_of_row k (game_row_of owner at s) = s\<lparr>s_id := id_of k, s_version := 1\<rparr>"
  by (auto simp: session_of_row_def game_row_of_def read_state_def storable_def split: option.splits)

lemma session_row_update:
  "storable s \<Longrightarrow> s_user s = id_of (g_user g) \<Longrightarrow> s_key s = g_key g \<Longrightarrow> s_version s = g_version g \<Longrightarrow>
    s_id s = id_of k \<Longrightarrow> session_of_row k (updated_row at s g) = s\<lparr>s_version := s_version s + 1\<rparr>"
  by (auto simp: session_of_row_def updated_row_def read_state_def storable_def split: option.splits)

lemma snapshot_row_round:
  "\<not> no_bytes (n_state n) \<Longrightarrow>
    snapshot_of_row (n_user n) (n_game n) k (save_row_of game (n\<lparr>n_created := t\<rparr>)) = stored_as (id_of k) t n"
  by (auto simp: snapshot_of_row_def save_row_of_def stored_as_def read_state_def no_bytes_def split: option.splits)

section \<open>The invariant\<close>

definition game_ok :: "db \<Rightarrow> int \<Rightarrow> game_row \<Rightarrow> bool" where
  "game_ok d k g \<longleftrightarrow> rowid_ok k \<and> check_game g \<and> rowid_ok (g_user g) \<and> map_of (d_users d) (g_user g) \<noteq> None"

definition save_ok :: "db \<Rightarrow> int \<Rightarrow> save_row \<Rightarrow> bool" where
  "save_ok d k r \<longleftrightarrow> rowid_ok k \<and> check_save r \<and> rowid_ok (r_game r) \<and> map_of (d_games d) (r_game r) \<noteq> None"

definition names_ok :: "(int \<times> save_row) list \<Rightarrow> bool" where
  "names_ok t \<longleftrightarrow> (\<forall>j k r q. map_of t j = Some r \<longrightarrow> map_of t k = Some q \<longrightarrow>
     r_game r = r_game q \<longrightarrow> nocase (r_name r) (r_name q) \<longrightarrow> j = k)"

definition saves_of :: "(int \<times> save_row) list \<Rightarrow> int \<Rightarrow> int set" where
  "saves_of t g = {k. \<exists>r. map_of t k = Some r \<and> r_game r = g}"

definition db_inv :: "db \<Rightarrow> bool" where
  "db_inv d \<longleftrightarrow> distinct (keys (d_games d)) \<and> distinct (keys (d_saves d))
     \<and> (\<forall>k g. map_of (d_games d) k = Some g \<longrightarrow> game_ok d k g)
     \<and> (\<forall>k r. map_of (d_saves d) k = Some r \<longrightarrow> save_ok d k r)
     \<and> names_ok (d_saves d) \<and> (\<forall>g. card (saves_of (d_saves d) g) \<le> max_saves_per_game)"

lemma db_inv_empty: "db_inv (empty_db\<lparr>d_users := us\<rparr>)"
  by (simp add: db_inv_def empty_db_def names_ok_def saves_of_def)

lemma db_inv_game:
  assumes "db_inv d" "map_of (d_games d) k = Some g"
  shows "rowid_ok k" "check_game g" "rowid_ok (g_user g)" "map_of (d_users d) (g_user g) \<noteq> None"
  using assms unfolding db_inv_def game_ok_def by blast+

lemma db_inv_save:
  assumes "db_inv d" "map_of (d_saves d) k = Some r"
  shows "rowid_ok k" "check_save r" "rowid_ok (r_game r)" "map_of (d_games d) (r_game r) \<noteq> None"
  using assms unfolding db_inv_def save_ok_def by blast+

lemma db_inv_names:
  assumes "db_inv d" "map_of (d_saves d) j = Some r" "map_of (d_saves d) k = Some q"
    "r_game r = r_game q" "nocase (r_name r) (r_name q)"
  shows "j = k"
  using assms unfolding db_inv_def names_ok_def by blast

lemma finite_saves_of [simp]: "finite (saves_of t g)"
proof -
  have "saves_of t g \<subseteq> fst ` set t" by (auto simp: saves_of_def dest!: map_of_SomeD intro: rev_image_eqI)
  then show ?thesis using finite_subset by blast
qed

lemma dom_shelf:
  assumes "db_inv d"
  shows "dom (db_shelf d (id_of g)) = (if rowid_ok g then id_of ` saves_of (d_saves d) g else {})"
proof -
  have "k \<in> dom (db_shelf d (id_of g)) \<longleftrightarrow> rowid_ok g \<and> k \<in> id_of ` saves_of (d_saves d) g" for k
  proof
    assume "k \<in> dom (db_shelf d (id_of g))"
    then show "rowid_ok g \<and> k \<in> id_of ` saves_of (d_saves d) g"
      by (auto simp: dom_def db_shelf_Some saves_of_def)
  next
    assume "rowid_ok g \<and> k \<in> id_of ` saves_of (d_saves d) g"
    then obtain j r where "rowid_ok g" "k = id_of j" "map_of (d_saves d) j = Some r" "r_game r = g"
      by (auto simp: saves_of_def)
    moreover from this have "rowid_ok j" "map_of (d_games d) g \<noteq> None"
      using db_inv_save [OF assms, of j r] by auto
    ultimately show "k \<in> dom (db_shelf d (id_of g))" by (auto simp: dom_def db_shelf_def)
  qed
  then show ?thesis by auto
qed

lemma card_shelf:
  assumes "db_inv d" "rowid_ok g"
  shows "card (dom (db_shelf d (id_of g))) = card (saves_of (d_saves d) g)"
proof -
  have "inj_on id_of (saves_of (d_saves d) g)" by (simp add: inj_on_def)
  then show ?thesis using dom_shelf [OF assms(1)] assms(2) by (simp add: card_image)
qed

lemma db_shelf_bound:
  assumes "db_inv d"
  shows "finite (dom (db_shelf d i)) \<and> card (dom (db_shelf d i)) \<le> max_saves_per_game"
proof (cases "canon i")
  case None
  then have "db_shelf d i = Map.empty" by (auto simp: db_shelf_def fun_eq_iff)
  then show ?thesis by simp
next
  case (Some g)
  then show ?thesis using card_shelf [OF assms] dom_shelf [OF assms] assms
    by (auto simp: canon_Some db_inv_def)
qed

lemma count_saves_of:
  assumes "distinct (keys t)"
  shows "length (filter (\<lambda>p. r_game (snd p) = g) t) = card (saves_of t g)"
proof -
  let ?l = "filter (\<lambda>p. r_game (snd p) = g) t"
  have "saves_of t g = set (keys ?l)"
    using assms by (auto simp: saves_of_def mem_map_of [symmetric] image_iff)
  moreover have "distinct (keys ?l)" using assms by (rule distinct_keys_filter)
  ultimately show ?thesis by (metis distinct_card length_map)
qed

section \<open>What each method does\<close>

lemma wrap_r_Inr' [simp]: "m = Inr x \<Longrightarrow> wrap_r msg m = Inr x"
  by simp

lemma load_session_Inr [result_iff]:
  "load_session e j owner k d = Inr s \<longleftrightarrow>
     ctx_err e j = None \<and> (\<exists>g. map_of (d_games d) k = Some g \<and> g_user g = owner \<and> s = session_of_row k g)"
  by (auto simp: load_session_def result_iff split: option.splits)

lemma owns_game_Inr [result_iff]:
  "owns_game e j owner k d = Inr y \<longleftrightarrow>
     ctx_err e j = None \<and> (\<exists>g. map_of (d_games d) k = Some g \<and> g_user g = owner)"
  by (auto simp: owns_game_def result_iff split: option.splits)

lemma games_load_Inr:
  "games_load u e user i d = Inr s \<longleftrightarrow>
     (\<exists>owner k g. user_row_id u user = Inr owner \<and> row_id u i = Inr k \<and> ctx_err e 0 = None \<and> ctx_err e 1 = None
        \<and> map_of (d_games d) k = Some g \<and> g_user g = owner \<and> s = session_of_row k g)"
  by (cases "user_row_id u user") (auto simp: games_load_def bind_r_Inr load_session_Inr db_conn_Inr)

lemma known_owner: "db_known d user \<Longrightarrow> user_row_id u user = Inr k \<Longrightarrow> user = id_of k"
  by (auto simp: db_known_def canon_Some)

lemma owned_row:
  "owned (db_sess d) user i \<longleftrightarrow>
     (\<exists>k g. i = id_of k \<and> rowid_ok k \<and> map_of (d_games d) k = Some g \<and> user = id_of (g_user g))"
  by (auto simp: owned_def db_sess_Some)

lemma games_load_Inl:
  assumes "db_up e" "wf_i = canon i" "wf_i \<noteq> None" "db_known d user" "\<not> owned (db_sess d) user i"
  shows "\<exists>err. games_load u e user i d = Inl err \<and> errors_is err ErrSessionNotFound"
proof -
  obtain k where k: "i = id_of k" "rowid_ok k" using assms(2,3) by (auto simp: canon_Some)
  obtain w where w: "user = id_of w" "rowid_ok w" using assms(4) by (auto simp: db_known_def canon_Some)
  have "\<not> (\<exists>g. map_of (d_games d) k = Some g \<and> g_user g = w)" using assms(5) k w by (auto simp: owned_row)
  then show ?thesis using k w db_upD [OF assms(1), of 0] db_upD [OF assms(1), of 1]
    by (auto simp: games_load_def load_session_def split: option.splits)
qed

lemma db_inv_games_put:
  assumes "db_inv d" "game_ok d k g" "d' = d\<lparr>d_games := t\<rparr>" "distinct (keys t)"
    "map_of t = (map_of (d_games d))(k \<mapsto> g)"
  shows "db_inv d'"
proof -
  have "game_ok d' j h" if "map_of t j = Some h" for j h
  proof -
    have "game_ok d j h" using that assms(1,2,5) by (cases "j = k") (auto simp: db_inv_def)
    then show ?thesis by (simp add: game_ok_def assms(3))
  qed
  moreover have "save_ok d' j r" if "map_of (d_saves d) j = Some r" for j r
    using db_inv_save [OF assms(1) that] by (simp add: save_ok_def assms(3,5))
  ultimately show ?thesis using assms by (simp add: db_inv_def)
qed

text \<open>A write of one game row, as the interface sees it.\<close>

lemma db_sess_put:
  assumes "map_of t = (map_of (d_games d))(k \<mapsto> g)" "rowid_ok k"
  shows "db_sess (d\<lparr>d_games := t\<rparr>) = (db_sess d)(id_of k \<mapsto> session_of_row k g)"
proof
  fix i
  show "db_sess (d\<lparr>d_games := t\<rparr>) i = ((db_sess d)(id_of k \<mapsto> session_of_row k g)) i"
    using assms by (cases "canon i") (auto simp: db_sess_def canon_Some)
qed

lemma db_shelf_put:
  assumes "map_of t = (map_of (d_games d))(k \<mapsto> g)"
    "\<And>h. map_of (d_games d) k = Some h \<Longrightarrow> g_user h = g_user g"
    "map_of (d_games d) k = None \<Longrightarrow> saves_of (d_saves d) k = {}"
  shows "db_shelf (d\<lparr>d_games := t\<rparr>) = db_shelf d"
proof (intro ext)
  fix i j
  show "db_shelf (d\<lparr>d_games := t\<rparr>) i j = db_shelf d i j"
  proof (cases "canon i = Some k \<and> canon j \<noteq> None")
    case True
    then show ?thesis using assms
      by (cases "map_of (d_games d) k") (auto simp: db_shelf_def saves_of_def split: option.splits)
  next
    case False
    then show ?thesis by (auto simp: db_shelf_def assms(1) split: option.splits)
  qed
qed

lemma games_create_cases:
  "games_create u e s d = (r, d') \<Longrightarrow> (\<exists>err. r = Inl err \<and> d' = d) \<or>
     (\<exists>owner k. user_row_id u (s_user s) = Inr owner \<and> next_rowid (d_games d) = Some k
        \<and> check_game (game_row_of owner (now e) s) \<and> map_of (d_users d) owner \<noteq> None
        \<and> r = Inr (s\<lparr>s_id := id_of k, s_version := 1\<rparr>)
        \<and> d' = d\<lparr>d_games := (k, game_row_of owner (now e) s) # d_games d\<rparr>)"
  by (auto simp: games_create_def Let_def split: sum.splits option.splits if_splits)

lemma saves_of_fresh:
  assumes "db_inv d" "map_of (d_games d) k = None"
  shows "saves_of (d_saves d) k = {}"
  using db_inv_save(4) [OF assms(1)] assms(2) unfolding saves_of_def by blast

lemma games_create_effect:
  assumes "db_inv d" "db_known d (s_user s)" "storable s" "games_create u e s d = (Inr s', d')"
  shows "\<exists>k. s' = s\<lparr>s_id := k, s_version := 1\<rparr> \<and> db_sess d k = None
    \<and> db_sess d' = (db_sess d)(k \<mapsto> s') \<and> db_shelf d' = db_shelf d \<and> db_inv d' \<and> d_users d' = d_users d"
proof -
  obtain owner k where o: "user_row_id u (s_user s) = Inr owner" and k: "next_rowid (d_games d) = Some k"
      and c: "check_game (game_row_of owner (now e) s)" "map_of (d_users d) owner \<noteq> None"
      and s': "s' = s\<lparr>s_id := id_of k, s_version := 1\<rparr>"
      and d': "d' = d\<lparr>d_games := (k, game_row_of owner (now e) s) # d_games d\<rparr>"
    using games_create_cases [OF assms(4)] by auto
  let ?g = "game_row_of owner (now e) s"
  have u: "s_user s = id_of owner" "rowid_ok owner" using known_owner [OF assms(2) o] o by (auto simp: result_iff)
  have f: "k \<notin> set (keys (d_games d))" "rowid_ok k" using next_rowid_fresh [OF k] by auto
  then have n: "map_of (d_games d) k = None" by (simp add: map_of_eq_None_iff)
  have m: "map_of ((k, ?g) # d_games d) = (map_of (d_games d))(k \<mapsto> ?g)" by simp
  have g: "game_ok d k ?g" using f u c by (simp add: game_ok_def game_row_of_def)
  have "db_inv d'" using db_inv_games_put [OF assms(1) g d' _ m] f assms(1) by (simp add: db_inv_def)
  moreover have "db_sess d' = (db_sess d)(id_of k \<mapsto> s')"
    unfolding d' db_sess_put [OF m f(2)] s' session_row_round [OF assms(3) u(1)] ..
  moreover have "db_shelf d' = db_shelf d"
    unfolding d' using db_shelf_put [OF m] saves_of_fresh [OF assms(1) n] n by simp
  moreover have "db_sess d (id_of k) = None" using n f by (simp add: db_sess_id_of)
  ultimately show ?thesis using s' d' by auto
qed

lemma check_game_row_of [simp]: "check_game (game_row_of owner at s) \<longleftrightarrow> s_halted s \<or> \<not> no_bytes (s_state s)"
  by (simp add: check_game_def game_row_of_def)

lemma check_updated_row [simp]: "check_game (updated_row at s g) \<longleftrightarrow> s_halted s \<or> \<not> no_bytes (s_state s)"
  by (simp add: check_game_def updated_row_def)

lemma storable_check: "storable s \<Longrightarrow> s_halted s \<or> \<not> no_bytes (s_state s)"
  by (auto simp: storable_def split: option.splits)

lemma games_create_up:
  assumes "db_up e" "db_room d" "db_known d (s_user s)" "storable s"
  shows "\<exists>s' d'. games_create u e s d = (Inr s', d')"
proof -
  obtain w where w: "s_user s = id_of w" "rowid_ok w" "map_of (d_users d) w \<noteq> None"
    using assms(3) by (auto simp: db_known_def canon_Some)
  obtain k where k: "next_rowid (d_games d) = Some k" using assms(2) by (auto simp: db_room_def)
  show ?thesis
    using w k db_upD [OF assms(1), of 0] db_upD [OF assms(1), of 1] storable_check [OF assms(4)]
    by (auto simp: games_create_def Let_def)
qed

lemma games_create_fail: "games_create u e s d = (Inl err, d') \<Longrightarrow> d' = d"
  using games_create_cases [of u e s d "Inl err" d'] by auto

lemma games_update_Inr:
  "games_update u e s d = (Inr s', d') \<Longrightarrow>
     (\<exists>owner k g. user_row_id u (s_user s) = Inr owner \<and> row_id u (s_id s) = Inr k
        \<and> map_of (d_games d) k = Some g \<and> g_user g = owner \<and> g_version g = s_version s
        \<and> check_game (updated_row (now e) s g) \<and> s' = s\<lparr>s_version := s_version s + 1\<rparr>
        \<and> d' = d\<lparr>d_games := AList.update k (updated_row (now e) s g) (d_games d)\<rparr>)"
  by (auto simp: games_update_def simp del: check_updated_row row_id_Inr split: option.splits if_splits sum.splits)

lemma games_update_fail: "games_update u e s d = (Inl err, d') \<Longrightarrow> d' = d"
  by (auto simp: games_update_def simp del: check_updated_row row_id_Inr split: option.splits if_splits sum.splits)

lemma games_update_effect:
  assumes "db_inv d" "db_sess d (s_id s) = Some c" "s_user c = s_user s" "s_key c = s_key s" "storable s"
    and "games_update u e s d = (Inr s', d')"
  shows "s' = s\<lparr>s_version := s_version s + 1\<rparr> \<and> s_version c = s_version s
    \<and> db_sess d' = (db_sess d)(s_id s \<mapsto> s') \<and> db_shelf d' = db_shelf d \<and> db_inv d' \<and> d_users d' = d_users d"
proof -
  obtain k g where k: "s_id s = id_of k" "rowid_ok k" "map_of (d_games d) k = Some g" "c = session_of_row k g"
    using assms(2) by (auto simp: db_sess_Some)
  then have upd: "g_version g = s_version s" "s' = s\<lparr>s_version := s_version s + 1\<rparr>"
      "d' = d\<lparr>d_games := AList.update k (updated_row (now e) s g) (d_games d)\<rparr>"
      "check_game (updated_row (now e) s g)"
    using games_update_Inr [OF assms(6)] by (auto simp: result_iff)
  let ?g = "updated_row (now e) s g"
  have m: "map_of (AList.update k ?g (d_games d)) = (map_of (d_games d))(k \<mapsto> ?g)" by (simp add: update_conv')
  have g: "game_ok d k ?g" using db_inv_game [OF assms(1) k(3)] upd(4) by (simp add: game_ok_def updated_row_def)
  have "distinct (keys (AList.update k ?g (d_games d)))" using assms(1) by (simp add: db_inv_def distinct_update)
  then have "db_inv d'" using db_inv_games_put [OF assms(1) g upd(3) _ m] by simp
  moreover have "db_sess d' = (db_sess d)(s_id s \<mapsto> s')"
    unfolding upd(3) db_sess_put [OF m k(2)] using session_row_update [OF assms(5), of g k "now e"] assms(3,4) k upd(1,2) by simp
  moreover have "db_shelf d' = db_shelf d"
    unfolding upd(3) using db_shelf_put [OF m] k(3) by (simp add: updated_row_def)
  ultimately show ?thesis using upd k by auto
qed

lemma games_update_up:
  assumes "db_inv d" "db_up e" "db_sess d (s_id s) = Some c" "s_user c = s_user s"
  shows "s_version c = s_version s \<Longrightarrow> storable s \<Longrightarrow> \<exists>s' d'. games_update u e s d = (Inr s', d')"
    and "s_version c \<noteq> s_version s \<Longrightarrow>
      \<exists>err. games_update u e s d = (Inl err, d) \<and> errors_is err ErrVersionConflict"
proof -
  obtain k g where k: "s_id s = id_of k" "rowid_ok k" "map_of (d_games d) k = Some g" "c = session_of_row k g"
    using assms(3) by (auto simp: db_sess_Some)
  then have w: "s_user s = id_of (g_user g)" "rowid_ok (g_user g)"
    using assms(4) db_inv_game [OF assms(1) k(3)] by simp_all
  note live = db_upD [OF assms(2), of 0] db_upD [OF assms(2), of 1] db_upD [OF assms(2), of 2]
  show "s_version c = s_version s \<Longrightarrow> storable s \<Longrightarrow> \<exists>s' d'. games_update u e s d = (Inr s', d')"
    using k w live storable_check [of s] by (auto simp: games_update_def)
  show "s_version c \<noteq> s_version s \<Longrightarrow>
      \<exists>err. games_update u e s d = (Inl err, d) \<and> errors_is err ErrVersionConflict"
    using k w live by (auto simp: games_update_def load_session_def)
qed

text \<open>Deleting a game, with the cascade.\<close>

lemma drop_game_users [simp]: "d_users (drop_game k d) = d_users d"
  by (simp add: drop_game_def)

lemma map_of_kept:
  "distinct (keys t) \<Longrightarrow> map_of (filter (\<lambda>(_, r). r_game r \<noteq> k) t) j =
     (case map_of t j of None \<Rightarrow> None | Some r \<Rightarrow> if r_game r = k then None else Some r)"
  by (auto simp: map_of_filter_other split: option.splits)

lemma drop_game_view:
  assumes "db_inv d" "rowid_ok k"
  shows "db_sess (drop_game k d) = (db_sess d)(id_of k := None)"
    and "db_shelf (drop_game k d) = (db_shelf d)(id_of k := Map.empty)"
    and "db_inv (drop_game k d)"
proof -
  let ?d = "drop_game k d"
  have ds: "distinct (keys (d_games d))" "distinct (keys (d_saves d))" using assms(1) by (simp_all add: db_inv_def)
  have g: "map_of (d_games ?d) = (map_of (d_games d))(k := None)"
    by (simp add: drop_game_def delete_conv')
  have s: "map_of (d_saves ?d) j = (case map_of (d_saves d) j of None \<Rightarrow> None
      | Some r \<Rightarrow> if r_game r = k then None else Some r)" for j
    using map_of_kept [OF ds(2)] by (simp add: drop_game_def)
  show "db_sess ?d = (db_sess d)(id_of k := None)"
    using assms(2) by (auto simp: db_sess_def g fun_eq_iff canon_Some split: option.splits)
  show "db_shelf ?d = (db_shelf d)(id_of k := Map.empty)"
  proof (intro ext)
    fix i j
    show "db_shelf ?d i j = ((db_shelf d)(id_of k := Map.empty)) i j"
      using assms(2) by (cases "i = id_of k") (auto simp: db_shelf_def g s canon_Some split: option.splits if_splits)
  qed
  have "saves_of (d_saves ?d) g \<subseteq> saves_of (d_saves d) g" for g
    by (auto simp: saves_of_def s split: option.splits if_splits)
  then have c: "card (saves_of (d_saves ?d) g) \<le> max_saves_per_game" for g
    using assms(1) card_mono [OF finite_saves_of] le_trans unfolding db_inv_def by meson
  have n: "names_ok (d_saves ?d)"
    unfolding names_ok_def
  proof (intro allI impI)
    fix j l r q
    assume "map_of (d_saves ?d) j = Some r" "map_of (d_saves ?d) l = Some q" "r_game r = r_game q"
      "nocase (r_name r) (r_name q)"
    moreover from this have "map_of (d_saves d) j = Some r" "map_of (d_saves d) l = Some q"
      by (auto simp: s split: option.splits if_splits)
    ultimately show "j = l" using db_inv_names [OF assms(1)] by blast
  qed
  have gk: "game_ok ?d j h" if "map_of (d_games ?d) j = Some h" for j h
  proof -
    have "map_of (d_games d) j = Some h" using that by (simp add: g split: if_splits)
    from db_inv_game [OF assms(1) this] show ?thesis by (simp add: game_ok_def)
  qed
  have sk: "save_ok ?d j r" if "map_of (d_saves ?d) j = Some r" for j r
  proof -
    have "map_of (d_saves d) j = Some r" and k: "r_game r \<noteq> k"
      using that by (auto simp: s split: option.splits if_splits)
    from db_inv_save [OF assms(1) this(1)] k show ?thesis by (simp add: save_ok_def g)
  qed
  have "distinct (keys (d_games ?d))" "distinct (keys (d_saves ?d))"
    using ds by (simp_all add: drop_game_def distinct_delete distinct_keys_filter)
  then show "db_inv ?d" using c n gk sk by (simp add: db_inv_def)
qed

lemma games_delete_Inr:
  "games_delete u e user i d = (Inr x, d') \<Longrightarrow>
     (\<exists>owner k g. user_row_id u user = Inr owner \<and> row_id u i = Inr k
        \<and> map_of (d_games d) k = Some g \<and> g_user g = owner \<and> d' = drop_game k d)"
  by (auto simp: games_delete_def simp del: row_id_Inr split: option.splits if_splits sum.splits)

lemma games_delete_fail: "games_delete u e user i d = (Inl err, d') \<Longrightarrow> d' = d"
  by (auto simp: games_delete_def simp del: row_id_Inr split: option.splits if_splits sum.splits)

section \<open>Writing a save\<close>

definition same_slot :: "int \<Rightarrow> string \<Rightarrow> save_row \<Rightarrow> bool" where
  "same_slot game name r \<longleftrightarrow> r_game r = game \<and> nocase (r_name r) name"

lemma fold_last:
  "fold (\<lambda>p i. if P p then fst p else i) t i0 = (case filter P t of [] \<Rightarrow> i0 | _ \<Rightarrow> fst (last (filter P t)))"
  by (induction t arbitrary: i0) (auto split: list.splits)

lemma save_id_cases:
  assumes "db_inv d"
    and x_def: "x = fold (\<lambda>p i. if r_game (snd p) = game \<and> nocase (r_name (snd p)) name then fst p else i) (d_saves d) 0"
  shows "(x = 0 \<and> (\<forall>k r. map_of (d_saves d) k = Some r \<longrightarrow> \<not> same_slot game name r))
    \<or> (x \<noteq> 0 \<and> (\<exists>r. map_of (d_saves d) x = Some r \<and> same_slot game name r))"
proof -
  let ?P = "\<lambda>p. r_game (snd p) = game \<and> nocase (r_name (snd p)) name"
  have d: "distinct (keys (d_saves d))" using assms(1) by (simp add: db_inv_def)
  have x: "x = (case filter ?P (d_saves d) of [] \<Rightarrow> 0 | _ \<Rightarrow> fst (last (filter ?P (d_saves d))))"
    unfolding x_def by (rule fold_last)
  show ?thesis
  proof (cases "filter ?P (d_saves d) = []")
    case True
    then have "\<not> same_slot game name r" if "map_of (d_saves d) k = Some r" for k r
      using that by (auto simp: same_slot_def filter_empty_conv dest!: map_of_SomeD)
    then show ?thesis using x True by simp
  next
    case False
    let ?l = "last (filter ?P (d_saves d))"
    from False have "?l \<in> set (filter ?P (d_saves d))" by (rule last_in_set)
    then have l: "(fst ?l, snd ?l) \<in> set (d_saves d)" "?P ?l" by auto
    have r: "map_of (d_saves d) (fst ?l) = Some (snd ?l)" "same_slot game name (snd ?l)"
      using l(1) mem_map_of [OF d] l(2) by (blast, simp add: same_slot_def)
    moreover have "x = fst (last (filter ?P (d_saves d)))" using x False by (simp split: list.splits)
    moreover have "x \<noteq> 0" using db_inv_save(1) [OF assms(1) r(1)] calculation(3) by (simp add: rowid_ok_def)
    ultimately show ?thesis by auto
  qed
qed

text \<open>A write of one save row, as the interface sees it.\<close>

lemma saves_put:
  assumes "db_inv d" "save_ok d k row" "distinct (keys t)"
    and t: "map_of t = (map_of (d_saves d))(k \<mapsto> row)"
    and old: "\<And>r. map_of (d_saves d) k = Some r \<Longrightarrow> r_game r = r_game row"
    and nm: "\<And>j r. map_of (d_saves d) j = Some r \<Longrightarrow> same_slot (r_game row) (r_name row) r \<Longrightarrow> j = k"
    and card: "card (insert k (saves_of (d_saves d) (r_game row))) \<le> max_saves_per_game"
    and gr: "map_of (d_games d) (r_game row) = Some gr"
  shows "db_inv (d\<lparr>d_saves := t\<rparr>)" "db_sess (d\<lparr>d_saves := t\<rparr>) = db_sess d"
    and "db_shelf (d\<lparr>d_saves := t\<rparr>) = (db_shelf d)(id_of (r_game row) :=
      (db_shelf d (id_of (r_game row)))(id_of k \<mapsto> snapshot_of_row (id_of (g_user gr)) (id_of (r_game row)) k row))"
proof -
  let ?d = "d\<lparr>d_saves := t\<rparr>"
  have kr: "rowid_ok k" "rowid_ok (r_game row)" using assms(2) by (simp_all add: save_ok_def)
  have sk: "save_ok ?d j r" if "map_of t j = Some r" for j r
  proof (cases "j = k")
    case True
    then show ?thesis using that assms(2) t by (simp add: save_ok_def)
  next
    case False
    then have "map_of (d_saves d) j = Some r" using that t by simp
    from db_inv_save [OF assms(1) this] show ?thesis by (simp add: save_ok_def)
  qed
  have "names_ok t"
    unfolding names_ok_def
  proof (intro allI impI)
    fix j l r q
    assume a: "map_of t j = Some r" "map_of t l = Some q" "r_game r = r_game q" "nocase (r_name r) (r_name q)"
    have sym: "nocase (r_name q) (r_name r)" using a(4) by (simp add: nocase_def)
    consider "j = k" "l = k" | "j = k" "l \<noteq> k" | "j \<noteq> k" "l = k" | "j \<noteq> k" "l \<noteq> k" by blast
    then show "j = l"
    proof cases
      case 2
      then show ?thesis using a sym nm [of l q] t by (simp add: same_slot_def)
    next
      case 3
      then show ?thesis using a nm [of j r] t by (simp add: same_slot_def)
    next
      case 4
      then show ?thesis using a db_inv_names [OF assms(1)] t by simp
    qed simp
  qed
  moreover have "card (saves_of t g) \<le> max_saves_per_game" for g
  proof (cases "g = r_game row")
    case True
    then have "saves_of t g = insert k (saves_of (d_saves d) (r_game row))" by (auto simp: saves_of_def t)
    then show ?thesis using card by simp
  next
    case False
    then have "saves_of t g = saves_of (d_saves d) g" using old by (auto simp: saves_of_def t)
    then show ?thesis using assms(1) by (simp add: db_inv_def)
  qed
  ultimately show "db_inv ?d" using assms(1,3) sk by (simp add: db_inv_def game_ok_def)
  show "db_sess ?d = db_sess d" by (rule ext) (auto simp: db_sess_def split: option.splits)
  show "db_shelf ?d = (db_shelf d)(id_of (r_game row) :=
      (db_shelf d (id_of (r_game row)))(id_of k \<mapsto> snapshot_of_row (id_of (g_user gr)) (id_of (r_game row)) k row))"
  proof (intro ext)
    fix i j
    show "db_shelf ?d i j = ((db_shelf d)(id_of (r_game row) := (db_shelf d (id_of (r_game row)))
        (id_of k \<mapsto> snapshot_of_row (id_of (g_user gr)) (id_of (r_game row)) k row))) i j"
    proof (cases "canon j = Some k")
      case True
      then have j: "j = id_of k" by (simp add: canon_Some)
      show ?thesis
      proof (cases "i = id_of (r_game row)")
        case True
        then show ?thesis using j kr gr by (simp add: db_shelf_def t)
      next
        case False
        have "db_shelf ?d i j = None"
        proof (rule ccontr)
          assume "db_shelf ?d i j \<noteq> None"
          then obtain n where "db_shelf ?d i j = Some n" by blast
          then show False using False j by (auto simp: db_shelf_Some t)
        qed
        moreover have "db_shelf d i j = None"
        proof (rule ccontr)
          assume "db_shelf d i j \<noteq> None"
          then obtain n where "db_shelf d i j = Some n" by blast
          from db_shelf_Some [THEN iffD1, OF this] obtain l r where
            "j = id_of l" "map_of (d_saves d) l = Some r" "i = id_of (r_game r)" by blast
          then show False using old [of r] False j by simp
        qed
        ultimately show ?thesis using False by simp
      qed
    next
      case False
      then have "j \<noteq> id_of k" using kr by auto
      then show ?thesis using False by (auto simp: db_shelf_def t split: option.splits)
    qed
  qed
qed

end
