(* ===== verification/Db_Store_Laws.thy ===== *)
theory Db_Store_Laws
  imports Db_Store "HOL-Library.Multiset"
begin

text \<open>
  What writing, listing, loading and deleting a save do to what is seen of the database, and
  the interpretation of the store's interface on package database's \<open>Sessions\<close>.
\<close>

section \<open>Writing a save\<close>

lemma save_row_of_simps [simp]:
  "r_game (save_row_of g n) = g" "r_name (save_row_of g n) = n_name n" "r_state (save_row_of g n) = the (n_state n)"
  by (simp_all add: save_row_of_def)

lemma check_save_row:
  "clean_name (n_name n) \<Longrightarrow> \<not> no_bytes (n_state n) \<Longrightarrow> check_save (save_row_of g n)"
  by (auto simp: check_save_def clean_check_text no_bytes_def split: option.splits)

text \<open>What the committed transaction leaves, and that it keeps the invariant.\<close>

lemma write_save_Inr:
  assumes "db_inv d" "write_save u e owner game n d = Inr (k, replaced, j, d')"
    and "clean_name (n_name n)" "\<not> no_bytes (n_state n)" "rowid_ok game"
  shows "j < 8 \<and> rowid_ok k \<and> db_inv d' \<and> db_sess d' = db_sess d \<and> d_users d' = d_users d
    \<and> (\<exists>gr. map_of (d_games d) game = Some gr \<and> g_user gr = owner
        \<and> db_shelf d' = (db_shelf d)(id_of game := (db_shelf d (id_of game))
            (id_of k \<mapsto> snapshot_of_row (id_of owner) (id_of game) k (save_row_of game n))))"
proof -
  let ?x = "fold (\<lambda>p i. if r_game (snd p) = game \<and> nocase (r_name (snd p)) (n_name n) then fst p else i) (d_saves d) 0"
  let ?row = "save_row_of game n"
  note ck = check_save_row [OF assms(3,4), of game]
  have ds: "distinct (keys (d_saves d))" using assms(1) by (simp add: db_inv_def)
  obtain gr where gr: "map_of (d_games d) game = Some gr" "g_user gr = owner"
    using assms(2) by (auto simp: write_save_def result_iff)
  show ?thesis
  proof (cases "?x = 0")
    case False
    then obtain r where r: "map_of (d_saves d) ?x = Some r" "same_slot game (n_name n) r"
      using save_id_cases [OF assms(1) refl, of game "n_name n"] by blast
    then have g: "r_game r = game" by (simp add: same_slot_def)
    have w: "k = ?x" "j = 5" "d' = d\<lparr>d_saves := AList.update ?x ?row (d_saves d)\<rparr>"
      using assms(2) False r(1) g
      by (auto simp: write_save_def save_id_by_name_def replace_save_def result_iff Let_def split: if_splits)
    have m: "map_of (AList.update ?x ?row (d_saves d)) = (map_of (d_saves d))(?x \<mapsto> ?row)" by (simp add: update_conv')
    have k: "rowid_ok ?x" using db_inv_save(1) [OF assms(1) r(1)] .
    have sk: "save_ok d ?x ?row" using k ck assms(5) gr by (simp add: save_ok_def)
    have nm: "l = ?x" if "map_of (d_saves d) l = Some q" "same_slot (r_game ?row) (r_name ?row) q" for l q
      using db_inv_names [OF assms(1) that(1) r(1)] that(2) r(2) by (simp add: same_slot_def nocase_def)
    have ins: "insert ?x (saves_of (d_saves d) (r_game ?row)) = saves_of (d_saves d) game"
      using r(1) g by (auto simp: saves_of_def)
    have c: "card (insert ?x (saves_of (d_saves d) (r_game ?row))) \<le> max_saves_per_game"
      unfolding ins using assms(1) by (simp add: db_inv_def)
    have dt: "distinct (keys (AList.update ?x ?row (d_saves d)))" using ds by (rule distinct_update)
    have old: "r_game q = r_game ?row" if "map_of (d_saves d) ?x = Some q" for q using that r(1) g by simp
    have gr': "map_of (d_games d) (r_game ?row) = Some gr" using gr(1) by simp
    note put = saves_put [OF assms(1) sk dt m old nm c gr']
    show ?thesis unfolding w using put gr k by simp
  next
    case True
    then obtain d1 where i: "insert_save e 5 game n d = Inr (k, d')" and j: "j = 6"
        and cnt: "\<not> max_saves_per_game \<le> length (filter (\<lambda>p. r_game (snd p) = game) (d_saves d))"
      using assms(2)
      by (auto simp: write_save_def save_id_by_name_def count_saves_def result_iff Let_def split: if_splits)
    have nx: "next_rowid (d_saves d) = Some k" and d': "d' = d\<lparr>d_saves := (k, ?row) # d_saves d\<rparr>"
      using i by (auto simp: insert_save_def result_iff Let_def split: option.splits if_splits)
    have f: "k \<notin> set (keys (d_saves d))" "rowid_ok k" using next_rowid_fresh [OF nx] by auto
    then have n: "map_of (d_saves d) k = None" by (simp add: map_of_eq_None_iff)
    have none: "\<not> same_slot game (n_name n) r" if "map_of (d_saves d) l = Some r" for l r
      using save_id_cases [OF assms(1) refl, of game "n_name n"] True that by blast
    have m: "map_of ((k, ?row) # d_saves d) = (map_of (d_saves d))(k \<mapsto> ?row)" by simp
    have sk: "save_ok d k ?row" using f ck assms(5) gr by (simp add: save_ok_def)
    have nm: "l = k" if "map_of (d_saves d) l = Some q" "same_slot (r_game ?row) (r_name ?row) q" for l q
      using none [OF that(1)] that(2) by simp
    have "k \<notin> saves_of (d_saves d) game" using n by (simp add: saves_of_def)
    then have c: "card (insert k (saves_of (d_saves d) (r_game ?row))) \<le> max_saves_per_game"
      using cnt count_saves_of [OF ds, of game] by simp
    have dt: "distinct (keys ((k, ?row) # d_saves d))" using ds f(1) by simp
    have old: "r_game q = r_game ?row" if "map_of (d_saves d) k = Some q" for q using that n by simp
    have gr': "map_of (d_games d) (r_game ?row) = Some gr" using gr(1) by simp
    note put = saves_put [OF assms(1) sk dt m old nm c gr']
    show ?thesis unfolding d' j using put gr f by simp
  qed
qed

lemma games_create_save_Inr:
  "games_create_save u e n d = (Inr (sv, r), d') \<Longrightarrow>
     \<exists>owner game k j d1. user_row_id u (n_user n) = Inr owner \<and> row_id u (n_game n) = Inr game
       \<and> \<not> no_bytes (n_state n) \<and> write_save u e owner game (n\<lparr>n_created := now e\<rparr>) d = Inr (k, r, j, d1)
       \<and> sv = \<lparr>sv_id = id_of k, sv_name = n_name n, sv_turn = n_turn n, sv_created = now e\<rparr>
       \<and> d' = (if ctx_err e j = None then d1 else d)"
  by (force simp: games_create_save_def simp del: row_id_Inr split: sum.splits if_splits prod.splits)

lemma games_create_save_fail: "games_create_save u e n d = (Inl err, d') \<Longrightarrow> d' = d"
  by (auto simp: games_create_save_def simp del: row_id_Inr split: sum.splits if_splits prod.splits)

text \<open>
  Committed or rolled back: the invariant holds, no session changes, and no shelf but the
  game's own.
\<close>

lemma games_create_save_frame:
  assumes "db_inv d" "db_known d (n_user n)" "games_create_save u e n d = (r, d')"
    and "clean_name (n_name n)"
  shows "db_inv d'" "db_sess d' = db_sess d" "d_users d' = d_users d"
    "\<not> owned (db_sess d) (n_user n) i \<Longrightarrow> db_shelf d' i = db_shelf d i"
proof -
  have "db_inv d' \<and> db_sess d' = db_sess d \<and> d_users d' = d_users d
    \<and> (\<not> owned (db_sess d) (n_user n) i \<longrightarrow> db_shelf d' i = db_shelf d i)"
  proof (cases "d' = d")
    case True
    then show ?thesis using assms(1) by simp
  next
    case False
    then obtain sv b where "r = Inr (sv, b)" using games_create_save_fail [of u e n d _ d'] assms(3) by (cases r) auto
    from games_create_save_Inr [OF assms(3) [unfolded this]] False
    obtain owner game k j where o: "user_row_id u (n_user n) = Inr owner" "row_id u (n_game n) = Inr game"
        "\<not> no_bytes (n_state n)" "write_save u e owner game (n\<lparr>n_created := now e\<rparr>) d = Inr (k, b, j, d')"
      by (auto simp del: row_id_Inr user_row_id_Inr split: if_splits)
    have g: "rowid_ok game" using o(2) by (simp add: result_iff)
    have u: "n_user n = id_of owner" using known_owner [OF assms(2) o(1)] .
    note w = write_save_Inr [OF assms(1) o(4) _ _ g]
    have w: "db_inv d'" "db_sess d' = db_sess d" "d_users d' = d_users d"
      "\<exists>gr row. map_of (d_games d) game = Some gr \<and> g_user gr = owner \<and> db_shelf d' =
         (db_shelf d)(id_of game := (db_shelf d (id_of game))(id_of k \<mapsto> row))"
      using w assms(4) o(3) by auto
    have "db_shelf d' i = db_shelf d i" if "\<not> owned (db_sess d) (n_user n) i"
    proof -
      have "owned (db_sess d) (n_user n) (id_of game)" using w(4) g u by (auto simp: owned_row)
      then have "i \<noteq> id_of game" using that by auto
      then show ?thesis using w(4) by auto
    qed
    then show ?thesis using w by blast
  qed
  then show "db_inv d'" "db_sess d' = db_sess d" "d_users d' = d_users d"
    "\<not> owned (db_sess d) (n_user n) i \<Longrightarrow> db_shelf d' i = db_shelf d i" by blast+
qed

lemma stored_row:
  assumes "\<not> no_bytes (n_state n)" "n_user n = id_of owner" "n_game n = id_of game"
  shows "snapshot_of_row (id_of owner) (id_of game) k (save_row_of game (n\<lparr>n_created := t\<rparr>)) = stored_as (id_of k) t n"
  using snapshot_row_round [OF assms(1), of k game t] assms(2,3) by simp

lemma owned_rows:
  assumes "db_inv d" "owned (db_sess d) user i"
  obtains game gr where "i = id_of game" "rowid_ok game" "map_of (d_games d) game = Some gr"
    "user = id_of (g_user gr)" "rowid_ok (g_user gr)" "db_known d user"
proof -
  obtain k g where k: "i = id_of k" "rowid_ok k" "map_of (d_games d) k = Some g" "user = id_of (g_user g)"
    using assms(2) unfolding owned_row by blast
  with db_inv_game [OF assms(1) k(3)] show ?thesis by (intro that) (auto simp: db_known_def)
qed

lemma shelf_slot:
  assumes "db_inv d" "rowid_ok game" "map_of (d_games d) game = Some gr"
  shows "(\<exists>m. db_shelf d (id_of game) k = Some m \<and> nocase (n_name m) name) \<longleftrightarrow>
    (\<exists>j r. k = id_of j \<and> map_of (d_saves d) j = Some r \<and> same_slot game name r)"
proof
  assume "\<exists>m. db_shelf d (id_of game) k = Some m \<and> nocase (n_name m) name"
  then show "\<exists>j r. k = id_of j \<and> map_of (d_saves d) j = Some r \<and> same_slot game name r"
    unfolding db_shelf_Some same_slot_def by auto
next
  assume "\<exists>j r. k = id_of j \<and> map_of (d_saves d) j = Some r \<and> same_slot game name r"
  then obtain j r where "k = id_of j" "map_of (d_saves d) j = Some r" "same_slot game name r" by blast
  then show "\<exists>m. db_shelf d (id_of game) k = Some m \<and> nocase (n_name m) name"
    using assms db_inv_save(1) [OF assms(1), of j r] by (auto simp: db_shelf_def same_slot_def)
qed

lemma name_free_iff:
  assumes "distinct (keys (d_saves d))"
  shows "name_free d k game name \<longleftrightarrow>
    (\<forall>l q. map_of (d_saves d) l = Some q \<longrightarrow> Some l = k \<or> \<not> same_slot game name q)"
proof -
  have "name_free d k game name \<longleftrightarrow> (\<forall>l q. (l, q) \<in> set (d_saves d) \<longrightarrow> Some l = k \<or> \<not> same_slot game name q)"
    unfolding name_free_def list_all_iff same_slot_def by fast
  then show ?thesis unfolding mem_map_of [OF assms] .
qed

lemma write_save_up:
  assumes "db_inv d" "db_up e" "map_of (d_games d) game = Some gr" "g_user gr = owner"
    and "clean_name (n_name n)" "\<not> no_bytes (n_state n)"
  shows "map_of (d_saves d) j = Some r \<Longrightarrow> same_slot game (n_name n) r \<Longrightarrow>
      \<exists>d'. write_save u e owner game n d = Inr (j, True, 5, d')"
    and "\<forall>j r. map_of (d_saves d) j = Some r \<longrightarrow> \<not> same_slot game (n_name n) r \<Longrightarrow>
      card (saves_of (d_saves d) game) < max_saves_per_game \<Longrightarrow> db_room d \<Longrightarrow>
      \<exists>k d'. write_save u e owner game n d = Inr (k, False, 6, d') \<and> map_of (d_saves d) k = None"
    and "\<forall>j r. map_of (d_saves d) j = Some r \<longrightarrow> \<not> same_slot game (n_name n) r \<Longrightarrow>
      max_saves_per_game \<le> card (saves_of (d_saves d) game) \<Longrightarrow>
      \<exists>err. write_save u e owner game n d = Inl err \<and> errors_is err ErrTooManySaves"
proof -
  let ?x = "fold (\<lambda>p i. if r_game (snd p) = game \<and> nocase (r_name (snd p)) (n_name n) then fst p else i) (d_saves d) 0"
  have ds: "distinct (keys (d_saves d))" using assms(1) by (simp add: db_inv_def)
  note live = db_upD [OF assms(2), of 2] db_upD [OF assms(2), of 3] db_upD [OF assms(2), of 4]
    db_upD [OF assms(2), of 5] db_upD [OF assms(2), of 6]
  note ck = check_save_row [OF assms(5,6)]
  note ids = save_id_cases [OF assms(1) refl, of game "n_name n"]
  show "\<exists>d'. write_save u e owner game n d = Inr (j, True, 5, d')"
    if jr: "map_of (d_saves d) j = Some r" "same_slot game (n_name n) r"
  proof -
    obtain q where q: "?x \<noteq> 0" "map_of (d_saves d) ?x = Some q" "same_slot game (n_name n) q"
      using ids jr by blast
    have "nocase (r_name q) (r_name r)" "r_game q = r_game r"
      using q(3) jr(2) by (auto simp: same_slot_def nocase_def)
    then have x: "?x = j" using db_inv_names [OF assms(1) q(2) jr(1)] by blast
    have "l = j" if "map_of (d_saves d) l = Some p" "same_slot game (n_name n) p" for l p
      using db_inv_names [OF assms(1) that(1) jr(1)] that(2) jr(2) by (simp add: same_slot_def nocase_def)
    then have "name_free d (Some j) game (n_name n)" unfolding name_free_iff [OF ds] by blast
    then show ?thesis using q(1) jr live ck assms(3,4)
      by (simp add: write_save_def owns_game_def save_id_by_name_def replace_save_def x same_slot_def)
  qed
  assume none: "\<forall>j r. map_of (d_saves d) j = Some r \<longrightarrow> \<not> same_slot game (n_name n) r"
  then have x: "?x = 0" using ids by blast
  have free: "name_free d None game (n_name n)"
    unfolding name_free_iff [OF ds] using none by blast
  show "\<exists>k d'. write_save u e owner game n d = Inr (k, False, 6, d') \<and> map_of (d_saves d) k = None"
    if c: "card (saves_of (d_saves d) game) < max_saves_per_game" "db_room d"
  proof -
    obtain k where k: "next_rowid (d_saves d) = Some k" using c(2) by (auto simp: db_room_def)
    then have "map_of (d_saves d) k = None" using next_rowid_fresh [OF k] by (simp add: map_of_eq_None_iff)
    then show ?thesis using k c(1) free live ck assms(3,4)
      by (simp add: write_save_def owns_game_def save_id_by_name_def x count_saves_def count_saves_of [OF ds]
          insert_save_def)
  qed
  show "\<exists>err. write_save u e owner game n d = Inl err \<and> errors_is err ErrTooManySaves"
    if c: "max_saves_per_game \<le> card (saves_of (d_saves d) game)"
    using c live assms(3,4)
    by (simp add: write_save_def owns_game_def save_id_by_name_def x count_saves_def count_saves_of [OF ds])
qed

section \<open>Listing, loading and deleting saves\<close>

lemma games_load_save_Inr:
  "games_load_save u e user i k d = Inr n \<longleftrightarrow>
     (\<exists>owner game row g r. user_row_id u user = Inr owner \<and> row_id u i = Inr game \<and> save_row_id u k = Inr row
        \<and> ctx_err e 0 = None \<and> ctx_err e 1 = None \<and> ctx_err e 2 = None
        \<and> map_of (d_games d) game = Some g \<and> g_user g = owner
        \<and> map_of (d_saves d) row = Some r \<and> r_game r = game \<and> n = snapshot_of_row user i row r)"
    (is "?l \<longleftrightarrow> ?r")
proof
  assume ?l
  then show ?r
    by (cases "user_row_id u user")
      (auto simp: games_load_save_def bind_r_Inr db_conn_Inr owns_game_Inr wrap_r_Inr db_use_Inr
        split: option.splits if_splits simp del: row_id_Inr user_row_id_Inr save_row_id_Inr)
next
  assume ?r
  then show ?l by (auto simp: games_load_save_def owns_game_def simp del: row_id_Inr user_row_id_Inr save_row_id_Inr)
qed

lemma games_load_save_up:
  assumes "db_inv d" "db_up e" "owned (db_sess d) user i" "db_shelf d i k = Some n"
  shows "games_load_save u e user i k d = Inr n"
proof -
  obtain g j gr r where s: "i = id_of g" "rowid_ok g" "k = id_of j" "rowid_ok j" "map_of (d_games d) g = Some gr"
      "map_of (d_saves d) j = Some r" "r_game r = g" "n = snapshot_of_row (id_of (g_user gr)) i j r"
    using assms(4) unfolding db_shelf_Some by blast
  moreover obtain w where "user = id_of (g_user gr)" "rowid_ok (g_user gr)"
    using owned_rows [OF assms(1,3)] s(1,5) by (metis id_of_eq option.inject)
  ultimately show ?thesis
    using db_upD [OF assms(2), of 0] db_upD [OF assms(2), of 1] db_upD [OF assms(2), of 2]
    unfolding games_load_save_Inr by auto
qed

lemma games_saves_up:
  assumes "db_inv d" "db_up e" "owned (db_sess d) user i"
  shows "\<exists>l. games_saves u e user i d = Inr l \<and> set l = summarize ` ran (db_shelf d i)
    \<and> distinct (map sv_id l) \<and> sorted_wrt (\<lambda>a b. sv_created b \<le> sv_created a) l"
proof -
  obtain game gr where g: "i = id_of game" "rowid_ok game" "map_of (d_games d) game = Some gr"
      "user = id_of (g_user gr)" "rowid_ok (g_user gr)"
    using owned_rows [OF assms(1,3)] by metis
  let ?f = "filter (\<lambda>p. r_game (snd p) = game) (d_saves d)"
  let ?l = "map save_of_row (sort_key (\<lambda>p. (- r_created (snd p), - fst p)) ?f)"
  have ds: "distinct (keys (d_saves d))" using assms(1) by (simp add: db_inv_def)
  have eq: "games_saves u e user i d = Inr ?l"
    using g db_upD [OF assms(2), of 0] db_upD [OF assms(2), of 1] db_upD [OF assms(2), of 2]
    by (simp add: games_saves_def owns_game_def)
  have ran: "ran (db_shelf d i) = (\<lambda>p. snapshot_of_row user i (fst p) (snd p)) ` set ?f"
  proof
    show "ran (db_shelf d i) \<subseteq> (\<lambda>p. snapshot_of_row user i (fst p) (snd p)) ` set ?f"
    proof
      fix n assume "n \<in> ran (db_shelf d i)"
      then obtain k where "db_shelf d i k = Some n" by (auto simp: ran_def)
      from db_shelf_Some [THEN iffD1, OF this] g obtain j r where "map_of (d_saves d) j = Some r"
        "r_game r = game" "n = snapshot_of_row user i j r" by auto
      then show "n \<in> (\<lambda>p. snapshot_of_row user i (fst p) (snd p)) ` set ?f"
        using mem_map_of [OF ds] by (intro image_eqI [where x = "(j, r)"]) auto
    qed
    show "(\<lambda>p. snapshot_of_row user i (fst p) (snd p)) ` set ?f \<subseteq> ran (db_shelf d i)"
    proof
      fix n assume "n \<in> (\<lambda>p. snapshot_of_row user i (fst p) (snd p)) ` set ?f"
      then obtain j r where "(j, r) \<in> set (d_saves d)" and jr: "r_game r = game" "n = snapshot_of_row user i j r" by auto
      then have m: "map_of (d_saves d) j = Some r" using mem_map_of [OF ds] by blast
      have "db_shelf d i (id_of j) = Some n"
        using g m jr db_inv_save(1) [OF assms(1) m] by (simp add: db_shelf_def)
      then show "n \<in> ran (db_shelf d i)" by (auto simp: ran_def)
    qed
  qed
  have "set ?l = summarize ` ran (db_shelf d i)"
    by (auto simp: ran image_image summarize_def save_of_row_def image_iff)
  moreover have "distinct (map sv_id ?l)"
  proof -
    let ?s = "sort_key (\<lambda>p. (- r_created (snd p), - fst p)) ?f"
    have "mset (map fst ?s) = mset (keys ?f)" by (simp only: mset_map mset_sort)
    then have "distinct (map fst ?s)" using distinct_keys_filter [OF ds] mset_eq_imp_distinct_iff by blast
    then have "distinct (map id_of (map fst ?s))" using inj_onI [of "set (map fst ?s)" id_of]
      by (simp only: distinct_map) simp
    moreover have "map sv_id ?l = map id_of (map fst ?s)" by (simp add: save_of_row_def comp_def)
    ultimately show ?thesis by (simp only:)
  qed
  moreover have "sorted_wrt (\<lambda>a b. sv_created b \<le> sv_created a) ?l"
  proof -
    have "sorted (map (\<lambda>p. (- r_created (snd p), - fst p)) (sort_key (\<lambda>p. (- r_created (snd p), - fst p)) ?f))"
      by (rule sorted_sort_key)
    then show ?thesis
      unfolding sorted_map sorted_wrt_map
      by (rule sorted_wrt_mono_rel [rotated]) (auto simp: save_of_row_def less_eq_prod_def)
  qed
  ultimately show ?thesis using eq by blast
qed

lemma games_delete_save_Inr:
  "games_delete_save u e user i k d = (Inr sv, d') \<Longrightarrow>
     \<exists>n row. games_load_save u e user i k d = Inr n \<and> save_row_id u k = Inr row
       \<and> sv = \<lparr>sv_id = n_id n, sv_name = n_name n, sv_turn = n_turn n, sv_created = n_created n\<rparr>
       \<and> d' = d\<lparr>d_saves := AList.delete row (d_saves d)\<rparr>"
  by (auto simp: games_delete_save_def bind_r_Inr split: sum.splits prod.splits option.splits if_splits
      simp del: save_row_id_Inr row_id_Inr)

lemma games_delete_save_fail: "games_delete_save u e user i k d = (Inl err, d') \<Longrightarrow> d' = d"
  by (auto simp: games_delete_save_def split: sum.splits prod.splits)

lemma drop_save_view:
  assumes "db_inv d" "map_of (d_saves d) k = Some r"
  defines "d' \<equiv> d\<lparr>d_saves := AList.delete k (d_saves d)\<rparr>"
  shows "db_sess d' = db_sess d" "db_inv d'"
    and "db_shelf d' = (db_shelf d)(id_of (r_game r) := (db_shelf d (id_of (r_game r)))(id_of k := None))"
proof -
  have s: "map_of (d_saves d') = (map_of (d_saves d))(k := None)" by (simp add: d'_def delete_conv')
  show "db_sess d' = db_sess d" by (rule ext) (auto simp: db_sess_def d'_def split: option.splits)
  have kr: "rowid_ok k" "rowid_ok (r_game r)" using db_inv_save [OF assms(1,2)] by simp_all
  show "db_shelf d' = (db_shelf d)(id_of (r_game r) := (db_shelf d (id_of (r_game r)))(id_of k := None))"
  proof (intro ext)
    fix i j
    show "db_shelf d' i j = ((db_shelf d)(id_of (r_game r) := (db_shelf d (id_of (r_game r)))(id_of k := None))) i j"
    proof (cases "canon j = Some k")
      case True
      then have j: "j = id_of k" by (simp add: canon_Some)
      have "db_shelf d i j = None" if "i \<noteq> id_of (r_game r)"
      proof (rule ccontr)
        assume "db_shelf d i j \<noteq> None"
        then obtain n where "db_shelf d i j = Some n" by blast
        from db_shelf_Some [THEN iffD1, OF this] assms(2) j that show False by auto
      qed
      moreover have "db_shelf d' i j = None" using True by (simp add: db_shelf_def s split: option.splits)
      ultimately show ?thesis using j by auto
    next
      case False
      then have "j \<noteq> id_of k" using kr by auto
      then show ?thesis using False by (auto simp: db_shelf_def s d'_def split: option.splits)
    qed
  qed
  have "saves_of (d_saves d') g \<subseteq> saves_of (d_saves d) g" for g
    by (auto simp: saves_of_def s split: if_splits)
  then have "card (saves_of (d_saves d') g) \<le> max_saves_per_game" for g
    using assms(1) card_mono [OF finite_saves_of] le_trans unfolding db_inv_def by meson
  moreover have "names_ok (d_saves d')"
    unfolding names_ok_def
  proof (intro allI impI)
    fix j l r q
    assume "map_of (d_saves d') j = Some r" "map_of (d_saves d') l = Some q" "r_game r = r_game q"
      "nocase (r_name r) (r_name q)"
    moreover from this have "map_of (d_saves d) j = Some r" "map_of (d_saves d) l = Some q"
      by (simp_all add: s split: if_splits)
    ultimately show "j = l" using db_inv_names [OF assms(1)] by blast
  qed
  moreover have "save_ok d' j q" if "map_of (d_saves d') j = Some q" for j q
  proof -
    have "map_of (d_saves d) j = Some q" using that by (simp add: s split: if_splits)
    from db_inv_save [OF assms(1) this] show ?thesis by (simp add: save_ok_def d'_def)
  qed
  ultimately show "db_inv d'" using assms(1)
    by (simp add: db_inv_def d'_def game_ok_def distinct_delete)
qed

lemma games_delete_save_frame:
  assumes "db_inv d" "db_known d user" "games_delete_save u e user i k d = (r, d')"
  shows "db_inv d'" "db_sess d' = db_sess d" "d_users d' = d_users d"
    and "\<not> owned (db_sess d) user j \<Longrightarrow> db_shelf d' j = db_shelf d j"
proof -
  have "db_inv d' \<and> db_sess d' = db_sess d \<and> d_users d' = d_users d
    \<and> (\<not> owned (db_sess d) user j \<longrightarrow> db_shelf d' j = db_shelf d j)"
  proof (cases r)
    case (Inl err)
    then show ?thesis using games_delete_save_fail [of u e user i k d err d'] assms(1,3) by simp
  next
    case (Inr sv)
    obtain n row where n: "games_load_save u e user i k d = Inr n" "save_row_id u k = Inr row"
        and d': "d' = d\<lparr>d_saves := AList.delete row (d_saves d)\<rparr>"
      using games_delete_save_Inr [OF assms(3) [unfolded Inr]] by blast
    obtain owner game g q where o: "user_row_id u user = Inr owner" "row_id u i = Inr game"
        "map_of (d_games d) game = Some g" "g_user g = owner" "map_of (d_saves d) row = Some q" "r_game q = game"
      using n unfolding games_load_save_Inr by auto
    have "owned (db_sess d) user (id_of game)"
      using o known_owner [OF assms(2) o(1)] by (auto simp: owned_row result_iff)
    then have ne: "j \<noteq> id_of game" if "\<not> owned (db_sess d) user j" using that by auto
    show ?thesis using drop_save_view [OF assms(1) o(5)] ne o(6) unfolding d' by simp
  qed
  then show "db_inv d'" "db_sess d' = db_sess d" "d_users d' = d_users d"
    and "\<not> owned (db_sess d) user j \<Longrightarrow> db_shelf d' j = db_shelf d j" by blast+
qed

section \<open>The accounts stay as they are\<close>

lemma games_users:
  "d_users (snd (games_create u e s d)) = d_users d"
  "d_users (snd (games_update u e s d)) = d_users d"
  "d_users (snd (games_delete u e user i d)) = d_users d"
  "d_users (snd (games_delete_save u e user i k d)) = d_users d"
proof -
  obtain r d' where c: "games_create u e s d = (r, d')" by force
  show "d_users (snd (games_create u e s d)) = d_users d"
    using games_create_cases [OF c] c by auto
  obtain r d' where c: "games_update u e s d = (r, d')" by force
  show "d_users (snd (games_update u e s d)) = d_users d"
    using games_update_Inr [of u e s d _ d'] games_update_fail [of u e s d _ d'] c by (cases r) auto
  obtain r d' where c: "games_delete u e user i d = (r, d')" by force
  show "d_users (snd (games_delete u e user i d)) = d_users d"
    using games_delete_Inr [of u e user i d _ d'] games_delete_fail [of u e user i d _ d'] c by (cases r) auto
  obtain r d' where c: "games_delete_save u e user i k d = (r, d')" by force
  show "d_users (snd (games_delete_save u e user i k d)) = d_users d"
    using games_delete_save_Inr [of u e user i k d _ d'] games_delete_save_fail [of u e user i k d _ d'] c
    by (cases r) auto
qed

lemma write_save_users: "write_save u e owner game n d = Inr (k, r, j, d') \<Longrightarrow> d_users d' = d_users d"
  by (auto simp: write_save_def replace_save_def insert_save_def result_iff Let_def split: option.splits if_splits)

lemma games_create_save_users: "d_users (snd (games_create_save u e n d)) = d_users d"
proof -
  obtain r d' where c: "games_create_save u e n d = (r, d')" by force
  show ?thesis
  proof (cases r)
    case (Inl err)
    then show ?thesis using games_create_save_fail [of u e n d err d'] c by simp
  next
    case (Inr p)
    then obtain sv b where "r = Inr (sv, b)" by (cases p) auto
    then show ?thesis using games_create_save_Inr [of u e n d sv b d'] c write_save_users by fastforce
  qed
qed

lemma known_users: "d_users d' = d_users d \<Longrightarrow> db_known d' = db_known d"
  by (simp add: db_known_def fun_eq_iff)

section \<open>The interface, method by method\<close>

lemma db_load_sound:
  assumes "db_inv d" "db_known d user" "games_load u e user i d = Inr s"
  shows "db_sess d (s_id s) = Some s \<and> s_user s = user"
proof -
  obtain owner k g where o: "user_row_id u user = Inr owner" "row_id u i = Inr k"
      "map_of (d_games d) k = Some g" "g_user g = owner" "s = session_of_row k g"
    using assms(3) unfolding games_load_Inr by blast
  then have "rowid_ok k" by (simp add: result_iff)
  with o known_owner [OF assms(2) o(1)] show ?thesis by (simp add: db_sess_id_of)
qed

lemma db_load_complete:
  assumes "db_inv d" "db_up e" "db_sess d i = Some s" "s_user s = user"
  shows "games_load u e user i d = Inr s"
proof -
  obtain k g where k: "i = id_of k" "rowid_ok k" "map_of (d_games d) k = Some g" "s = session_of_row k g"
    using assms(3) unfolding db_sess_Some by blast
  then have "user = id_of (g_user g)" "rowid_ok (g_user g)"
    using db_inv_game [OF assms(1) k(3)] assms(4) by simp_all
  with k show ?thesis using db_upD [OF assms(2), of 0] db_upD [OF assms(2), of 1]
    unfolding games_load_Inr by auto
qed

lemma db_delete_ok:
  assumes "db_inv d" "db_up e" "db_sess d i = Some s" "s_user s = user"
  shows "games_delete u e user i d = (Inr (), drop_game (the (canon i)) d)"
proof -
  obtain k g where k: "i = id_of k" "rowid_ok k" "map_of (d_games d) k = Some g" "s = session_of_row k g"
    using assms(3) unfolding db_sess_Some by blast
  then have "user = id_of (g_user g)" "rowid_ok (g_user g)"
    using db_inv_game [OF assms(1) k(3)] assms(4) by simp_all
  with k show ?thesis using db_upD [OF assms(2), of 0] db_upD [OF assms(2), of 1]
    by (simp add: games_delete_def)
qed

text \<open>A deletion that did anything deleted a game of the user's.\<close>

lemma db_delete_did:
  assumes "db_inv d" "games_delete u e user i d = (r, d')" "d' \<noteq> d"
  shows "\<exists>k g. d' = drop_game k d \<and> rowid_ok k \<and> row_id u i = Inr k \<and> map_of (d_games d) k = Some g
    \<and> (db_known d user \<longrightarrow> owned (db_sess d) user (id_of k))"
proof -
  obtain x where "r = Inr x" using games_delete_fail [of u e user i d _ d'] assms(2,3) by (cases r) auto
  from games_delete_Inr [OF assms(2) [unfolded this]] obtain owner k g where
    o: "user_row_id u user = Inr owner" "row_id u i = Inr k" "map_of (d_games d) k = Some g" "g_user g = owner"
      "d' = drop_game k d" by blast
  moreover have "rowid_ok k" using o(2) by (simp add: result_iff)
  moreover have "owned (db_sess d) user (id_of k)" if "db_known d user"
    using o known_owner [OF that o(1)] calculation(6) by (auto simp: owned_row)
  ultimately show ?thesis by blast
qed

lemma db_create_save_up:
  assumes "db_inv d" "db_up e" "i = n_game n" "n_user n = user" "owned (db_sess d) user i" "\<not> no_bytes (n_state n)"
    and w: "\<And>game gr. i = id_of game \<Longrightarrow> rowid_ok game \<Longrightarrow> map_of (d_games d) game = Some gr \<Longrightarrow>
      user = id_of (g_user gr) \<Longrightarrow> write_save u e (g_user gr) game (n\<lparr>n_created := now e\<rparr>) d = Inr (k, r, j, d')"
    and j: "j < 8" and "clean_name (n_name n)"
  shows "games_create_save u e n d = (Inr (summarize (stored_as (id_of k) (now e) n), r), d')
    \<and> db_sess d' = db_sess d
    \<and> db_shelf d' = (db_shelf d)(i := (db_shelf d i)(id_of k \<mapsto> stored_as (id_of k) (now e) n))"
proof -
  obtain game gr where g: "i = id_of game" "rowid_ok game" "map_of (d_games d) game = Some gr"
      "user = id_of (g_user gr)" "rowid_ok (g_user gr)"
    using owned_rows [OF assms(1,5)] by metis
  note w = w [OF g(1-4)]
  have eq: "games_create_save u e n d = (Inr (summarize (stored_as (id_of k) (now e) n), r), d')"
    using w g assms(3,4,6) j db_upD [OF assms(2), of 0] db_upD [OF assms(2), of 1] db_upD [OF assms(2) j]
    by (simp add: games_create_save_def summarize_def)
  have "db_sess d' = db_sess d \<and> db_shelf d' = (db_shelf d)(id_of game := (db_shelf d (id_of game))
      (id_of k \<mapsto> snapshot_of_row user (id_of game) k (save_row_of game (n\<lparr>n_created := now e\<rparr>))))"
    using write_save_Inr [OF assms(1) w _ _ g(2)] assms(6,9) g(3,4) by auto
  moreover have "snapshot_of_row user (id_of game) k (save_row_of game (n\<lparr>n_created := now e\<rparr>)) = stored_as (id_of k) (now e) n"
    using stored_row [OF assms(6), of "g_user gr" game k "now e"] g assms(3,4) by simp
  ultimately show ?thesis using eq g(1) by auto
qed

lemma db_create_save_at:
  assumes "db_inv d" "db_up e" "owned (db_sess d) (n_user n) (n_game n)" "\<not> no_bytes (n_state n)" "clean_name (n_name n)"
  shows "db_shelf d (n_game n) k = Some m \<Longrightarrow> nocase (n_name m) (n_name n) \<Longrightarrow>
      \<exists>d'. games_create_save u e n d = (Inr (summarize (stored_as k (now e) n), True), d') \<and> db_sess d' = db_sess d
        \<and> db_shelf d' = (db_shelf d)(n_game n := (db_shelf d (n_game n))(k \<mapsto> stored_as k (now e) n))"
    and "\<forall>k m. db_shelf d (n_game n) k = Some m \<longrightarrow> \<not> nocase (n_name m) (n_name n) \<Longrightarrow>
      card (dom (db_shelf d (n_game n))) < max_saves_per_game \<Longrightarrow> db_room d \<Longrightarrow>
      \<exists>k d'. games_create_save u e n d = (Inr (summarize (stored_as k (now e) n), False), d') \<and> db_sess d' = db_sess d
        \<and> db_shelf d (n_game n) k = None
        \<and> db_shelf d' = (db_shelf d)(n_game n := (db_shelf d (n_game n))(k \<mapsto> stored_as k (now e) n))"
    and "\<forall>k m. db_shelf d (n_game n) k = Some m \<longrightarrow> \<not> nocase (n_name m) (n_name n) \<Longrightarrow>
      max_saves_per_game \<le> card (dom (db_shelf d (n_game n))) \<Longrightarrow>
      \<exists>err. games_create_save u e n d = (Inl err, d) \<and> errors_is err ErrTooManySaves"
proof -
  obtain game gr where g: "n_game n = id_of game" "rowid_ok game" "map_of (d_games d) game = Some gr"
      "n_user n = id_of (g_user gr)" "rowid_ok (g_user gr)"
    using owned_rows [OF assms(1,3)] by metis
  let ?n = "n\<lparr>n_created := now e\<rparr>"
  note slot = shelf_slot [OF assms(1) g(2,3), of _ "n_name n"]
  have cn: "clean_name (n_name ?n)" "\<not> no_bytes (n_state ?n)" using assms(4,5) by simp_all
  note wup = write_save_up [OF assms(1,2) g(3) refl cn, where u = u]
  note up = db_create_save_up [OF assms(1,2) refl refl assms(3,4) _ _ assms(5), where u = u]
  have only: "write_save u e (g_user h) game' ?n d = x"
    if "write_save u e (g_user gr) game ?n d = x" "n_game n = id_of game'" "rowid_ok game'"
      "map_of (d_games d) game' = Some h" "n_user n = id_of (g_user h)" for game' h x
    using that g(1,4) by simp
  show "\<exists>d'. games_create_save u e n d = (Inr (summarize (stored_as k (now e) n), True), d') \<and> db_sess d' = db_sess d
        \<and> db_shelf d' = (db_shelf d)(n_game n := (db_shelf d (n_game n))(k \<mapsto> stored_as k (now e) n))"
    if m: "db_shelf d (n_game n) k = Some m" "nocase (n_name m) (n_name n)"
  proof -
    have "\<exists>m. db_shelf d (id_of game) k = Some m \<and> nocase (n_name m) (n_name n)" using m g(1) by auto
    from slot [THEN iffD1, OF this] obtain j r where j: "k = id_of j" "map_of (d_saves d) j = Some r"
      "same_slot game (n_name n) r" by blast
    from j(3) have "same_slot game (n_name ?n) r" by simp
    from wup(1) [OF j(2) this] obtain d' where w: "write_save u e (g_user gr) game ?n d = Inr (j, True, 5, d')"
      by blast
    have "(5 :: nat) < 8" by simp
    from up [OF only [OF w] this] show ?thesis unfolding j(1) by blast
  qed
  assume none: "\<forall>k m. db_shelf d (n_game n) k = Some m \<longrightarrow> \<not> nocase (n_name m) (n_name n)"
  have no: "\<forall>j r. map_of (d_saves d) j = Some r \<longrightarrow> \<not> same_slot game (n_name ?n) r"
  proof (intro allI impI notI)
    fix j r assume "map_of (d_saves d) j = Some r" "same_slot game (n_name ?n) r"
    then have "\<exists>m. db_shelf d (id_of game) (id_of j) = Some m \<and> nocase (n_name m) (n_name n)"
      using slot [THEN iffD2, of "id_of j"] by auto
    then show False using none g(1) by auto
  qed
  have card: "card (dom (db_shelf d (n_game n))) = card (saves_of (d_saves d) game)"
    using card_shelf [OF assms(1) g(2)] g(1) by simp
  show "\<exists>k d'. games_create_save u e n d = (Inr (summarize (stored_as k (now e) n), False), d') \<and> db_sess d' = db_sess d
        \<and> db_shelf d (n_game n) k = None
        \<and> db_shelf d' = (db_shelf d)(n_game n := (db_shelf d (n_game n))(k \<mapsto> stored_as k (now e) n))"
    if c: "card (dom (db_shelf d (n_game n))) < max_saves_per_game" "db_room d"
  proof -
    obtain k d' where w: "write_save u e (g_user gr) game ?n d = Inr (k, False, 6, d')" "map_of (d_saves d) k = None"
      using wup(2) [OF no _ c(2)] c(1) unfolding card by blast
    have none: "db_shelf d (n_game n) (id_of k) = None"
    proof (rule ccontr)
      assume "\<not> ?thesis"
      then obtain m where "db_shelf d (n_game n) (id_of k) = Some m" by blast
      from db_shelf_Some [THEN iffD1, OF this] w(2) show False by auto
    qed
    have "(6 :: nat) < 8" by simp
    from up [OF only [OF w(1)] this] none show ?thesis by blast
  qed
  show "\<exists>err. games_create_save u e n d = (Inl err, d) \<and> errors_is err ErrTooManySaves"
    if c: "max_saves_per_game \<le> card (dom (db_shelf d (n_game n)))"
  proof -
    obtain err where "write_save u e (g_user gr) game ?n d = Inl err" "errors_is err ErrTooManySaves"
      using wup(3) [OF no] c unfolding card by blast
    then show ?thesis using g assms(4) db_upD [OF assms(2), of 0] db_upD [OF assms(2), of 1]
      by (simp add: games_create_save_def)
  qed
qed

lemma db_delete_save_at:
  assumes "db_inv d" "db_up e" "owned (db_sess d) user i" "db_shelf d i k = Some n"
  shows "\<exists>d'. games_delete_save u e user i k d = (Inr (summarize n), d') \<and> db_sess d' = db_sess d
    \<and> db_shelf d' = (db_shelf d)(i := (db_shelf d i)(k := None))"
proof -
  obtain g j gr r where s: "i = id_of g" "rowid_ok g" "k = id_of j" "rowid_ok j" "map_of (d_games d) g = Some gr"
      "map_of (d_saves d) j = Some r" "r_game r = g" "n = snapshot_of_row (id_of (g_user gr)) i j r"
    using assms(4) unfolding db_shelf_Some by blast
  have "games_delete_save u e user i k d =
      (Inr (summarize n), d\<lparr>d_saves := AList.delete j (d_saves d)\<rparr>)"
    using games_load_save_up [OF assms] s db_upD [OF assms(2), of 3] db_upD [OF assms(2), of 4]
    by (simp add: games_delete_save_def summarize_def)
  then show ?thesis using drop_save_view [OF assms(1) s(6)] s by auto
qed

lemma db_delete_save_inv:
  assumes "db_inv d"
  shows "db_inv (snd (games_delete_save u e user i k d))"
proof -
  obtain r d' where c: "games_delete_save u e user i k d = (r, d')" by force
  show ?thesis
  proof (cases r)
    case (Inl err)
    then show ?thesis using games_delete_save_fail [of u e user i k d err d'] c assms by simp
  next
    case (Inr sv)
    obtain n row where n: "games_load_save u e user i k d = Inr n" "save_row_id u k = Inr row"
        "d' = d\<lparr>d_saves := AList.delete row (d_saves d)\<rparr>"
      using games_delete_save_Inr [OF c [unfolded Inr]] by blast
    then obtain r where "map_of (d_saves d) row = Some r" unfolding games_load_save_Inr by auto
    then show ?thesis using drop_save_view(2) [OF assms] n(3) c by simp
  qed
qed

text \<open>A game the user does not own is missing for the calls that name it first.\<close>

lemma db_missing_rows:
  assumes "canon i \<noteq> None" "db_known d user" "\<not> owned (db_sess d) user i"
  obtains w k where "user_row_id u user = Inr w" "row_id u i = Inr k"
    "\<And>g. map_of (d_games d) k = Some g \<Longrightarrow> g_user g \<noteq> w"
proof -
  obtain k where k: "i = id_of k" "rowid_ok k" using assms(1) by (auto simp: canon_Some)
  obtain w where w: "user = id_of w" "rowid_ok w" using assms(2) by (auto simp: db_known_def canon_Some)
  have "g_user g \<noteq> w" if "map_of (d_games d) k = Some g" for g
    using assms(3) k w that by (auto simp: owned_row)
  then show ?thesis using that [of w k] k w by simp
qed

lemma db_missing:
  assumes "db_up e" "canon i \<noteq> None" "db_known d user" "\<not> owned (db_sess d) user i"
  shows "\<exists>err. games_saves u e user i d = Inl err \<and> errors_is err ErrSessionNotFound"
    and "\<exists>err. games_delete u e user i d = (Inl err, d) \<and> errors_is err ErrSessionNotFound"
    and "canon k \<noteq> None \<Longrightarrow> \<exists>err. games_delete_save u e user i k d = (Inl err, d) \<and> errors_is err ErrSessionNotFound"
proof -
  obtain w r where w: "user_row_id u user = Inr w" "row_id u i = Inr r"
    "\<And>g. map_of (d_games d) r = Some g \<Longrightarrow> g_user g \<noteq> w"
    using db_missing_rows [OF assms(2-4)] by metis
  note up = db_upD [OF assms(1), of 0] db_upD [OF assms(1), of 1]
  have o: "\<exists>err. owns_game e 1 w r d = Inl err \<and> errors_is err ErrSessionNotFound"
    using w(3) up by (auto simp: owns_game_def split: option.splits)
  then show "\<exists>err. games_saves u e user i d = Inl err \<and> errors_is err ErrSessionNotFound"
    using w(1,2) up by (auto simp: games_saves_def simp del: row_id_Inr user_row_id_Inr)
  show "\<exists>err. games_delete u e user i d = (Inl err, d) \<and> errors_is err ErrSessionNotFound"
    using w up by (auto simp: games_delete_def simp del: row_id_Inr user_row_id_Inr split: option.splits)
  assume "canon k \<noteq> None"
  then obtain j where "k = id_of j" "rowid_ok j" by (auto simp: canon_Some)
  then have "save_row_id u k = Inr j" by simp
  with o show "\<exists>err. games_delete_save u e user i k d = (Inl err, d) \<and> errors_is err ErrSessionNotFound"
    using w(1,2) up
    by (auto simp: games_delete_save_def games_load_save_def simp del: row_id_Inr user_row_id_Inr save_row_id_Inr)
qed

lemma games_ops_simps [simp]:
  "st_create (games_ops u) = games_create u" "st_load (games_ops u) = games_load u"
  "st_update (games_ops u) = games_update u" "st_list (games_ops u) = games_list u"
  "st_delete (games_ops u) = games_delete u" "st_create_save (games_ops u) = games_create_save u"
  "st_saves (games_ops u) = games_saves u" "st_load_save (games_ops u) = games_load_save u"
  "st_delete_save (games_ops u) = games_delete_save u"
  by (simp_all add: games_ops_def)

text \<open>Package database's \<open>Sessions\<close> keeps every promise of the interface.\<close>

interpretation db: game_store "games_ops u" db_up db_room db_known "\<lambda>i. canon i \<noteq> None" nocase db_inv db_sess db_shelf
  for u :: unicode
proof (unfold_locales, goal_cases)
  case (1 d i s)
  then obtain k g where k: "i = id_of k" "rowid_ok k" "map_of (d_games d) k = Some g" "s = session_of_row k g"
    unfolding db_sess_Some by blast
  with db_inv_game [OF 1(1) k(3)] show ?case by (simp add: db_known_def storable_row)
next
  case (2 d i k n)
  then obtain g j gr r where s: "i = id_of g" "rowid_ok g" "k = id_of j" "map_of (d_games d) g = Some gr"
      "map_of (d_saves d) j = Some r" "n = snapshot_of_row (id_of (g_user gr)) i j r"
    unfolding db_shelf_Some by blast
  with db_inv_save(2) [OF 2(1) s(5)] show ?case by (simp add: db_sess_id_of check_save_def read_state_def)
next
  case (3 d i k n l m)
  obtain g j r where s: "i = id_of g" "k = id_of j" "map_of (d_saves d) j = Some r" "r_game r = g" "n_name n = r_name r"
    using 3(2) unfolding db_shelf_Some by auto
  obtain g' j' r' where s': "i = id_of g'" "l = id_of j'" "map_of (d_saves d) j' = Some r'" "r_game r' = g'"
      "n_name m = r_name r'"
    using 3(3) unfolding db_shelf_Some by auto
  show ?case using db_inv_names [OF 3(1) s(3) s'(3)] 3(4) s s' by simp
next
  case (4 d i)
  then show ?case by (rule db_shelf_bound)
next
  case (5 d user e i s)
  then show ?case using db_load_sound [of d user u e i s] by simp
next
  case (6 d e i s user)
  then show ?case using db_load_complete [of d e i s user u] by simp
next
  case (7 d e i user)
  then show ?case using games_load_Inl [OF 7(2) refl 7(3,4,5), of u] by simp
next
  case (8 d e s)
  obtain s' d' where "games_create u e s d = (Inr s', d')" using games_create_up [OF 8(2-5)] by blast
  from games_create_effect [OF 8(1,4,5) this] this show ?case unfolding games_ops_simps by blast
next
  case (9 d s e)
  obtain r d' where c: "games_create u e s d = (r, d')" by force
  show ?case
  proof (cases r)
    case (Inl err)
    then show ?thesis using games_create_fail [of u e s d err d'] c 9(1) by simp
  next
    case (Inr s')
    then show ?thesis using games_create_effect [OF 9 c [unfolded Inr]] c by (auto )
  qed
next
  case (10 e s d)
  show ?case unfolding games_ops_simps by (rule known_users [OF games_users(1)])
next
  case (11 d s e s' d')
  have "games_create u e s d = (Inr s', d')" using 11(4) by (simp only: games_ops_simps)
  from games_create_effect [OF 11(1-3) this] obtain k where k: "s' = s\<lparr>s_id := k, s_version := 1\<rparr>"
    "db_sess d k = None" "db_sess d' = (db_sess d)(k \<mapsto> s')" "db_shelf d' = db_shelf d" by metis
  show ?case by (intro exI [of _ k] conjI k)
next
  case (12 e s d err d')
  then show ?case using games_create_fail [of u e s d err d'] by simp
next
  case (13 d e s c)
  obtain s' d' where w: "games_update u e s d = (Inr s', d')"
    using games_update_up(1) [OF 13(1-4,6,7)] by blast
  with games_update_effect [OF 13(1,3,4,5,7) w] show ?case by simp
next
  case (14 d e s c)
  then show ?case using games_update_up(2) [OF 14(1-5), of u] by simp
next
  case (15 e s d err d')
  then show ?case using games_update_fail [of u e s d err d'] by simp
next
  case (16 d s c e s' d')
  then show ?case using games_update_effect [OF 16(1-5), of u e s' d'] by simp
next
  case (17 d s c e)
  obtain r d' where w: "games_update u e s d = (r, d')" by force
  show ?case
  proof (cases r)
    case (Inl err)
    then show ?thesis using games_update_fail [of u e s d err d'] w 17(1) by simp
  next
    case (Inr s')
    have k: "s_key c = s_key s" "storable s" "s_user c = s_user s" using 17(3-5) by simp_all
    show ?thesis using games_update_effect [OF 17(1,2) k(3,1,2) w [unfolded Inr]] w by simp
  qed
next
  case (18 e s d)
  show ?case unfolding games_ops_simps by (rule known_users [OF games_users(2)])
next
  case (19 d e i s user)
  obtain k where k: "i = id_of k" "rowid_ok k" using 19(3) unfolding db_sess_Some by blast
  then show ?case using db_delete_ok [OF 19, of u] drop_game_view [OF 19(1) k(2)] by simp
next
  case (20 e user i d err d')
  then show ?case using games_delete_fail [of u e user i d err d'] by simp
next
  case (21 d user e i d' j)
  obtain r where c: "games_delete u e user i d = (r, d')"
    using 21(3) by (cases "games_delete u e user i d") simp
  show ?case
  proof (cases "d' = d")
    case False
    with db_delete_did [OF 21(1) c] 21(2) obtain k where "d' = drop_game k d" "rowid_ok k"
      "owned (db_sess d) user (id_of k)" by blast
    moreover from this have "j \<noteq> id_of k" using 21(4) by auto
    ultimately show ?thesis using drop_game_view [OF 21(1), of k] by simp
  qed simp
next
  case (22 d e user i j s)
  obtain r d' where c: "games_delete u e user i d = (r, d')" by force
  show ?case
  proof (cases "d' = d")
    case True
    then show ?thesis using 22(2) c by simp
  next
    case False
    with db_delete_did [OF 22(1) c] obtain k where k: "d' = drop_game k d" "rowid_ok k" by blast
    show ?thesis using 22(2) drop_game_view(1) [OF 22(1) k(2)] k(1) c
      by (simp add: split: if_splits)
  qed
next
  case (23 d e user i)
  obtain r d' where c: "games_delete u e user i d = (r, d')" by force
  then show ?case using db_delete_did [OF 23 c] drop_game_view(3) [OF 23] 23
    by (cases "d' = d") (auto )
next
  case (24 e user i d)
  show ?case unfolding games_ops_simps by (rule known_users [OF games_users(3)])
next
  case (25 d e n k m)
  then show ?case using db_create_save_at(1) [OF 25(1-5), of k m u] by simp
next
  case (26 d e n)
  then have "\<forall>k m. db_shelf d (n_game n) k = Some m \<longrightarrow> \<not> nocase (n_name m) (n_name n)" by blast
  from db_create_save_at(2) [OF 26(1,2,4,5,6) this 26(8,3), of u] show ?case unfolding games_ops_simps by blast
next
  case (27 d e n)
  then have "\<forall>k m. db_shelf d (n_game n) k = Some m \<longrightarrow> \<not> nocase (n_name m) (n_name n)" by blast
  from db_create_save_at(3) [OF 27(1-5) this, of u] 27(7) show ?case by simp
next
  case (28 e n d err d')
  then show ?case using games_create_save_fail [of u e n d err d'] by simp
next
  case (29 d n e d')
  obtain r where "games_create_save u e n d = (r, d')"
    using 29(4) by (cases "games_create_save u e n d") simp
  with games_create_save_frame [OF 29(1,2) this 29(3)] show ?case by simp
next
  case (30 d n e)
  obtain r d' where c: "games_create_save u e n d = (r, d')" by force
  with games_create_save_frame(1) [OF 30(1,2) c 30(4)] show ?case by simp
next
  case (31 e n d)
  show ?case unfolding games_ops_simps by (rule known_users [OF games_create_save_users])
next
  case (32 d e user i)
  then show ?case using games_saves_up [OF 32, of u] by simp
next
  case (33 d e user i k n)
  then show ?case using games_load_save_up [OF 33, of u] by simp
next
  case (34 d user e i k n)
  then have l: "games_load_save u e user i k d = Inr n" by simp
  obtain owner game row g r where o: "user_row_id u user = Inr owner" "row_id u i = Inr game" "save_row_id u k = Inr row"
      "map_of (d_games d) game = Some g" "g_user g = owner" "map_of (d_saves d) row = Some r" "r_game r = game"
      "n = snapshot_of_row user i row r"
    using l unfolding games_load_save_Inr by blast
  have ok: "rowid_ok game" "rowid_ok row" using o(2,3) by (simp_all add: result_iff)
  have us: "user = id_of owner" using known_owner [OF 34(2) o(1)] .
  have "owned (db_sess d) user (id_of game)" using o(4,5) ok us by (auto simp: owned_row)
  moreover have "db_shelf d (id_of game) (n_id n) = Some (snapshot_of_row user (id_of game) row r)"
    using o ok us by (simp add: db_shelf_def)
  moreover have "n = (snapshot_of_row user (id_of game) row r)\<lparr>n_game := n_game n, n_user := n_user n\<rparr>"
    by (simp add: o(8) snapshot_of_row_def)
  ultimately show ?case by blast
next
  case (35 d e user i k n)
  then show ?case using db_delete_save_at [OF 35, of u] by simp
next
  case (36 e user i k d err d')
  then show ?case using games_delete_save_fail [of u e user i k d err d'] by simp
next
  case (37 d user e i k d')
  obtain r where "games_delete_save u e user i k d = (r, d')"
    using 37(3) by (cases "games_delete_save u e user i k d") simp
  with games_delete_save_frame [OF 37(1,2) this] show ?case by simp
next
  case (38 d e user i k)
  then show ?case using db_delete_save_inv [OF 38, of u e user i k] by simp
next
  case (39 e user i k d)
  show ?case unfolding games_ops_simps by (rule known_users [OF games_users(4)])
next
  case (40 d i e user s)
  then show ?case unfolding games_ops_simps games_load_Inr canon_def
    by (auto simp: result_iff split: option.splits if_splits)
next
  case (41 d i j e user)
  obtain r d' where c: "games_delete u e user i d = (r, d')" by force
  show ?case
  proof (cases "r")
    case (Inl err)
    then show ?thesis using games_delete_fail [of u e user i d err d'] c by simp
  next
    case (Inr x)
    from games_delete_Inr [OF c [unfolded Inr]] obtain k where k: "row_id u i = Inr k" "d' = drop_game k d" by blast
    then have "rowid_ok k" "i = id_of k" using 41(2) by (auto simp: result_iff canon_def split: option.splits if_splits)
    then show ?thesis using drop_game_view(1) [OF 41(1), of k] k(2) 41(3) c by simp
  qed
next
  case (42 d e i user)
  then show ?case using db_missing(1) [OF 42(2-5), of u] by simp
next
  case (43 d e i user)
  then show ?case using db_missing(2) [OF 43(2-5), of u] by simp
next
  case (44 d e i k user)
  then show ?case using db_missing(3) [OF 44(2,3,5,6,4), of u] by simp
qed

end
