(* ===== verification/Service_Laws.thy ===== *)
theory Service_Laws
  imports Game_Service Db_Store_Laws
begin

text \<open>
  What the game service promises, proved once from the store's laws (locale \<open>game_store\<close>)
  and read off for each store that interprets them: a failed call writes nothing, no call
  touches another user's games, every call keeps the store's invariant, and what a turn, a
  save, a restore, a restart and a deletion leave behind.
\<close>

section \<open>A failed call writes nothing\<close>

lemma nth_use_0 [simp]: "nth_use 0 e = e"
  by (simp add: nth_use_def later_def)

text \<open>What the code relies on in the engine: a result that has not halted carries a state.\<close>

definition result_ok :: "z_result \<Rightarrow> bool" where
  "result_ok r \<longleftrightarrow> (case z_state r of None \<Rightarrow> z_halted r | Some b \<Rightarrow> b \<noteq> [])"

definition engine_ok :: "('story, 'm) engine \<Rightarrow> bool" where
  "engine_ok eng \<longleftrightarrow> (\<forall>e m r. z_start eng e m = Inr r \<longrightarrow> result_ok r)
     \<and> (\<forall>e m c r. z_run eng e m c = Inr r \<longrightarrow> result_ok r)"

lemma engine_okD:
  "engine_ok eng \<Longrightarrow> runner_start eng r e (Some en) = Inr res \<Longrightarrow> result_ok res"
  "engine_ok eng \<Longrightarrow> runner_run eng r e (Some en) sv c = Inr res \<Longrightarrow> result_ok res"
  by (auto simp: engine_ok_def runner_start_Inr runner_run_Inr)

lemma session_of [simp]:
  "s_id (played s c r) = s_id s" "s_user (played s c r) = s_user s" "s_key (played s c r) = s_key s"
  "s_version (played s c r) = s_version s"
  "s_id (restored u s n c) = s_id s" "s_user (restored u s n c) = s_user s"
  "s_key (restored u s n c) = s_key s" "s_version (restored u s n c) = s_version s"
  "s_id (restarted s r) = s_id s" "s_user (restarted s r) = s_user s"
  "s_key (restarted s r) = s_key s" "s_version (restarted s r) = s_version s"
  by (simp_all add: played_def restored_def restarted_def)

lemma storable_written [simp]:
  "storable (played s c r) \<longleftrightarrow> result_ok r" "storable (restarted s r) \<longleftrightarrow> result_ok r"
  "\<not> no_bytes (n_state n) \<Longrightarrow> storable (restored u s n c)"
  "storable (s\<lparr>s_transcript := t\<rparr>) \<longleftrightarrow> storable s"
  by (simp_all add: storable_def played_def restarted_def restored_def result_ok_def no_bytes_def
      split: option.splits)

lemma snapshot_of_simps [simp]:
  "n_user (snapshot_of user i name s) = user" "n_game (snapshot_of user i name s) = i"
  "n_name (snapshot_of user i name s) = name" "n_key (snapshot_of user i name s) = s_key s"
  "n_state (snapshot_of user i name s) = s_state s" "n_status (snapshot_of user i name s) = s_status s"
  "n_transcript (snapshot_of user i name s) = s_transcript s" "n_turn (snapshot_of user i name s) = s_turn s"
  by (simp_all add: snapshot_of_def)

text \<open>A session written over another: what a turn and a restart set, and what they leave.\<close>

lemma session_written:
  "(s :: session)\<lparr>s_state := st, s_transcript := tr, s_status := l, s_turn := n, s_halted := h, s_version := v\<rparr> =
     \<lparr>s_id = s_id s, s_user = s_user s, s_key = s_key s, s_state = st, s_transcript = tr, s_status = l,
      s_turn = n, s_version = v, s_halted = h\<rparr>"
  by simp

text \<open>The operations a request handler can ask of the service, as one type.\<close>

datatype request =
    NewGame string
  | Play string string
  | Restart string
  | Delete string
  | Save string string
  | Restore string string
  | DeleteSave string string

definition service_do ::
  "('story, 'm, 'st) service \<Rightarrow> env \<Rightarrow> string \<Rightarrow> request \<Rightarrow> 'st \<Rightarrow> unit result \<times> 'st" where
  "service_do v e user q st =
     (case q of
        NewGame story \<Rightarrow> map_prod (map_sum id (\<lambda>_. ())) id (service_new_game v e user story st)
      | Play i command \<Rightarrow> map_prod (map_sum id (\<lambda>_. ())) id (service_play v e user i command st)
      | Restart i \<Rightarrow> map_prod (map_sum id (\<lambda>_. ())) id (service_restart v e user i st)
      | Delete i \<Rightarrow> service_delete v e user i st
      | Save i name \<Rightarrow> map_prod (map_sum id (\<lambda>_. ())) id (service_save v e user i name st)
      | Restore i k \<Rightarrow> map_prod (map_sum id (\<lambda>_. ())) id (service_restore v e user i k st)
      | DeleteSave i k \<Rightarrow> map_prod (map_sum id (\<lambda>_. ())) id (service_delete_save v e user i k st))"

fun service_all ::
  "('story, 'm, 'st) service \<Rightarrow> (env \<times> string \<times> request) list \<Rightarrow> 'st \<Rightarrow> 'st" where
  "service_all v [] st = st"
| "service_all v ((e, user, q) # qs) st = service_all v qs (snd (service_do v e user q st))"

text \<open>A session that is still there has its owner and its story, and if anything has been
  written to it since its version is higher.\<close>

definition grows :: "(string \<Rightarrow> session option) \<Rightarrow> (string \<Rightarrow> session option) \<Rightarrow> bool" where
  "grows m m' \<longleftrightarrow> (\<forall>j c c'. m j = Some c \<longrightarrow> m' j = Some c' \<longrightarrow>
     s_user c' = s_user c \<and> s_key c' = s_key c \<and> (c' = c \<or> s_version c < s_version c'))"

lemma growsD: "grows m m' \<Longrightarrow> m j = Some c \<Longrightarrow> m' j = Some c' \<Longrightarrow>
    s_user c' = s_user c \<and> s_key c' = s_key c \<and> (c' = c \<or> s_version c < s_version c')"
  unfolding grows_def by blast

lemma grows_simps [simp]: "grows m m" "grows m (m(i := None))"
  "m i = None \<Longrightarrow> grows m (m(i \<mapsto> s))"
  by (auto simp: grows_def)

lemma grows_write:
  "m i = Some c \<Longrightarrow> s_version c < s_version c' \<Longrightarrow> s_user c' = s_user c \<Longrightarrow> s_key c' = s_key c \<Longrightarrow>
    grows m (m(i \<mapsto> c'))"
  by (simp add: grows_def)

lemmas split_calls = sum.splits option.splits prod.splits if_splits

context game_store begin

lemma save_locked_fail:
  assumes v: "svc_store v = ops" and "save_locked v e user i name echo st = (Inl err, st')"
  shows "st' = st"
  using assms(2) by (auto simp: save_locked_def Let_def v split: split_calls dest: create_save_fail)

lemma restore_locked_fail:
  assumes v: "svc_store v = ops" and "restore_locked v e user i k echo st = (Inl err, st')"
  shows "st' = st"
  using assms(2) by (auto simp: restore_locked_def v split: split_calls dest: update_fail)

lemma play_turn_fail:
  assumes v: "svc_store v = ops" and "play_turn v e user i c st = (Inl err, st')"
  shows "st' = st"
  using assms(2) by (auto simp: play_turn_def v split: split_calls dest: update_fail)

lemma play_fail:
  assumes v: "svc_store v = ops" and "service_play v e user i c st = (Inl err, st')"
  shows "st' = st"
  using assms(2) save_locked_fail [OF assms(1)] restore_locked_fail [OF assms(1)] play_turn_fail [OF assms(1)]
  by (auto simp: service_play_def play_save_def play_restore_def Let_def v split: split_calls intent.splits)

lemma do_fail:
  assumes v: "svc_store v = ops" and "service_do v e user q st = (Inl err, st')"
  shows "st' = st"
proof (cases q)
  case (NewGame story)
  with assms(2) show ?thesis
    by (auto simp: service_do_def v service_new_game_def split: split_calls dest: create_fail)
next
  case (Play i c)
  with assms(2) show ?thesis
    using play_fail [OF assms(1)] by (cases "service_play v e user i c st") (auto simp: service_do_def v map_sum_def split: sum.splits)
next
  case (Restart i)
  with assms(2) show ?thesis
    by (auto simp: service_do_def v service_restart_def split: split_calls dest: update_fail)
next
  case (Delete i)
  with assms(2) show ?thesis
    by (auto simp: service_do_def v service_delete_def split: split_calls dest: delete_fail)
next
  case (Save i name)
  with assms(2) show ?thesis using save_locked_fail [OF assms(1)]
    by (auto simp: service_do_def v service_save_def split: split_calls)
next
  case (Restore i k)
  with assms(2) show ?thesis using restore_locked_fail [OF assms(1)]
    by (cases "restore_locked v e user i k ''restore'' st")
      (auto simp: service_do_def v service_restore_def map_sum_def split: split_calls)
next
  case (DeleteSave i k)
  with assms(2) show ?thesis
    by (auto simp: service_do_def v service_delete_save_def split: split_calls dest: delete_save_fail)
qed

section \<open>Every call keeps the invariant, and other users' games\<close>

text \<open>
  A user's call may change the sessions the user owns and create new ones; what other users
  own stays as it is, and so does who owns what.
\<close>

lemma write_back:
  assumes "inv st" "known st user" "st_load ops e user i st = Inr s"
    and "s_id s' = s_id s" "s_user s' = s_user s" "s_key s' = s_key s" "storable s'"
    and "st_update ops e' s' st1 = (r, st')" "inv st1" "sess st1 = sess st"
  shows "inv st' \<and> known st' = known st1 \<and> (\<forall>j. \<not> owned (sess st) user j \<longrightarrow> sess st' j = sess st j)
    \<and> shelf st' = shelf st1 \<and> grows (sess st) (sess st')"
proof -
  have l: "sess st1 (s_id s') = Some s" "s_user s = user" using load_sound [OF assms(1-3)] assms(4,10) by simp_all
  have own: "owned (sess st) user (s_id s')" using l assms(10) by (auto simp: owned_def)
  have k: "known st' = known st1" using update_known [of e' s' st1] assms(8) by simp
  have i: "inv st'" using update_inv [OF assms(9) l(1), of e'] assms(5-8) by simp
  have "(\<forall>j. \<not> owned (sess st) user j \<longrightarrow> sess st' j = sess st j) \<and> shelf st' = shelf st1
    \<and> grows (sess st) (sess st')"
  proof (cases r)
    case (Inl err)
    then show ?thesis using update_fail [of e' s' st1 err st'] assms(8,10) by auto
  next
    case (Inr x)
    then have "x = s'\<lparr>s_version := s_version s' + 1\<rparr>" "s_version s = s_version s'"
        "sess st' = (sess st)(s_id s' \<mapsto> x)" "shelf st' = shelf st1"
      using update_effect [OF assms(9) l(1), of e' x st'] assms(5-8,10) by simp_all
    then show ?thesis using own l(1) assms(5,6,10) by (auto intro!: grows_write)
  qed
  then show ?thesis using k i by blast
qed

text \<open>One call of user \<open>user\<close> took \<open>st\<close> to \<open>st'\<close> properly.\<close>

definition proper :: "'st \<Rightarrow> string \<Rightarrow> 'st \<Rightarrow> bool" where
  "proper st user st' \<longleftrightarrow> inv st' \<and> known st' = known st \<and>
     (\<forall>j s. sess st j = Some s \<longrightarrow> s_user s \<noteq> user \<longrightarrow> sess st' j = Some s \<and> shelf st' j = shelf st j)
     \<and> grows (sess st) (sess st')"

lemma proper_refl: "inv st \<Longrightarrow> proper st user st"
  by (simp add: proper_def)

lemma proper_frame:
  assumes "inv st'" "known st' = known st" "\<And>j. \<not> owned (sess st) user j \<Longrightarrow> sess st' j = sess st j"
    "\<And>j. \<not> owned (sess st) user j \<Longrightarrow> shelf st' j = shelf st j" "grows (sess st) (sess st')"
  shows "proper st user st'"
  using assms by (auto simp: proper_def owned_def)

lemma proper_write:
  assumes "inv st" "known st user" "st_load ops e user i st = Inr s"
    and "s_id s' = s_id s" "s_user s' = s_user s" "s_key s' = s_key s" "storable s'"
    and "st_update ops e' s' st = (r, st')"
  shows "proper st user st'"
  using write_back [OF assms(1-8) assms(1) refl] by (auto intro!: proper_frame)

lemma save_locked_proper:
  assumes "svc_store v = ops" "inv st" "known st user" "clean_name name"
    and "save_locked v e user i name echo st = (r, st')"
  shows "proper st user st'"
proof (cases "st_load ops e user i st")
  case (Inl err)
  then show ?thesis using assms by (auto simp: save_locked_def intro: proper_refl)
next
  case (Inr s)
  let ?n = "snapshot_of user i name s"
  obtain c st1 where c: "st_create_save ops (nth_use 1 e) ?n st = (c, st1)" by force
  have l: "sess st (s_id s) = Some s" using load_sound [OF assms(2,3) Inr] by simp
  show ?thesis
  proof (cases "no_bytes (s_state s)")
    case True
    then show ?thesis using assms Inr by (auto simp: save_locked_def intro: proper_refl)
  next
    case False
    have i1: "inv st1" and k1: "known st1 = known st"
      using create_save_inv [of st ?n "nth_use 1 e"] create_save_known [of "nth_use 1 e" ?n st] assms(2-4) False c by simp_all
    have f1: "sess st1 = sess st" "\<And>j. \<not> owned (sess st) user j \<Longrightarrow> shelf st1 j = shelf st j"
      using create_save_frame [OF assms(2), of ?n "nth_use 1 e" st1] assms(3,4) c by simp_all
    show ?thesis
    proof (cases c)
      case (Inl err)
      then show ?thesis using assms \<open>st_load ops e user i st = Inr s\<close> False c i1 k1 f1
        by (auto simp: save_locked_def intro!: proper_frame)
    next
      case c': (Inr p)
      let ?s = "s\<lparr>s_transcript := append_notice (s_transcript s) echo
         (saved_notice (svc_unicode v) (sv_name (fst p)) (snd p))\<rparr>"
      obtain r' where "st_update ops (nth_use 2 e) ?s st1 = (r', st')"
        using assms(1,5) Inr False c c' by (cases p) (auto simp: save_locked_def Let_def split: split_calls)
      note u = this
      have "storable s" using sess_wf [OF assms(2) l] by simp
      then have w: "inv st'" "known st' = known st1" "shelf st' = shelf st1" "grows (sess st) (sess st')"
          "\<And>j. \<not> owned (sess st) user j \<Longrightarrow> sess st' j = sess st j"
        using write_back [OF assms(2,3) Inr _ _ _ _ u i1 f1(1)] by simp_all
      then show ?thesis using w k1 f1 by (auto intro!: proper_frame)
    qed
  qed
qed

lemma loaded_state:
  assumes "inv st" "known st user" "st_load_save ops e user i k st = Inr n"
  shows "\<not> no_bytes (n_state n)"
proof -
  obtain j n' where n': "shelf st j (n_id n) = Some n'" "n = n'\<lparr>n_game := n_game n, n_user := n_user n\<rparr>"
    using load_save_sound [OF assms] by blast
  have "n_state n = n_state n'" by (subst n'(2)) simp
  then show ?thesis using shelf_wf [OF assms(1) n'(1)] by simp
qed

lemma restore_locked_proper:
  assumes "svc_store v = ops" "inv st" "known st user"
    and "restore_locked v e user i k echo st = (r, st')"
  shows "proper st user st'"
proof (cases "st_load ops e user i st")
  case (Inl err)
  then show ?thesis using assms by (auto simp: restore_locked_def intro: proper_refl)
next
  case (Inr s)
  show ?thesis
  proof (cases "st_load_save ops (nth_use 1 e) user i k st")
    case (Inl err)
    then show ?thesis using assms Inr by (auto simp: restore_locked_def intro: proper_refl)
  next
    case n: (Inr n)
    then have st: "storable (restored (svc_unicode v) s n echo)" using loaded_state [OF assms(2,3)] by simp
    show ?thesis
    proof (cases "n_key n = s_key s")
      case True
      then obtain r' where "st_update ops (nth_use 2 e) (restored (svc_unicode v) s n echo) st = (r', st')"
        using assms(1,4) Inr n by (auto simp: restore_locked_def split: split_calls)
      then show ?thesis using proper_write [OF assms(2,3) Inr _ _ _ st] by simp
    next
      case False
      then show ?thesis using assms Inr n by (auto simp: restore_locked_def intro: proper_refl)
    qed
  qed
qed

lemma play_turn_proper:
  assumes "svc_store v = ops" "engine_ok (svc_engine v)" "inv st" "known st user"
    and "play_turn v e user i c st = (r, st')"
  shows "proper st user st'"
proof (cases "\<exists>s en res. st_load ops e user i st = Inr s \<and> runner_run (svc_engine v) (svc_runner v) (nth_use 1 e)
    (Some en) (s_state s) c = Inr res \<and> (\<exists>r'. st_update ops (nth_use 2 e) (played s c res) st = (r', st'))")
  case True
  then obtain s en res r' where l: "st_load ops e user i st = Inr s"
      and m: "runner_run (svc_engine v) (svc_runner v) (nth_use 1 e) (Some en) (s_state s) c = Inr res"
      and w: "st_update ops (nth_use 2 e) (played s c res) st = (r', st')" by blast
  have "storable (played s c res)" using engine_okD(2) [OF assms(2) m] by simp
  then show ?thesis using proper_write [OF assms(3,4) l _ _ _ _ w] by simp
next
  case False
  then have "st' = st" using assms(1,5) by (auto simp: play_turn_def split: split_calls)
  then show ?thesis using assms(3) by (simp add: proper_refl)
qed

lemma restart_proper:
  assumes "svc_store v = ops" "engine_ok (svc_engine v)" "inv st" "known st user"
    and "service_restart v e user i st = (r, st')"
  shows "proper st user st'"
proof (cases "\<exists>s en res. st_load ops e user i st = Inr s \<and> runner_start (svc_engine v) (svc_runner v) (nth_use 1 e)
    (Some en) = Inr res \<and> (\<exists>r'. st_update ops (nth_use 2 e) (restarted s res) st = (r', st'))")
  case True
  then obtain s en res r' where l: "st_load ops e user i st = Inr s"
      and m: "runner_start (svc_engine v) (svc_runner v) (nth_use 1 e) (Some en) = Inr res"
      and w: "st_update ops (nth_use 2 e) (restarted s res) st = (r', st')" by blast
  have "storable (restarted s res)" using engine_okD(1) [OF assms(2) m] by simp
  then show ?thesis using proper_write [OF assms(3,4) l _ _ _ _ w] by simp
next
  case False
  then have "st' = st" using assms(1,5) by (auto simp: service_restart_def split: split_calls)
  then show ?thesis using assms(3) by (simp add: proper_refl)
qed

lemma new_game_proper:
  assumes "svc_store v = ops" "engine_ok (svc_engine v)" "inv st" "known st user"
    and "service_new_game v e user story st = (r, st')"
  shows "proper st user st'"
proof (cases "\<exists>s r'. s_user s = user \<and> storable s \<and> st_create ops (nth_use 1 e) s st = (r', st')")
  case True
  then obtain s r' where s: "s_user s = user" "storable s" and c: "st_create ops (nth_use 1 e) s st = (r', st')" by blast
  have i: "inv st'" using create_inv [OF assms(3), of s "nth_use 1 e"] assms(4) s c by simp
  have k: "known st' = known st" using create_known [of "nth_use 1 e" s st] c by simp
  show ?thesis
  proof (cases r')
    case (Inl err)
    then show ?thesis using create_fail [of "nth_use 1 e" s st err st'] c assms(3) by (simp add: proper_refl)
  next
    case (Inr s')
    then obtain i' where "sess st i' = None" "sess st' = (sess st)(i' \<mapsto> s')" "shelf st' = shelf st"
      using create_effect [OF assms(3) _ s(2) c [unfolded Inr]] assms(4) s(1) by blast
    then show ?thesis using i k by (auto simp: proper_def grows_def)
  qed
next
  case False
  have "storable (zero_session\<lparr>s_user := user, s_key := en_key en, s_state := z_state res,
      s_transcript := z_output res, s_status := status_of (z_line res), s_halted := z_halted res\<rparr>)"
    if "runner_start (svc_engine v) (svc_runner v) e (Some en) = Inr res" for en :: "'a entry" and res
    using engine_okD(1) [OF assms(2) that] by (simp add: storable_def result_ok_def split: option.splits)
  then have "st' = st" using False assms(1,5) by (auto simp: service_new_game_def split: split_calls)
  then show ?thesis using assms(3) by (simp add: proper_refl)
qed

lemma play_proper:
  assumes "svc_store v = ops" "engine_ok (svc_engine v)" "inv st" "known st user"
    and "service_play v e user i c st = (r, st')"
  shows "proper st user st'"
proof (cases "st' = st")
  case True
  then show ?thesis using assms(3) by (simp add: proper_refl)
next
  case False
  let ?l = "interpret_line (svc_unicode v) c"
  consider "\<exists>r. play_turn v e user i c st = (r, st')"
    | "\<exists>n r. clean_save_name (c_name ?l) = Inr n \<and> save_locked v e user i n (c_text ?l) st = (r, st')"
    | "\<exists>e' k r. restore_locked v e' user i k (c_text ?l) st = (r, st')"
    using False assms(5)
    by (auto simp: service_play_def play_save_def play_restore_def Let_def split: split_calls intent.splits)
      (metis+)?
  then show ?thesis
    using play_turn_proper [OF assms(1-4)] save_locked_proper [OF assms(1,3,4)] restore_locked_proper [OF assms(1,3,4)]
      clean_save_name_shape by cases blast+
qed

lemma do_proper:
  assumes v: "svc_store v = ops" and eng: "engine_ok (svc_engine v)" and "inv st" "known st user"
  shows "proper st user (snd (service_do v e user q st))"
proof (cases q)
  case (NewGame story)
  then show ?thesis
    using new_game_proper [OF assms, of e story] by (cases "service_new_game v e user story st") (simp add: service_do_def)
next
  case (Play i c)
  then show ?thesis
    using play_proper [OF assms, of e i c] by (cases "service_play v e user i c st") (simp add: service_do_def)
next
  case (Restart i)
  then show ?thesis
    using restart_proper [OF assms, of e i] by (cases "service_restart v e user i st") (simp add: service_do_def)
next
  case (Delete i)
  obtain r st' where d: "st_delete ops e user i st = (r, st')" by force
  have "proper st user st'"
    using delete_frame [OF assms(3,4), of e i st'] delete_inv [OF assms(3), of e user i] delete_known [of e user i st]
      d
      delete_shrinks [OF assms(3), of e user i]
    by (auto intro!: proper_frame simp: grows_def)
  then show ?thesis using Delete d assms(3)
    by (auto simp: service_do_def service_delete_def v intro: proper_refl split: sum.splits)
next
  case (Save i name)
  have "proper st user (snd (service_save v e user i name st))"
  proof (cases "clean_save_name name")
    case (Inl err)
    then show ?thesis using assms(3) by (simp add: service_save_def proper_refl)
  next
    case (Inr n)
    obtain r st' where "save_locked v e user i n ''save'' st = (r, st')" by force
    with save_locked_proper [OF assms(1,3,4) clean_save_name_shape [OF Inr] this] Inr assms(3)
    show ?thesis by (auto simp: service_save_def proper_refl split: sum.splits)
  qed
  then show ?thesis using Save by (simp add: service_do_def)
next
  case (Restore i k)
  obtain r st' where "restore_locked v e user i k ''restore'' st = (r, st')" by force
  with restore_locked_proper [OF assms(1,3,4) this] Restore assms(3)
  show ?thesis by (auto simp: service_do_def service_restore_def proper_refl)
next
  case (DeleteSave i k)
  obtain r st' where d: "st_delete_save ops e user i k st = (r, st')" by force
  have "proper st user st'"
    using delete_save_frame [OF assms(3,4), of e i k st'] delete_save_inv [OF assms(3), of e user i k]
      delete_save_known [of e user i k st] d
    by (auto intro!: proper_frame)
  then show ?thesis using DeleteSave d assms(3)
    by (auto simp: service_do_def service_delete_save_def v intro: proper_refl split: sum.splits)
qed

text \<open>Any sequence of calls, by any users, keeps the invariant; and what a user has is left
  alone by the calls of the others.\<close>

lemma all_inv:
  assumes "svc_store v = ops" "engine_ok (svc_engine v)"
  shows "inv st \<Longrightarrow> (\<forall>q \<in> set qs. known st (fst (snd q))) \<Longrightarrow> inv (service_all v qs st)"
proof (induction qs arbitrary: st)
  case (Cons x qs)
  obtain e user q where x: "x = (e, user, q)" by (cases x)
  have "proper st user (snd (service_do v e user q st))"
    using do_proper [OF assms Cons.prems(1)] Cons.prems(2) x by auto
  then have "inv (snd (service_do v e user q st))" "known (snd (service_do v e user q st)) = known st"
    by (simp_all add: proper_def)
  with Cons show ?case by (auto simp: x)
qed simp

lemma all_others:
  assumes "svc_store v = ops" "engine_ok (svc_engine v)"
  shows "inv st \<Longrightarrow> (\<forall>q \<in> set qs. known st (fst (snd q)) \<and> fst (snd q) \<noteq> s_user s) \<Longrightarrow>
    sess st i = Some s \<Longrightarrow> sess (service_all v qs st) i = Some s \<and> shelf (service_all v qs st) i = shelf st i"
proof (induction qs arbitrary: st)
  case (Cons x qs)
  obtain e user q where x: "x = (e, user, q)" by (cases x)
  have "proper st user (snd (service_do v e user q st))" and u: "user \<noteq> s_user s"
    using do_proper [OF assms Cons.prems(1)] Cons.prems(2) x by auto
  then have "inv (snd (service_do v e user q st))" "known (snd (service_do v e user q st)) = known st"
      "sess (snd (service_do v e user q st)) i = Some s" "shelf (snd (service_do v e user q st)) i = shelf st i"
    using Cons.prems(3) by (auto simp: proper_def)
  with Cons show ?case by (auto simp: x)
qed simp

section \<open>What each call leaves behind\<close>

lemma load_eq:
  "inv st \<Longrightarrow> up e \<Longrightarrow> sess st i = Some s \<Longrightarrow> s_user s = user \<Longrightarrow> st_load ops e user i st = Inr s"
  by (rule load_complete)

text \<open>Writing back the session that was loaded.\<close>

lemma update_loaded:
  assumes "inv st" "up e" "sess st i = Some s"
    and "s_id s' = s_id s" "s_user s' = s_user s" "s_key s' = s_key s" "s_version s' = s_version s" "storable s'"
  shows "\<exists>st'. st_update ops e s' st = (Inr (s'\<lparr>s_version := s_version s + 1\<rparr>), st')
    \<and> sess st' = (sess st)(i \<mapsto> s'\<lparr>s_version := s_version s + 1\<rparr>) \<and> shelf st' = shelf st"
  using update_ok [OF assms(1,2), of s' s] sess_wf [OF assms(1,3)] assms(3-8) by simp

lemma play_ok:
  assumes v: "svc_store v = ops" and "inv st" "\<And>k. up (nth_use k e)" "sess st i = Some s" "s_user s = user"
    and "user \<noteq> []" "c_intent (interpret_line (svc_unicode v) c) = IntentPlay" "\<not> s_halted s"
    and "lib_by_key (svc_library v) (s_key s) = Some en"
    and "runner_run (svc_engine v) (svc_runner v) (nth_use 1 e) (Some en) (s_state s) c = Inr res" "result_ok res"
  shows "\<exists>st'. service_play v e user i c st = (Inr (zero_turn\<lparr>t_intent := IntentPlay,
        t_session := (played s c res)\<lparr>s_version := s_version s + 1\<rparr>, t_result := res\<rparr>), st')
    \<and> sess st' = (sess st)(i \<mapsto> (played s c res)\<lparr>s_version := s_version s + 1\<rparr>) \<and> shelf st' = shelf st"
proof -
  have l: "st_load ops e user i st = Inr s"
    using load_complete [OF assms(2) _ assms(4,5)] assms(3) [of 0] by simp
  show ?thesis
    using update_loaded [OF assms(2,3,4), of "played s c res" 2] assms(6-11) l
    by (auto simp: service_play_def play_turn_def Let_def v)
qed

text \<open>A turn that succeeded was run from the state stored under the version it replaced.\<close>

lemma play_sound:
  assumes v: "svc_store v = ops" and "inv st" "known st user" "service_play v e user i c st = (Inr t, st')"
    and p: "c_intent (interpret_line (svc_unicode v) c) = IntentPlay" and eng: "engine_ok (svc_engine v)"
  shows "\<exists>s en res. sess st (s_id s) = Some s \<and> s_user s = user \<and> \<not> s_halted s
    \<and> lib_by_key (svc_library v) (s_key s) = Some en
    \<and> runner_run (svc_engine v) (svc_runner v) (nth_use 1 e) (Some en) (s_state s) c = Inr res
    \<and> t_session t = (played s c res)\<lparr>s_version := s_version s + 1\<rparr>
    \<and> sess st' = (sess st)(s_id s \<mapsto> t_session t) \<and> shelf st' = shelf st"
proof -
  obtain s en res s' where l: "st_load ops e user i st = Inr s" and h: "\<not> s_halted s"
      and en: "lib_by_key (svc_library v) (s_key s) = Some en"
      and r: "runner_run (svc_engine v) (svc_runner v) (nth_use 1 e) (Some en) (s_state s) c = Inr res"
      and w: "st_update ops (nth_use 2 e) (played s c res) st = (Inr s', st')" and t: "t_session t = s'"
    using assms(4) p by (auto simp: service_play_def play_turn_def Let_def v split: split_calls)
  have s: "sess st (s_id s) = Some s" "s_user s = user" using load_sound [OF assms(2,3) l] by simp_all
  have "s' = (played s c res)\<lparr>s_version := s_version s + 1\<rparr> \<and> sess st' = (sess st)(s_id s \<mapsto> s') \<and> shelf st' = shelf st"
    using update_effect [OF assms(2) _ _ _ _ w] s engine_okD(2) [OF eng r] by simp
  with s h en r t show ?thesis by blast
qed

lemma restart_ok:
  assumes v: "svc_store v = ops" and "inv st" "\<And>k. up (nth_use k e)" "sess st i = Some s" "s_user s = user"
    and "user \<noteq> []" "lib_by_key (svc_library v) (s_key s) = Some en"
    and "runner_start (svc_engine v) (svc_runner v) (nth_use 1 e) (Some en) = Inr res" "result_ok res"
  shows "\<exists>st'. service_restart v e user i st = (Inr (zero_turn\<lparr>t_intent := IntentRestart,
        t_session := (restarted s res)\<lparr>s_version := s_version s + 1\<rparr>, t_result := res\<rparr>), st')
    \<and> sess st' = (sess st)(i \<mapsto> (restarted s res)\<lparr>s_version := s_version s + 1\<rparr>) \<and> shelf st' = shelf st"
proof -
  have l: "st_load ops e user i st = Inr s"
    using load_complete [OF assms(2) _ assms(4,5)] assms(3) [of 0] by simp
  show ?thesis
    using update_loaded [OF assms(2,3,4), of "restarted s res" 2] assms(6-9) l
    by (auto simp: service_restart_def v)
qed

lemma new_game_ok:
  assumes v: "svc_store v = ops" and "inv st" "up (nth_use 1 e)" "room st" "known st user" "user \<noteq> []"
    and "lib_by_id (svc_library v) story = Some en"
    and "runner_start (svc_engine v) (svc_runner v) e (Some en) = Inr res" "result_ok res"
  shows "\<exists>i st'. service_new_game v e user story st =
      (Inr (\<lparr>s_id = i, s_user = user, s_key = en_key en, s_state = z_state res, s_transcript = z_output res,
             s_status = status_of (z_line res), s_turn = 0, s_version = 1, s_halted = z_halted res\<rparr>, res), st')
    \<and> sess st i = None \<and> shelf st' = shelf st
    \<and> sess st' = (sess st)(i \<mapsto> \<lparr>s_id = i, s_user = user, s_key = en_key en, s_state = z_state res,
        s_transcript = z_output res, s_status = status_of (z_line res), s_turn = 0, s_version = 1,
        s_halted = z_halted res\<rparr>)"
proof -
  let ?s = "zero_session\<lparr>s_user := user, s_key := en_key en, s_state := z_state res,
      s_transcript := z_output res, s_status := status_of (z_line res), s_halted := z_halted res\<rparr>"
  have "storable ?s" using assms(9) by (simp add: storable_def result_ok_def split: option.splits)
  then show ?thesis
    using create_ok [OF assms(2-4), of ?s] assms(5-8)
    by (auto simp: service_new_game_def v zero_session_def)
qed

text \<open>
  A save lands under the identifier the game already keeps for that name, or a fresh one;
  the session only gains the notice.
\<close>

lemma save_ok:
  assumes v: "svc_store v = ops" and "inv st" "\<And>k. up (nth_use k e)" "sess st i = Some s" "s_user s = user"
    and "\<not> no_bytes (s_state s)" "clean_name name"
    and room: "(\<exists>k m. shelf st i k = Some m \<and> same (n_name m) name) \<or> card (dom (shelf st i)) < max_saves_per_game \<and> room st"
  shows "\<exists>k r st' s' n. save_locked v e user i name echo st = (Inr (s', summarize n, r), st')
    \<and> n = stored_as k (now (nth_use 1 e)) (snapshot_of user i name s)
    \<and> s' = s\<lparr>s_transcript := append_notice (s_transcript s) echo (saved_notice (svc_unicode v) name r),
              s_version := s_version s + 1\<rparr>
    \<and> (r \<longrightarrow> (\<exists>m. shelf st i k = Some m \<and> same (n_name m) name))
    \<and> (\<not> r \<longrightarrow> shelf st i k = None \<and> (\<forall>j m. shelf st i j = Some m \<longrightarrow> \<not> same (n_name m) name))
    \<and> sess st' = (sess st)(i \<mapsto> s') \<and> shelf st' = (shelf st)(i := (shelf st i)(k \<mapsto> n))"
proof -
  let ?n = "snapshot_of user i name s"
  have l: "st_load ops e user i st = Inr s"
    using load_complete [OF assms(2) _ assms(4,5)] assms(3) [of 0] by simp
  have own: "owned (sess st) (n_user ?n) (n_game ?n)" using assms(4,5) by (simp add: owned_def)
  have cr: "\<exists>k r st1. st_create_save ops (nth_use 1 e) ?n st = (Inr (summarize (stored_as k (now (nth_use 1 e)) ?n), r), st1)
      \<and> (r \<longrightarrow> (\<exists>m. shelf st i k = Some m \<and> same (n_name m) name))
      \<and> (\<not> r \<longrightarrow> shelf st i k = None \<and> (\<forall>j m. shelf st i j = Some m \<longrightarrow> \<not> same (n_name m) name))
      \<and> sess st1 = sess st \<and> shelf st1 = (shelf st)(i := (shelf st i)(k \<mapsto> stored_as k (now (nth_use 1 e)) ?n))"
  proof (cases "\<exists>k m. shelf st i k = Some m \<and> same (n_name m) name")
    case True
    then obtain k m where m: "shelf st i k = Some m" "same (n_name m) name" by blast
    show ?thesis using create_save_replace [OF assms(2,3) own, of k m 1] assms(6,7) m by fastforce
  next
    case False
    then show ?thesis using create_save_new [OF assms(2,3) _ own, of 1] assms(6,7) room by fastforce
  qed
  then obtain k r st1 where c: "st_create_save ops (nth_use 1 e) ?n st = (Inr (summarize (stored_as k (now (nth_use 1 e)) ?n), r), st1)"
    and kr: "r \<longrightarrow> (\<exists>m. shelf st i k = Some m \<and> same (n_name m) name)"
      "\<not> r \<longrightarrow> shelf st i k = None \<and> (\<forall>j m. shelf st i j = Some m \<longrightarrow> \<not> same (n_name m) name)"
    and s1: "sess st1 = sess st" and h1: "shelf st1 = (shelf st)(i := (shelf st i)(k \<mapsto> stored_as k (now (nth_use 1 e)) ?n))"
    by blast
  have kn: "known st user" "storable s" using sess_wf [OF assms(2,4)] assms(5) by auto
  have i1: "inv st1" using create_save_inv [OF assms(2), of ?n "nth_use 1 e"] kn assms(6,7) c by simp
  let ?s = "s\<lparr>s_transcript := append_notice (s_transcript s) echo (saved_notice (svc_unicode v) name r)\<rparr>"
  have "sess st1 i = Some s" using s1 assms(4) by simp
  from update_loaded [OF i1 assms(3) this, of ?s 2] kn(2) obtain st2 where
    u: "st_update ops (nth_use 2 e) ?s st1 = (Inr (?s\<lparr>s_version := s_version s + 1\<rparr>), st2)"
    and s2: "sess st2 = (sess st1)(i \<mapsto> ?s\<lparr>s_version := s_version s + 1\<rparr>)" "shelf st2 = shelf st1" by auto
  have "save_locked v e user i name echo st =
      (Inr (?s\<lparr>s_version := s_version s + 1\<rparr>, summarize (stored_as k (now (nth_use 1 e)) ?n), r), st2)"
    using l assms(6) c u by (simp add: save_locked_def v)
  with kr s1 h1 s2 show ?thesis by auto
qed

lemma save_full:
  assumes v: "svc_store v = ops" and "inv st" "\<And>k. up (nth_use k e)" "sess st i = Some s" "s_user s = user"
    and "\<not> no_bytes (s_state s)" "clean_name name" "\<forall>k m. shelf st i k = Some m \<longrightarrow> \<not> same (n_name m) name"
    and "card (dom (shelf st i)) = max_saves_per_game"
  shows "\<exists>err. save_locked v e user i name echo st = (Inl err, st) \<and> errors_is err ErrTooManySaves"
proof -
  let ?n = "snapshot_of user i name s"
  have l: "st_load ops e user i st = Inr s"
    using load_complete [OF assms(2) _ assms(4,5)] assms(3) [of 0] by simp
  have own: "owned (sess st) (n_user ?n) (n_game ?n)" using assms(4,5) by (simp add: owned_def)
  obtain err where "st_create_save ops (nth_use 1 e) ?n st = (Inl err, st)" "errors_is err ErrTooManySaves"
    using create_save_full [OF assms(2) assms(3) own, of 1] assms(6-9) by fastforce
  then show ?thesis using l assms(6) by (simp add: save_locked_def v session_err_def)
qed

text \<open>Restoring puts back the state, the status, the turn and the screen, and un-halts.\<close>

lemma restore_ok:
  assumes v: "svc_store v = ops" and "inv st" "\<And>k. up (nth_use k e)" "sess st i = Some s" "s_user s = user"
    and "shelf st i k = Some n" "n_key n = s_key s"
  shows "\<exists>st'. restore_locked v e user i k echo st =
        (Inr ((restored (svc_unicode v) s n echo)\<lparr>s_version := s_version s + 1\<rparr>, summarize n), st')
    \<and> sess st' = (sess st)(i \<mapsto> (restored (svc_unicode v) s n echo)\<lparr>s_version := s_version s + 1\<rparr>)
    \<and> shelf st' = shelf st"
proof -
  have l: "st_load ops e user i st = Inr s"
    using load_complete [OF assms(2) _ assms(4,5)] assms(3) [of 0] by simp
  have own: "owned (sess st) user i" using assms(4,5) by (simp add: owned_def)
  have n: "st_load_save ops (nth_use 1 e) user i k st = Inr n"
    using load_save_complete [OF assms(2,3) own assms(6)] .
  have "storable (restored (svc_unicode v) s n echo)" using shelf_wf [OF assms(2,6)] by simp
  then show ?thesis
    using update_loaded [OF assms(2,3,4), of "restored (svc_unicode v) s n echo" 2] l n assms(7)
    by (auto simp: restore_locked_def v summarize_def)
qed

text \<open>A save of another story image is refused.\<close>

lemma restore_mismatch:
  assumes v: "svc_store v = ops" and "inv st" "\<And>k. up (nth_use k e)" "sess st i = Some s" "s_user s = user"
    and "shelf st i k = Some n" "n_key n \<noteq> s_key s"
  shows "\<exists>err. restore_locked v e user i k echo st = (Inl err, st) \<and> errors_is err ErrSaveMismatch"
proof -
  have "st_load ops e user i st = Inr s"
    using load_complete [OF assms(2) _ assms(4,5)] assms(3) [of 0] by simp
  moreover have "owned (sess st) user i" using assms(4,5) by (simp add: owned_def)
  then have "st_load_save ops (nth_use 1 e) user i k st = Inr n"
    using load_save_complete [OF assms(2,3) _ assms(6)] by blast
  ultimately show ?thesis using assms(7) by (simp add: restore_locked_def v session_err_def)
qed

text \<open>
  Save, play on, restore: whatever calls left the save on the shelf, restoring it puts back
  the state, the status line and the turn count of the moment it was written.
\<close>

lemma save_restore:
  assumes v: "svc_store v = ops" and "inv st" "\<And>k. up (nth_use k e)" "sess st i = Some s" "s_user s = user"
    and "\<not> no_bytes (s_state s)" "clean_name name"
    and "(\<exists>k m. shelf st i k = Some m \<and> same (n_name m) name) \<or> card (dom (shelf st i)) < max_saves_per_game \<and> room st"
  shows "\<exists>s1 sv r st1. save_locked v e user i name echo st = (Inr (s1, sv, r), st1)
    \<and> (\<forall>st2 s2 e2 echo2. inv st2 \<longrightarrow> (\<forall>k. up (nth_use k e2)) \<longrightarrow> sess st2 i = Some s2 \<longrightarrow> s_user s2 = user
        \<longrightarrow> s_key s2 = s_key s \<longrightarrow> shelf st2 i (sv_id sv) = shelf st1 i (sv_id sv)
        \<longrightarrow> (\<exists>s3 st3. restore_locked v e2 user i (sv_id sv) echo2 st2 = (Inr (s3, sv), st3)
              \<and> sess st3 i = Some s3 \<and> s_state s3 = s_state s \<and> s_status s3 = s_status s
              \<and> s_turn s3 = s_turn s \<and> \<not> s_halted s3 \<and> s_version s3 = s_version s2 + 1
              \<and> s_transcript s3 = append_notice (s_transcript s) echo2 (restored_notice (svc_unicode v) name)
              \<and> shelf st3 = shelf st2))"
proof -
  obtain k r st1 s' n where sv: "save_locked v e user i name echo st = (Inr (s', summarize n, r), st1)"
      and n: "n = stored_as k (now (nth_use 1 e)) (snapshot_of user i name s)"
      and h: "shelf st1 = (shelf st)(i := (shelf st i)(k \<mapsto> n))"
    using save_ok [OF v assms(2-8), of echo] by blast
  have "\<exists>s3 st3. restore_locked v e2 user i (sv_id (summarize n)) echo2 st2 = (Inr (s3, summarize n), st3)
              \<and> sess st3 i = Some s3 \<and> s_state s3 = s_state s \<and> s_status s3 = s_status s
              \<and> s_turn s3 = s_turn s \<and> \<not> s_halted s3 \<and> s_version s3 = s_version s2 + 1
              \<and> s_transcript s3 = append_notice (s_transcript s) echo2 (restored_notice (svc_unicode v) name)
              \<and> shelf st3 = shelf st2"
    if a: "inv st2" "\<forall>k. up (nth_use k e2)" "sess st2 i = Some s2" "s_user s2 = user" "s_key s2 = s_key s"
      "shelf st2 i (sv_id (summarize n)) = shelf st1 i (sv_id (summarize n))" for st2 s2 e2 echo2
  proof -
    have "shelf st2 i (n_id n) = Some n" using a(6) h n by simp
    then obtain st3 where "restore_locked v e2 user i (n_id n) echo2 st2 =
        (Inr ((restored (svc_unicode v) s2 n echo2)\<lparr>s_version := s_version s2 + 1\<rparr>, summarize n), st3)"
      "sess st3 = (sess st2)(i \<mapsto> (restored (svc_unicode v) s2 n echo2)\<lparr>s_version := s_version s2 + 1\<rparr>)"
      "shelf st3 = shelf st2"
      using restore_ok [OF v a(1) _ a(3,4), of e2 "n_id n" n echo2] a(2,5) n by auto
    then show ?thesis using n by (simp add: restored_def)
  qed
  with sv show ?thesis by blast
qed

text \<open>A game thrown away is gone with its saves, and no other game is touched.\<close>

lemma delete_gone:
  assumes v: "svc_store v = ops" and "inv st" "\<And>k. up (nth_use k e)" "\<And>k. up (nth_use k e2)"
    and "sess st i = Some s" "s_user s = user" "user \<noteq> []"
  shows "\<exists>st'. service_delete v e user i st = (Inr (), st') \<and> sess st' = (sess st)(i := None)
    \<and> shelf st' = (shelf st)(i := Map.empty)
    \<and> (\<exists>err. service_session v e2 user i st' = Inl err \<and> errors_is err ErrSessionNotFound)"
proof -
  have u: "up e" "up e2" using assms(3) [of 0] assms(4) [of 0] by simp_all
  obtain st' where d: "st_delete ops e user i st = (Inr (), st')" and s: "sess st' = (sess st)(i := None)"
      "shelf st' = (shelf st)(i := Map.empty)"
    using delete_ok [OF assms(2) u(1) assms(5,6)] by blast
  have i: "inv st'" "known st' user" "wf_id i"
    using delete_inv [OF assms(2), of e user i] delete_known [of e user i st] sess_wf [OF assms(2,5)] assms(6) d by auto
  obtain err where "st_load ops e2 user i st' = Inl err" "errors_is err ErrSessionNotFound"
    using load_missing [OF i(1) u(2) i(3,2)] s by (auto simp: owned_def)
  then show ?thesis using d s assms(7) by (simp add: service_delete_def service_session_def v)
qed

text \<open>A session the user does not own is not found, whoever has it, whatever is asked of it.\<close>

lemma load_refused:
  assumes "inv st" "up e" "known st user" "wf_id i" "\<not> owned (sess st) user i"
  shows "\<exists>err. st_load ops e user i st = Inl err \<and> errors_is err ErrSessionNotFound"
  by (rule load_missing [OF assms(1,2,4,3,5)])

lemma stranger_refused:
  assumes v: "svc_store v = ops" and "inv st" "\<And>k. up (nth_use k e)" "known st user" "user \<noteq> []" "wf_id i"
    and "\<not> owned (sess st) user i"
  shows "\<exists>err. service_session v e user i st = Inl err \<and> errors_is err ErrSessionNotFound"
    and "\<exists>err. service_saves v e user i st = Inl err \<and> errors_is err ErrSessionNotFound"
    and "\<exists>err. service_restart v e user i st = (Inl err, st) \<and> errors_is err ErrSessionNotFound"
    and "\<exists>err. service_restore v e user i k st = (Inl err, st) \<and> errors_is err ErrSessionNotFound"
    and "clean_save_name name = Inr clean \<Longrightarrow>
      \<exists>err. service_save v e user i name st = (Inl err, st) \<and> errors_is err ErrSessionNotFound"
    and "\<exists>err. service_delete v e user i st = (Inl err, st) \<and> errors_is err ErrSessionNotFound"
    and "wf_id k \<Longrightarrow>
      \<exists>err. service_delete_save v e user i k st = (Inl err, st) \<and> errors_is err ErrSessionNotFound"
proof -
  have up: "up e" using assms(3) [of 0] by simp
  obtain err where l: "st_load ops e user i st = Inl err" "errors_is err ErrSessionNotFound"
    using load_refused [OF assms(2) up assms(4,6,7)] by auto
  then show "\<exists>err. service_session v e user i st = Inl err \<and> errors_is err ErrSessionNotFound"
    and "\<exists>err. service_restart v e user i st = (Inl err, st) \<and> errors_is err ErrSessionNotFound"
    and "\<exists>err. service_restore v e user i k st = (Inl err, st) \<and> errors_is err ErrSessionNotFound"
    and "clean_save_name name = Inr clean \<Longrightarrow>
      \<exists>err. service_save v e user i name st = (Inl err, st) \<and> errors_is err ErrSessionNotFound"
    using assms(5) by (auto simp: service_session_def service_restart_def service_restore_def restore_locked_def
      service_save_def save_locked_def session_err_def v)
  show "\<exists>err. service_saves v e user i st = Inl err \<and> errors_is err ErrSessionNotFound"
    using saves_missing [OF assms(2) up assms(6,4,7)] assms(5) by (auto simp: service_saves_def v)
  show "\<exists>err. service_delete v e user i st = (Inl err, st) \<and> errors_is err ErrSessionNotFound"
    using delete_missing [OF assms(2) up assms(6,4,7)] assms(5) by (auto simp: service_delete_def session_err_def v)
  show "\<exists>err. service_delete_save v e user i k st = (Inl err, st) \<and> errors_is err ErrSessionNotFound" if "wf_id k"
    using delete_save_missing [OF assms(2) up assms(6) that assms(4,7)] assms(5)
    by (auto simp: service_delete_save_def session_err_def v)
qed

text \<open>
  A line typed into such a game: the questions the application asks back are asked without
  looking, a name no save can have is refused for that, and everything else is not found.
\<close>

lemma stranger_plays:
  assumes v: "svc_store v = ops" and "inv st" "\<And>k. up (nth_use k e)" "known st user" "user \<noteq> []" "wf_id i"
    and "\<not> owned (sess st) user i" and l: "interpret_line (svc_unicode v) c = l"
  shows "c_intent l = IntentPlay \<Longrightarrow> \<exists>err. service_play v e user i c st = (Inl err, st) \<and> errors_is err ErrSessionNotFound"
    and "c_intent l = IntentRestart \<Longrightarrow>
      service_play v e user i c st = (Inr (zero_turn\<lparr>t_intent := IntentRestart, t_asked := True\<rparr>), st)"
    and "c_intent l = IntentSave \<Longrightarrow> c_name l = [] \<Longrightarrow>
      service_play v e user i c st = (Inr (zero_turn\<lparr>t_intent := IntentSave, t_asked := True\<rparr>), st)"
    and "c_intent l = IntentSave \<Longrightarrow> c_name l \<noteq> [] \<Longrightarrow> clean_save_name (c_name l) = Inl err \<Longrightarrow>
      service_play v e user i c st = (Inl err, st)"
    and "c_intent l = IntentSave \<Longrightarrow> c_name l \<noteq> [] \<Longrightarrow> clean_save_name (c_name l) = Inr clean \<Longrightarrow>
      \<exists>err. service_play v e user i c st = (Inl err, st) \<and> errors_is err ErrSessionNotFound"
    and "c_intent l = IntentRestore \<Longrightarrow> c_name l = [] \<Longrightarrow>
      service_play v e user i c st = (Inr (zero_turn\<lparr>t_intent := IntentRestore, t_asked := True\<rparr>), st)"
    and "c_intent l = IntentRestore \<Longrightarrow> c_name l \<noteq> [] \<Longrightarrow>
      \<exists>err. service_play v e user i c st = (Inl err, st) \<and> errors_is err ErrSessionNotFound"
proof -
  have up: "up e" using assms(3) [of 0] by simp
  obtain err' where load: "st_load ops e user i st = Inl err'" "errors_is err' ErrSessionNotFound"
    using load_refused [OF assms(2) up assms(4,6,7)] by auto
  obtain err'' where saves: "st_saves ops e user i st = Inl err''" "errors_is err'' ErrSessionNotFound"
    using saves_missing [OF assms(2) up assms(6,4,7)] by auto
  note s = service_play_def l play_turn_def play_save_def play_restore_def save_locked_def session_err_def v
    load saves assms(5)
  show "c_intent l = IntentPlay \<Longrightarrow> \<exists>err. service_play v e user i c st = (Inl err, st) \<and> errors_is err ErrSessionNotFound"
    by (simp add: s)
  show "c_intent l = IntentRestart \<Longrightarrow>
      service_play v e user i c st = (Inr (zero_turn\<lparr>t_intent := IntentRestart, t_asked := True\<rparr>), st)"
    by (simp add: s)
  show "c_intent l = IntentSave \<Longrightarrow> c_name l = [] \<Longrightarrow>
      service_play v e user i c st = (Inr (zero_turn\<lparr>t_intent := IntentSave, t_asked := True\<rparr>), st)"
    by (simp add: s)
  show "c_intent l = IntentSave \<Longrightarrow> c_name l \<noteq> [] \<Longrightarrow> clean_save_name (c_name l) = Inl err \<Longrightarrow>
      service_play v e user i c st = (Inl err, st)"
    by (simp add: s)
  show "c_intent l = IntentSave \<Longrightarrow> c_name l \<noteq> [] \<Longrightarrow> clean_save_name (c_name l) = Inr clean \<Longrightarrow>
      \<exists>err. service_play v e user i c st = (Inl err, st) \<and> errors_is err ErrSessionNotFound"
    by (simp add: s)
  show "c_intent l = IntentRestore \<Longrightarrow> c_name l = [] \<Longrightarrow>
      service_play v e user i c st = (Inr (zero_turn\<lparr>t_intent := IntentRestore, t_asked := True\<rparr>), st)"
    by (simp add: s)
  show "c_intent l = IntentRestore \<Longrightarrow> c_name l \<noteq> [] \<Longrightarrow>
      \<exists>err. service_play v e user i c st = (Inl err, st) \<and> errors_is err ErrSessionNotFound"
    by (simp add: s)
qed

text \<open>A turn that lost the race: the store moved between its read and its write.\<close>

lemma stale_write:
  assumes "inv st" "up e" "sess st (s_id s') = Some c" "s_user c = s_user s'" "s_version c \<noteq> s_version s'"
  shows "\<exists>err. st_update ops e s' st = (Inl err, st) \<and> errors_is err ErrVersionConflict"
  by (rule update_conflict [OF assms])

section \<open>No lost update\<close>

text \<open>
  Through any calls that leave the game there, its session is the one that was there or has
  a higher version. So a write that was prepared against a session, in this process or
  another, is accepted exactly when nothing has been written in between.
\<close>

lemma all_grows:
  assumes v: "svc_store v = ops" and eng: "engine_ok (svc_engine v)"
  shows "inv st \<Longrightarrow> \<forall>q \<in> set qs. known st (fst (snd q)) \<Longrightarrow> sess st i = Some s \<Longrightarrow>
    \<forall>k \<le> length qs. sess (service_all v (take k qs) st) i \<noteq> None \<Longrightarrow>
    \<exists>c. sess (service_all v qs st) i = Some c \<and> s_user c = s_user s \<and> s_key c = s_key s
      \<and> (c = s \<or> s_version s < s_version c)"
proof (induction qs arbitrary: st s)
  case (Cons x qs)
  obtain e user q where x: "x = (e, user, q)" by (cases x)
  let ?st = "snd (service_do v e user q st)"
  have p: "proper st user ?st" using do_proper [OF v eng Cons.prems(1)] Cons.prems(2) x by auto
  have "\<forall>k \<le> length qs. sess (service_all v (take k qs) ?st) i \<noteq> None"
  proof (intro allI impI)
    fix k assume "k \<le> length qs"
    then have "Suc k \<le> length (x # qs)" by simp
    then have "sess (service_all v (take (Suc k) (x # qs)) st) i \<noteq> None" using Cons.prems(4) by blast
    then show "sess (service_all v (take k qs) ?st) i \<noteq> None" by (simp add: x)
  qed
  note here = this
  then have "sess (service_all v (take 0 qs) ?st) i \<noteq> None" by blast
  then obtain c where c: "sess ?st i = Some c" by auto
  have "s_user c = s_user s \<and> s_key c = s_key s \<and> (c = s \<or> s_version s < s_version c)"
    using p c Cons.prems(3) growsD [of "sess st" "sess ?st" i s c] by (simp add: proper_def)
  moreover have "\<exists>d. sess (service_all v qs ?st) i = Some d \<and> s_user d = s_user c \<and> s_key d = s_key c
      \<and> (d = c \<or> s_version c < s_version d)"
    using Cons.IH [OF _ _ c here] p Cons.prems(2) by (simp add: proper_def)
  then obtain d where "sess (service_all v qs ?st) i = Some d" "s_user d = s_user c" "s_key d = s_key c"
    "d = c \<or> s_version c < s_version d" by blast
  ultimately show ?case unfolding x by fastforce
qed simp

lemma no_lost_update:
  assumes v: "svc_store v = ops" and eng: "engine_ok (svc_engine v)" and "inv st" "known st user"
    and load: "st_load ops e user i st = Inr s"
    and others: "\<forall>q \<in> set qs. known st (fst (snd q))"
      "\<forall>k \<le> length qs. sess (service_all v (take k qs) st) (s_id s) \<noteq> None"
    and s': "s_id s' = s_id s" "s_user s' = s_user s" "s_key s' = s_key s" "s_version s' = s_version s"
    and up: "up e'" and "storable s'"
  shows "if sess (service_all v qs st) (s_id s) = Some s
    then \<exists>st'. st_update ops e' s' (service_all v qs st) = (Inr (s'\<lparr>s_version := s_version s + 1\<rparr>), st')
    else \<exists>err. st_update ops e' s' (service_all v qs st) = (Inl err, service_all v qs st)
           \<and> errors_is err ErrVersionConflict"
proof -
  let ?st = "service_all v qs st"
  have s: "sess st (s_id s) = Some s" "s_user s = user" using load_sound [OF assms(3,4) load] by simp_all
  have i: "inv ?st" using all_inv [OF v eng assms(3)] others(1) by simp
  obtain c where c: "sess ?st (s_id s) = Some c" "s_user c = s_user s" "c = s \<or> s_version s < s_version c"
    using all_grows [OF v eng assms(3) others(1) s(1) others(2)] by blast
  show ?thesis
  proof (cases "c = s")
    case True
    then have "sess ?st (s_id s') = Some s" using c(1) s'(1) by simp
    from update_ok [OF i up this] have "\<exists>st'. st_update ops e' s' ?st = (Inr (s'\<lparr>s_version := s_version s + 1\<rparr>), st')"
      using s' \<open>storable s'\<close> by auto
    then show ?thesis using True c(1) by simp
  next
    case False
    then have lt: "s_version s < s_version c" using c(3) by simp
    have "sess ?st (s_id s') = Some c" using c(1) s'(1) by simp
    from update_conflict [OF i up this] have "\<exists>err. st_update ops e' s' ?st = (Inl err, ?st) \<and> errors_is err ErrVersionConflict"
      using c(2) s' lt by auto
    then show ?thesis using False c(1) by simp
  qed
qed

end

end
