(* ===== verification/Game_Locking.thy ===== *)
theory Game_Locking
  imports Keyed_Mutex Service_Laws
begin

text \<open>
  Many calls at once in one server process: each call of the service holds the lock of its
  session from before it reads the session until after it writes it, and every other step
  of any other call may come in between. The world is the lock, the store, and what each
  caller has read.
\<close>

record 'st world =
  w_mutex :: mutex
  w_store :: 'st
  w_read :: "nat \<Rightarrow> session option"

text \<open>
  The steps of Play, Save, Restore, Restart and Delete, which take the lock of their session,
  and of NewGame and DeleteSave, which take none. A write is of the session the caller read,
  with its owner, story and version untouched. \<open>known\<close> is who may call. The lock is of the
  identifier as the caller wrote it: the store may read two of them as the same session.
\<close>

inductive server_step ::
  "'st store_ops \<Rightarrow> ('st \<Rightarrow> string \<Rightarrow> bool) \<Rightarrow> 'st world \<Rightarrow> 'st world \<Rightarrow> bool"
  for ops :: "'st store_ops" and known
where
  srv_enter: "enter t key (w_mutex w) = Some m \<Longrightarrow> server_step ops known w (w\<lparr>w_mutex := m\<rparr>)"
| srv_acquire: "acquire t (w_mutex w) = Some m \<Longrightarrow> server_step ops known w (w\<lparr>w_mutex := m\<rparr>)"
| srv_load: "mx_phase (w_mutex w) t = Inside key a \<Longrightarrow> known (w_store w) user \<Longrightarrow>
    st_load ops e user key (w_store w) = Inr s \<Longrightarrow>
    server_step ops known w (w\<lparr>w_read := (w_read w)(t \<mapsto> s)\<rparr>)"
| srv_write: "w_read w t = Some s \<Longrightarrow> s_id s' = s_id s \<Longrightarrow> s_user s' = s_user s \<Longrightarrow> s_key s' = s_key s \<Longrightarrow>
    s_version s' = s_version s \<Longrightarrow> storable s' \<Longrightarrow> snd (st_update ops e s' (w_store w)) = st \<Longrightarrow>
    server_step ops known w (w\<lparr>w_store := st, w_read := (w_read w)(t := None)\<rparr>)"
| srv_save: "known (w_store w) (n_user n) \<Longrightarrow> clean_name (n_name n) \<Longrightarrow> \<not> no_bytes (n_state n) \<Longrightarrow>
    snd (st_create_save ops e n (w_store w)) = st \<Longrightarrow> server_step ops known w (w\<lparr>w_store := st\<rparr>)"
| srv_delete_save: "known (w_store w) user \<Longrightarrow> snd (st_delete_save ops e user i k (w_store w)) = st \<Longrightarrow>
    server_step ops known w (w\<lparr>w_store := st\<rparr>)"
| srv_create: "known (w_store w) (s_user s) \<Longrightarrow> storable s \<Longrightarrow> snd (st_create ops e s (w_store w)) = st \<Longrightarrow>
    server_step ops known w (w\<lparr>w_store := st\<rparr>)"
| srv_delete: "mx_phase (w_mutex w) t = Inside key a \<Longrightarrow> snd (st_delete ops e user key (w_store w)) = st \<Longrightarrow>
    server_step ops known w (w\<lparr>w_store := st, w_read := (w_read w)(t := None)\<rparr>)"
| srv_unlock: "unlock t (w_mutex w) = Some m \<Longrightarrow>
    server_step ops known w (w\<lparr>w_mutex := m, w_read := (w_read w)(t := None)\<rparr>)"
| srv_leave: "leave t (w_mutex w) = Some m \<Longrightarrow> server_step ops known w (w\<lparr>w_mutex := m\<rparr>)"

definition idle_world :: "'st \<Rightarrow> 'st world" where
  "idle_world st = \<lparr>w_mutex = no_locks, w_store = st, w_read = (\<lambda>_. None)\<rparr>"

text \<open>
  The lock serialises the callers that name a session the same way, which is all of them as
  long as everybody uses the identifiers the store gave out. A step of a process in which
  everybody does: \<open>ok\<close> holds of the identifiers written the way the store writes them.
\<close>

definition named_as_stored :: "(string \<Rightarrow> bool) \<Rightarrow> 'st world \<Rightarrow> bool" where
  "named_as_stored ok w \<longleftrightarrow> (\<forall>t key a. uses (mx_phase (w_mutex w) t) = Some (key, a) \<longrightarrow> ok key)"

definition orderly_step ::
  "'st store_ops \<Rightarrow> ('st \<Rightarrow> string \<Rightarrow> bool) \<Rightarrow> (string \<Rightarrow> bool) \<Rightarrow> 'st world \<Rightarrow> 'st world \<Rightarrow> bool" where
  "orderly_step ops known ok w w' \<longleftrightarrow> server_step ops known w w' \<and> named_as_stored ok w'"

text \<open>What the lock's steps do to the caller's place.\<close>

lemma lock_phases:
  "enter t key m = Some m' \<Longrightarrow> \<exists>a. mx_phase m' = (mx_phase m)(t := Waiting key a) \<and> mx_phase m t = Out"
  "acquire t m = Some m' \<Longrightarrow> \<exists>key a. mx_phase m' = (mx_phase m)(t := Inside key a) \<and> mx_phase m t = Waiting key a"
  "unlock t m = Some m' \<Longrightarrow> \<exists>key a. mx_phase m' = (mx_phase m)(t := Leaving key a) \<and> mx_phase m t = Inside key a"
  "leave t m = Some m' \<Longrightarrow> \<exists>key a. mx_phase m' = (mx_phase m)(t := Out) \<and> mx_phase m t = Leaving key a"
  by (auto simp: enter_def acquire_def unlock_def leave_def Let_def split: phase.splits option.splits if_splits)

context game_store begin

text \<open>
  What a caller has read is what is stored, for as long as it holds the lock of that
  session; every key in use is well formed.
\<close>

definition world_inv :: "'st world \<Rightarrow> bool" where
  "world_inv w \<longleftrightarrow> inv (w_store w) \<and> lock_inv (w_mutex w)
     \<and> (\<forall>t key a. uses (mx_phase (w_mutex w) t) = Some (key, a) \<longrightarrow> wf_id key)
     \<and> (\<forall>t s. w_read w t = Some s \<longrightarrow> sess (w_store w) (s_id s) = Some s
          \<and> (\<exists>a. mx_phase (w_mutex w) t = Inside (s_id s) a))"

lemma world_invD:
  assumes "world_inv w"
  shows "inv (w_store w)" "lock_inv (w_mutex w)"
    "uses (mx_phase (w_mutex w) t) = Some (key, a) \<Longrightarrow> wf_id key"
    "w_read w t = Some s \<Longrightarrow> sess (w_store w) (s_id s) = Some s \<and> (\<exists>a. mx_phase (w_mutex w) t = Inside (s_id s) a)"
  using assms unfolding world_inv_def by blast+

text \<open>A step of the store that leaves alone what the other callers have read.\<close>

lemma world_inv_store:
  assumes w: "world_inv w" and "inv st" and r: "\<And>t s. rd t = Some s \<Longrightarrow> w_read w t = Some s"
    and same: "\<And>t s. rd t = Some s \<Longrightarrow> sess st (s_id s) = sess (w_store w) (s_id s)"
  shows "world_inv (w\<lparr>w_store := st, w_read := rd\<rparr>)"
  unfolding world_inv_def
proof (intro conjI allI impI)
  fix t s assume "w_read (w\<lparr>w_store := st, w_read := rd\<rparr>) t = Some s"
  then have t: "rd t = Some s" by simp
  from world_invD(4) [OF w r [OF t]] same [OF t]
  show "sess (w_store (w\<lparr>w_store := st, w_read := rd\<rparr>)) (s_id s) = Some s"
    "\<exists>a. mx_phase (w_mutex (w\<lparr>w_store := st, w_read := rd\<rparr>)) t = Inside (s_id s) a" by simp_all
qed (use assms(2) world_invD(2,3) [OF w] in auto)

lemma other_caller:
  assumes w: "world_inv w" and "mx_phase (w_mutex w) t = Inside key a" "w_read w u = Some s" "u \<noteq> t"
  shows "s_id s \<noteq> key"
  using inside_unique [OF world_invD(2) [OF w] assms(2)] world_invD(4) [OF w assms(3)] assms(4) by blast

lemma world_step:
  assumes "server_step ops known w w'" "world_inv w" "named_as_stored wf_id w'"
  shows "world_inv w'"
  using assms
proof (induction rule: server_step.induct)
  case (srv_enter t key w m)
  obtain a where p: "mx_phase m = (mx_phase (w_mutex w))(t := Waiting key a)" "mx_phase (w_mutex w) t = Out"
    using lock_phases(1) [OF srv_enter(1)] by blast
  show ?case unfolding world_inv_def
  proof (intro conjI allI impI)
    show "lock_inv (w_mutex (w\<lparr>w_mutex := m\<rparr>))" using enter_inv [OF world_invD(2) [OF srv_enter(2)] srv_enter(1)] by simp
    fix s k b assume "uses (mx_phase (w_mutex (w\<lparr>w_mutex := m\<rparr>)) s) = Some (k, b)"
    then show "wf_id k" using srv_enter(3) by (auto simp: named_as_stored_def)
  next
    fix s c assume "w_read (w\<lparr>w_mutex := m\<rparr>) s = Some c"
    with world_invD(4) [OF srv_enter(2), of s c] p(2) show "sess (w_store (w\<lparr>w_mutex := m\<rparr>)) (s_id c) = Some c"
      "\<exists>a. mx_phase (w_mutex (w\<lparr>w_mutex := m\<rparr>)) s = Inside (s_id c) a" by (auto simp: p(1))
  qed (use world_invD(1) [OF srv_enter(2)] in simp)
next
  case (srv_acquire t w m)
  obtain key a where p: "mx_phase m = (mx_phase (w_mutex w))(t := Inside key a)" "mx_phase (w_mutex w) t = Waiting key a"
    using lock_phases(2) [OF srv_acquire(1)] by blast
  show ?case unfolding world_inv_def
  proof (intro conjI allI impI)
    show "lock_inv (w_mutex (w\<lparr>w_mutex := m\<rparr>))" using acquire_inv [OF world_invD(2) [OF srv_acquire(2)] srv_acquire(1)] by simp
    fix s k b assume "uses (mx_phase (w_mutex (w\<lparr>w_mutex := m\<rparr>)) s) = Some (k, b)"
    then show "wf_id k" using p world_invD(3) [OF srv_acquire(2), of s k b] by (cases "s = t") auto
  next
    fix s c assume "w_read (w\<lparr>w_mutex := m\<rparr>) s = Some c"
    with world_invD(4) [OF srv_acquire(2), of s c] p(2) show "sess (w_store (w\<lparr>w_mutex := m\<rparr>)) (s_id c) = Some c"
      "\<exists>a. mx_phase (w_mutex (w\<lparr>w_mutex := m\<rparr>)) s = Inside (s_id c) a" by (auto simp: p(1))
  qed (use world_invD(1) [OF srv_acquire(2)] in simp)
next
  case (srv_load w t key a user e s)
  note w = srv_load(4)
  have "sess (w_store w) (s_id s) = Some s" "s_id s = key"
    using load_sound [OF world_invD(1) [OF w] srv_load(2,3)]
      load_same [OF world_invD(1) [OF w] world_invD(3) [OF w, of t key a] srv_load(3)] srv_load(1) by auto
  with srv_load(1) world_invD [OF w] show ?case unfolding world_inv_def by auto
next
  case (srv_write w t s s' e st)
  note w = srv_write(8)
  have s: "sess (w_store w) (s_id s') = Some s" and ph: "\<exists>a. mx_phase (w_mutex w) t = Inside (s_id s) a"
    using world_invD(4) [OF w srv_write(1)] srv_write(2) by auto
  obtain r where r: "st_update ops e s' (w_store w) = (r, st)" using srv_write(7) by (cases "st_update ops e s' (w_store w)") auto
  have i: "inv st" using update_inv [OF world_invD(1) [OF w] s, of e] srv_write(3-6) r by simp
  have only: "sess st j = sess (w_store w) j" if "j \<noteq> s_id s" for j
  proof (cases r)
    case (Inl err)
    then have "st = w_store w" using r update_fail by blast
    then show ?thesis by simp
  next
    case (Inr c)
    then show ?thesis using update_effect [OF world_invD(1) [OF w] s] r srv_write(2-6) that by simp
  qed
  show ?case
  proof (rule world_inv_store [OF w i])
    fix u c assume u: "((w_read w)(t := None)) u = Some c"
    then have "u \<noteq> t" "w_read w u = Some c" by (auto split: if_splits)
    then show "w_read w u = Some c" by simp
    have "s_id c \<noteq> s_id s" using other_caller [OF w] ph \<open>u \<noteq> t\<close> \<open>w_read w u = Some c\<close> by blast
    then show "sess st (s_id c) = sess (w_store w) (s_id c)" by (rule only)
  qed
next
  case (srv_save w n e st)
  note w = srv_save(5)
  have "inv st" using create_save_inv [OF world_invD(1) [OF w] srv_save(1,3,2)] srv_save(4) by blast
  moreover have "sess st = sess (w_store w)" using create_save_frame [OF world_invD(1) [OF w] srv_save(1,2,4)] by blast
  ultimately have "world_inv (w\<lparr>w_store := st, w_read := w_read w\<rparr>)" by (intro world_inv_store [OF w]) auto
  then show ?case by simp
next
  case (srv_delete_save w user e i k st)
  note w = srv_delete_save(3)
  have "inv st" using delete_save_inv [OF world_invD(1) [OF w]] srv_delete_save(2) by blast
  moreover have "sess st = sess (w_store w)" using delete_save_frame [OF world_invD(1) [OF w] srv_delete_save(1,2)] by blast
  ultimately have "world_inv (w\<lparr>w_store := st, w_read := w_read w\<rparr>)" by (intro world_inv_store [OF w]) auto
  then show ?case by simp
next
  case (srv_create w s e st)
  note w = srv_create(4)
  have i: "inv st" using create_inv [OF world_invD(1) [OF w] srv_create(1,2)] srv_create(3) by blast
  obtain r where r: "st_create ops e s (w_store w) = (r, st)" using srv_create(3) by (cases "st_create ops e s (w_store w)") auto
  have same: "sess st (s_id c) = sess (w_store w) (s_id c)" if "w_read w u = Some c" for u c
  proof (cases r)
    case (Inl err)
    then have "st = w_store w" using r create_fail by blast
    then show ?thesis by simp
  next
    case (Inr s')
    then show ?thesis
      using create_effect [OF world_invD(1) [OF w] srv_create(1,2) r [unfolded Inr]] world_invD(4) [OF w that] by auto
  qed
  have "world_inv (w\<lparr>w_store := st, w_read := w_read w\<rparr>)" by (rule world_inv_store [OF w i]) (auto intro: same)
  then show ?case by simp
next
  case (srv_delete w t key a e user st)
  note w = srv_delete(3)
  have i: "inv st" using delete_inv [OF world_invD(1) [OF w]] srv_delete(2) by blast
  have wf: "wf_id key" using world_invD(3) [OF w, of t key a] srv_delete(1) by simp
  show ?case
  proof (rule world_inv_store [OF w i])
    fix u c assume "((w_read w)(t := None)) u = Some c"
    then have u: "u \<noteq> t" "w_read w u = Some c" by (auto split: if_splits)
    then show "w_read w u = Some c" by simp
    have "s_id c \<noteq> key" using other_caller [OF w srv_delete(1) u(2,1)] .
    then show "sess st (s_id c) = sess (w_store w) (s_id c)"
      using delete_only [OF world_invD(1) [OF w] wf] srv_delete(2) by blast
  qed
next
  case (srv_unlock t w m)
  note w = srv_unlock(2)
  obtain key a where p: "mx_phase m = (mx_phase (w_mutex w))(t := Leaving key a)" "mx_phase (w_mutex w) t = Inside key a"
    using lock_phases(3) [OF srv_unlock(1)] by blast
  show ?case unfolding world_inv_def
  proof (intro conjI allI impI)
    show "lock_inv (w_mutex (w\<lparr>w_mutex := m, w_read := (w_read w)(t := None)\<rparr>))"
      using unlock_inv [OF world_invD(2) [OF w] srv_unlock(1)] by simp
    fix s k b assume "uses (mx_phase (w_mutex (w\<lparr>w_mutex := m, w_read := (w_read w)(t := None)\<rparr>)) s) = Some (k, b)"
    then show "wf_id k" using p world_invD(3) [OF w, of s k b] by (cases "s = t") auto
  next
    fix s c assume "w_read (w\<lparr>w_mutex := m, w_read := (w_read w)(t := None)\<rparr>) s = Some c"
    with world_invD(4) [OF w, of s c]
    show "sess (w_store (w\<lparr>w_mutex := m, w_read := (w_read w)(t := None)\<rparr>)) (s_id c) = Some c"
      "\<exists>a. mx_phase (w_mutex (w\<lparr>w_mutex := m, w_read := (w_read w)(t := None)\<rparr>)) s = Inside (s_id c) a"
      by (auto simp: p(1) split: if_splits)
  qed (use world_invD(1) [OF w] in simp)
next
  case (srv_leave t w m)
  note w = srv_leave(2)
  obtain key a where p: "mx_phase m = (mx_phase (w_mutex w))(t := Out)" "mx_phase (w_mutex w) t = Leaving key a"
    using lock_phases(4) [OF srv_leave(1)] by blast
  show ?case unfolding world_inv_def
  proof (intro conjI allI impI)
    show "lock_inv (w_mutex (w\<lparr>w_mutex := m\<rparr>))" using leave_inv [OF world_invD(2) [OF w] srv_leave(1)] by simp
    fix s k b assume "uses (mx_phase (w_mutex (w\<lparr>w_mutex := m\<rparr>)) s) = Some (k, b)"
    then show "wf_id k" using p world_invD(3) [OF w, of s k b] by (cases "s = t") auto
  next
    fix s c assume "w_read (w\<lparr>w_mutex := m\<rparr>) s = Some c"
    with world_invD(4) [OF w, of s c] p(2) show "sess (w_store (w\<lparr>w_mutex := m\<rparr>)) (s_id c) = Some c"
      "\<exists>a. mx_phase (w_mutex (w\<lparr>w_mutex := m\<rparr>)) s = Inside (s_id c) a" by (auto simp: p(1))
  qed (use world_invD(1) [OF w] in simp)
qed

lemma world_reachable:
  "(orderly_step ops known wf_id)\<^sup>*\<^sup>* (idle_world st) w \<Longrightarrow> inv st \<Longrightarrow> world_inv w"
proof (induction rule: rtranclp_induct)
  case base
  then show ?case using lock_inv_initial by (simp add: world_inv_def idle_world_def no_locks_def)
next
  case (step w w')
  then show ?case using world_step unfolding orderly_step_def by blast
qed

text \<open>So a call that writes what it read is not told of a conflict.\<close>

lemma locked_write_accepted:
  assumes "(orderly_step ops known wf_id)\<^sup>*\<^sup>* (idle_world st) w" "inv st" "w_read w t = Some s"
    and "s_id s' = s_id s" "s_user s' = s_user s" "s_key s' = s_key s" "s_version s' = s_version s"
    and "storable s'" "up e"
  shows "\<exists>st'. st_update ops e s' (w_store w) = (Inr (s'\<lparr>s_version := s_version s + 1\<rparr>), st')"
proof -
  have w: "world_inv w" using world_reachable assms(1,2) by blast
  have "sess (w_store w) (s_id s') = Some s" using world_invD(4) [OF w assms(3)] assms(4) by simp
  from update_ok [OF world_invD(1) [OF w] assms(9) this] show ?thesis using assms(5-8) by auto
qed

end

end
