(* ===== verification/Sample_World.thy ===== *)
theory Sample_World
  imports Game_Locking
begin

text \<open>
  One small world: an engine whose state is a byte list, a library of one story, a database
  with two accounts, a game and a save, and an environment in which every call succeeds.
  The witnesses of the properties apply them here.
\<close>

definition plain :: unicode where
  "plain = \<lparr>u_fold = (\<lambda>r. r), u_lower = (\<lambda>r. r), u_print = (\<lambda>_. True)\<rparr>"

definition sample_env :: env where
  "sample_env = \<lparr>ctx_err = (\<lambda>_. None), ctx_deadline = None, clock = (\<lambda>k. int k), call_no = 0\<rparr>"

definition sample_engine :: "(bytes, bytes) engine" where
  "sample_engine = \<lparr>z_load = (\<lambda>b. if b = [] then Inl (Sentinel ZErrInvalidStory) else Inr b),
     z_new = (\<lambda>s _ _. Inr s),
     z_start = (\<lambda>_ m. Inr (zero_result\<lparr>z_output := ''West'', z_state := Some (1 # m)\<rparr>)),
     z_restore = (\<lambda>_ b. Inr b),
     z_run = (\<lambda>_ m c. Inr (zero_result\<lparr>z_output := c, z_state := Some (2 # m)\<rparr>))\<rparr>"

definition sample_entry :: "bytes entry" where
  "sample_entry = \<lparr>en_id = ''zork1'', en_title = ''Zork I'', en_file = ''z1'', en_key = 7, en_story = [9]\<rparr>"

definition sample_library :: "bytes library" where
  "sample_library = \<lparr>by_key_map = [(7, sample_entry)], by_id_map = [(''zork1'', sample_entry)],
     lib_order = [sample_entry]\<rparr>"

definition sample_runner :: runner where "sample_runner = new_runner []"

definition sample_service :: "'st store_ops \<Rightarrow> (bytes, bytes, 'st) service" where
  "sample_service ops = \<lparr>svc_engine = sample_engine, svc_unicode = plain, svc_library = sample_library,
     svc_runner = sample_runner, svc_store = ops\<rparr>"

definition sample_game :: game_row where
  "sample_game = \<lparr>g_user = 1, g_key = 7, g_state = Some [5], g_transcript = ''>'', g_turn = 3, g_version = 4,
     g_halted = False, g_status = bind_status zero_status, g_created = 0, g_updated = 0\<rparr>"

definition sample_save :: save_row where
  "sample_save = \<lparr>r_game = 1, r_name = ''troll'', r_key = 7, r_state = [8], r_transcript = ''>'',
     r_turn = 2, r_status = bind_status zero_status, r_created = 0\<rparr>"

definition sample_user :: "string \<Rightarrow> user_row" where
  "sample_user mail = \<lparr>u_email = mail, u_password = ''x'', u_created = 0, u_updated = 0\<rparr>"

definition sample_db :: db where
  "sample_db = empty_db\<lparr>d_users := [(1, sample_user ''a@b''), (2, sample_user ''c@d'')],
     d_games := [(1, sample_game)], d_saves := [(1, sample_save)]\<rparr>"

lemma sample_up: "db_up (nth_use k sample_env)" "db_up sample_env" "ctx_err (nth_use k sample_env) j = None"
  by (simp_all add: db_up_def nth_use_def later_def sample_env_def)

lemma sample_service_simps [simp]:
  "svc_store (sample_service ops) = ops" "svc_engine (sample_service ops) = sample_engine"
  "svc_unicode (sample_service ops) = plain" "svc_library (sample_service ops) = sample_library"
  "svc_runner (sample_service ops) = sample_runner"
  by (simp_all add: sample_service_def)

lemma sample_engine_ok: "engine_ok sample_engine"
  by (simp add: engine_ok_def sample_engine_def result_ok_def zero_result_def)

lemma sample_rows: "rowid_ok 1" "rowid_ok 2"
  by (simp_all add: rowid_ok_def max_rowid_def)

lemma sample_inv: "db_inv sample_db"
proof -
  have "saves_of (d_saves sample_db) g \<subseteq> {1}" for g by (auto simp: saves_of_def sample_db_def)
  then have "card (saves_of (d_saves sample_db) g) \<le> card {1 :: int}" for g
    by (intro card_mono) auto
  then have "card (saves_of (d_saves sample_db) g) \<le> max_saves_per_game" for g
    unfolding max_saves_per_game_def by (metis card.empty card_insert_disjoint empty_iff finite.emptyI le_trans one_le_numeral One_nat_def)
  moreover have "names_ok (d_saves sample_db)" by (simp add: names_ok_def sample_db_def)
  moreover have "check_save sample_save" "check_game sample_game"
    by (simp_all add: check_save_def check_text_def sample_save_def check_game_def sample_game_def)
  ultimately show ?thesis using sample_rows
    by (simp add: db_inv_def game_ok_def save_ok_def sample_db_def sample_game_def sample_save_def)
qed

lemma sample_known: "db_known sample_db (id_of 1)" "db_known sample_db (id_of 2)"
  using sample_rows by (simp_all add: db_known_def sample_db_def)

lemma sample_room: "db_room sample_db"
  by (simp add: db_room_def next_rowid_def sample_db_def max_rowid_def Let_def)

lemma sample_sess: "db_sess sample_db (id_of 1) = Some (session_of_row 1 sample_game)"
  using sample_rows by (simp add: db_sess_def sample_db_def)

lemma sample_shelf: "db_shelf sample_db (id_of 1) (id_of 1) = Some (snapshot_of_row (id_of 1) (id_of 1) 1 sample_save)"
  using sample_rows by (simp add: db_shelf_def sample_db_def sample_save_def sample_game_def)

lemma sample_library_simps [simp]:
  "lib_by_key sample_library 7 = Some sample_entry" "lib_by_id sample_library ''zork1'' = Some sample_entry"
  by (simp_all add: lib_by_key_def lib_by_id_def sample_library_def)

lemma sample_play_line: "c_intent (interpret_line plain ''look'') = IntentPlay"
  by (simp add: interpret_line_def text_eval plain_def Let_def)

lemma id_nonempty [simp]: "id_of k \<noteq> []"
  by (simp add: id_of_def)

text \<open>The sample game as it is seen, and a turn, a save and an opening at the sample.\<close>

lemma sample_session [simp]:
  "g_user sample_game = 1" "\<not> g_halted sample_game" "g_key sample_game = 7" "g_version sample_game = 4"
  "read_state (g_state sample_game) = Some [5]" "s_turn (session_of_row 1 sample_game) = 3"
  by (simp_all add: sample_game_def read_state_def session_of_row_def)

definition sample_result :: z_result where
  "sample_result = zero_result\<lparr>z_output := ''look'', z_state := Some [2, 5]\<rparr>"

lemma sample_run:
  "runner_run sample_engine sample_runner e (Some sample_entry) (Some [5]) ''look'' = Inr sample_result"
  by (simp add: runner_run_Inr new_machine_def sample_engine_def max_command_bytes_def sample_result_def)

definition sample_opening :: z_result where
  "sample_opening = zero_result\<lparr>z_output := ''West'', z_state := Some [1, 9]\<rparr>"

lemma sample_start: "runner_start sample_engine sample_runner e (Some sample_entry) = Inr sample_opening"
  by (simp add: runner_start_Inr new_machine_def sample_engine_def sample_entry_def sample_opening_def)

lemma sample_results_ok: "result_ok sample_result" "result_ok sample_opening"
  by (simp_all add: result_ok_def sample_result_def sample_opening_def)

definition sample_played :: session where
  "sample_played = (played (session_of_row 1 sample_game) ''look'' sample_result)\<lparr>s_version := 5\<rparr>"

lemma sample_turn:
  "\<exists>d'. service_play (sample_service (games_ops plain)) sample_env (id_of 1) (id_of 1) ''look'' sample_db =
      (Inr (zero_turn\<lparr>t_intent := IntentPlay, t_session := sample_played, t_result := sample_result\<rparr>), d')
    \<and> db_sess d' = (db_sess sample_db)(id_of 1 \<mapsto> sample_played) \<and> db_shelf d' = db_shelf sample_db"
proof -
  note p = db.play_ok [of "sample_service (games_ops plain)" plain sample_db sample_env "id_of 1"
      "session_of_row 1 sample_game" "id_of 1" "''look''" sample_entry sample_result]
  have v: "s_version (session_of_row 1 sample_game) + 1 = 5" by simp
  show ?thesis unfolding sample_played_def v [symmetric]
    by (rule p) (simp_all add: sample_inv sample_up sample_sess sample_play_line sample_run sample_results_ok)
qed

lemma sample_clean: "clean_name ''lamp''" "clean_name ''Troll''"
  by (simp_all add: clean_name_def max_save_name_bytes_def text_eval)

lemma sample_card: "card (dom (db_shelf sample_db (id_of 1))) = 1"
proof -
  have "saves_of (d_saves sample_db) 1 = {1}" by (auto simp: saves_of_def sample_db_def sample_save_def)
  then show ?thesis using card_shelf [OF sample_inv sample_rows(1)] by simp
qed

text \<open>The same game with other shelves: a full one, and one holding another story's save.\<close>

definition sample_with :: "(int \<times> save_row) list \<Rightarrow> db" where
  "sample_with t = sample_db\<lparr>d_saves := t\<rparr>"

definition sample_full :: db where
  "sample_full = sample_with (map (\<lambda>k. (int k, sample_save\<lparr>r_name := replicate k CHR ''a''\<rparr>)) [1..<21])"

definition sample_foreign :: db where
  "sample_foreign = sample_with [(1, sample_save\<lparr>r_key := 8\<rparr>)]"

lemma sample_with_inv:
  assumes "distinct (keys t)" "\<And>k r. map_of t k = Some r \<Longrightarrow> rowid_ok k \<and> check_save r \<and> r_game r = 1"
    and "names_ok t" "card (saves_of t 1) \<le> max_saves_per_game"
  shows "db_inv (sample_with t)"
proof -
  have "saves_of t g = {}" if "g \<noteq> 1" for g using assms(2) that by (fastforce simp: saves_of_def)
  then have "card (saves_of t g) \<le> max_saves_per_game" for g using assms(4) by (cases "g = 1") simp_all
  moreover have "save_ok (sample_with t) k r" if "map_of t k = Some r" for k r
    using assms(2) [OF that] sample_rows by (simp add: save_ok_def sample_with_def sample_db_def)
  moreover have "game_ok (sample_with t) k g" if "map_of (d_games sample_db) k = Some g" for k g
    using db_inv_game [OF sample_inv that] by (simp add: game_ok_def sample_with_def)
  ultimately show ?thesis using assms(1,3) sample_inv by (simp add: db_inv_def sample_with_def)
qed

lemma sample_with_sess: "db_sess (sample_with t) (id_of 1) = Some (session_of_row 1 sample_game)"
  using sample_sess by (simp add: sample_with_def db_sess_def split: option.splits)

lemma full_rows:
  "map_of (map (\<lambda>k. (int k, f k)) [1..<21]) j = Some r \<longleftrightarrow> (\<exists>k. 1 \<le> k \<and> k < 21 \<and> j = int k \<and> r = f k)"
  by (subst map_of_eq_Some_iff) (auto simp: comp_def distinct_map inj_on_def)

lemma sample_full_inv: "db_inv sample_full" and sample_full_card: "card (dom (db_shelf sample_full (id_of 1))) = 20"
proof -
  let ?t = "map (\<lambda>k. (int k, sample_save\<lparr>r_name := replicate k CHR ''a''\<rparr>)) [1..<21]"
  have d: "distinct (keys ?t)" by (simp add: comp_def distinct_map inj_on_def)
  have rows: "rowid_ok k \<and> check_save r \<and> r_game r = 1" if "map_of ?t k = Some r" for k r
  proof -
    from full_rows [THEN iffD1, OF that] obtain n where n: "1 \<le> n \<and> n < 21 \<and> k = int n
        \<and> r = sample_save\<lparr>r_name := replicate n CHR ''a''\<rparr>" ..
    then have n4: "r = sample_save\<lparr>r_name := replicate n CHR ''a''\<rparr>" and "n \<noteq> 0" by simp_all
    then obtain m where m: "n = Suc m" by (cases n) auto
    have "rowid_ok k" using n by (simp add: rowid_ok_def max_rowid_def)
    moreover have "check_save r \<and> r_game r = 1" unfolding n4 m
      by (simp add: check_save_def check_text_def sample_save_def)
    ultimately show ?thesis by blast
  qed
  have names: "names_ok ?t"
    unfolding names_ok_def full_rows by (auto simp: nocase_def dest!: map_eq_imp_length_eq)
  have "saves_of ?t 1 = int ` {1..<21}"
    unfolding saves_of_def full_rows by (auto simp: sample_save_def)
  then have c: "card (saves_of ?t 1) = 20" by (simp add: card_image)
  have le: "card (saves_of ?t 1) \<le> max_saves_per_game" unfolding c max_saves_per_game_def by (rule order_refl)
  show i: "db_inv sample_full" unfolding sample_full_def
    by (rule sample_with_inv [OF d rows names le])
  show "card (dom (db_shelf sample_full (id_of 1))) = 20"
    using card_shelf [OF i sample_rows(1)] c by (simp add: sample_full_def sample_with_def)
qed

lemma sample_full_names:
  assumes "db_shelf sample_full (id_of 1) k = Some m"
  shows "\<not> nocase (n_name m) ''lamp''"
proof
  assume same: "nocase (n_name m) ''lamp''"
  from db_shelf_Some [THEN iffD1, OF assms] obtain j r where "map_of (d_saves sample_full) j = Some r" "n_name m = r_name r"
    by auto
  then obtain n where "1 \<le> n" "n_name m = replicate n CHR ''a''"
    unfolding sample_full_def sample_with_def using full_rows [of "\<lambda>k. sample_save\<lparr>r_name := replicate k CHR ''a''\<rparr>" j r]
    by auto
  then obtain i where "n_name m = CHR ''a'' # replicate i CHR ''a''" by (cases n) auto
  with same show False by (simp add: nocase_def ascii_lower_def)
qed

lemma sample_foreign_inv: "db_inv sample_foreign"
proof -
  have "saves_of [(1, sample_save\<lparr>r_key := 8\<rparr>)] 1 \<subseteq> {1}" by (auto simp: saves_of_def)
  then have "card (saves_of [(1, sample_save\<lparr>r_key := 8\<rparr>)] 1) \<le> card {1 :: int}" by (intro card_mono) auto
  then show ?thesis unfolding sample_foreign_def using sample_rows
    by (intro sample_with_inv)
      (auto simp: names_ok_def check_save_def check_text_def sample_save_def max_saves_per_game_def split: if_splits)
qed

lemma sample_foreign_shelf:
  "db_shelf sample_foreign (id_of 1) (id_of 1) = Some (snapshot_of_row (id_of 1) (id_of 1) 1 (sample_save\<lparr>r_key := 8\<rparr>))"
  using sample_rows by (simp add: db_shelf_def sample_foreign_def sample_with_def sample_db_def sample_save_def)

text \<open>A lock with one caller inside and one waiting for the same key.\<close>

definition sample_lock :: "nat \<Rightarrow> mutex" where
  "sample_lock k = the (fold (\<lambda>f m. Option.bind m f)
     (take k [enter 0 ''1'', acquire 0, enter 1 ''1'']) (Some no_locks))"

lemma sample_lock_steps:
  "sample_lock 0 = no_locks" "enter 0 ''1'' no_locks = Some (sample_lock 1)"
  "acquire 0 (sample_lock 1) = Some (sample_lock 2)" "enter 1 ''1'' (sample_lock 2) = Some (sample_lock 3)"
  by (simp_all add: sample_lock_def enter_def acquire_def no_locks_def eval_nat_numeral)

lemma sample_lock_reachable: "lock_reachable (sample_lock 3)"
  using sample_lock_steps(2-4) by (meson lock_step.intros r_into_rtranclp rtranclp_trans)

lemma sample_lock_phases: "mx_phase (sample_lock 3) 0 = Inside ''1'' 0" "mx_phase (sample_lock 3) 1 = Waiting ''1'' 0"
    "mx_locks (sample_lock 3) ''1'' = Some 0"
  by (simp_all add: sample_lock_def enter_def acquire_def no_locks_def eval_nat_numeral)

text \<open>A server process in which that caller has read the sample game.\<close>

definition sample_process :: "db world" where
  "sample_process = \<lparr>w_mutex = sample_lock 2, w_store = sample_db,
     w_read = (\<lambda>_. None)(0 \<mapsto> session_of_row 1 sample_game)\<rparr>"

lemma sample_process_reachable:
  "(orderly_step (games_ops plain) db_known (\<lambda>i. canon i \<noteq> None))\<^sup>*\<^sup>* (idle_world sample_db) sample_process"
proof -
  let ?S = "server_step (games_ops plain) db_known" and ?O = "orderly_step (games_ops plain) db_known (\<lambda>i. canon i \<noteq> None)"
  let ?w = "\<lambda>k. (idle_world sample_db)\<lparr>w_mutex := sample_lock k\<rparr>"
  have "(of_char (CHR ''1'') :: nat) = 49" by simp
  then have "char_of (49 :: nat) = CHR ''1''" by (metis char_of_char)
  then have id1: "''1'' = id_of 1" by (simp add: id_of_def format_int_def nat_digits.simps digit_char_def)
  have c: "canon ''1'' \<noteq> None" unfolding id1 using sample_rows by simp
  have "?S (idle_world sample_db) (?w 1)"
    using srv_enter [of 0 "''1''" "idle_world sample_db" "sample_lock 1" "games_ops plain" db_known]
      sample_lock_steps(2) by (simp add: idle_world_def)
  moreover have "?S (?w 1) (?w 2)"
    using srv_acquire [of 0 "?w 1" "sample_lock 2" "games_ops plain" db_known] sample_lock_steps(3) by simp
  moreover have "?S (?w 2) sample_process"
  proof -
    have ph: "mx_phase (w_mutex (?w 2)) 0 = Inside ''1'' 0"
      by (simp add: sample_lock_def enter_def acquire_def no_locks_def eval_nat_numeral)
    have l: "st_load (games_ops plain) sample_env (id_of 1) ''1'' (w_store (?w 2)) = Inr (session_of_row 1 sample_game)"
      using db_load_complete [OF sample_inv sample_up(2) sample_sess, of "id_of 1" plain] unfolding id1
      by (simp add: idle_world_def)
    have k: "db_known (w_store (?w 2)) (id_of 1)" using sample_known by (simp add: idle_world_def)
    show ?thesis using srv_load [where known = db_known, OF ph k l] by (simp add: sample_process_def idle_world_def)
  qed
  moreover have "named_as_stored (\<lambda>i. canon i \<noteq> None) (?w 1)" "named_as_stored (\<lambda>i. canon i \<noteq> None) (?w 2)"
    "named_as_stored (\<lambda>i. canon i \<noteq> None) sample_process"
    using c by (auto simp: named_as_stored_def sample_process_def sample_lock_def enter_def acquire_def no_locks_def
        eval_nat_numeral split: if_splits)
  ultimately have "?O (idle_world sample_db) (?w 1)" "?O (?w 1) (?w 2)" "?O (?w 2) sample_process"
    by (simp_all only: orderly_step_def simp_thms)
  then show ?thesis by (meson r_into_rtranclp rtranclp_trans)
qed

end
