(* ===== verification/Game_Properties.thy ===== *)
theory Game_Properties
  imports Sample_World
begin

text \<open>
  The properties of playing: each states over the database's store (or the lock, or the
  memory store) what the lemmas of theories \<open>Service_Laws\<close>, \<open>Game_Locking\<close> and
  \<open>Keyed_Mutex\<close> prove, with a witness at the sample world.
\<close>

section \<open>What no call ever does\<close>

text \<open>
  C1: A call of the game service that returns an error has written nothing: the database is
  exactly what it was, whichever operation failed and wherever it failed.
\<close>

theorem failed_call_writes_nothing:
  assumes "svc_store v = games_ops u" "service_do v e user q d = (Inl err, d')"
  shows "d' = d"
  by (rule db.do_fail [OF assms])

theorem failed_call_writes_nothing_witness:
  "snd (service_do (sample_service (games_ops plain)) sample_env (id_of 2) (Restart (id_of 1)) sample_db) = sample_db"
proof -
  have "\<exists>err. service_do (sample_service (games_ops plain)) sample_env (id_of 2) (Restart (id_of 1)) sample_db
      = (Inl err, sample_db)"
    using sample_rows by (simp add: service_do_def service_restart_def games_load_def load_session_def
        sample_db_def sample_game_def sample_env_def)
  then obtain err where "service_do (sample_service (games_ops plain)) sample_env (id_of 2) (Restart (id_of 1))
      sample_db = (Inl err, snd (service_do (sample_service (games_ops plain)) sample_env (id_of 2)
        (Restart (id_of 1)) sample_db))" by auto
  from failed_call_writes_nothing [OF _ this] show ?thesis by simp
qed

text \<open>
  C2: No sequence of calls by other users, in any order and however each call ends, changes a
  game a user owns or any save on its shelf.
\<close>

theorem others_games_untouched:
  assumes "svc_store v = games_ops u" "engine_ok (svc_engine v)" "db_inv d"
    and "\<forall>q \<in> set qs. db_known d (fst (snd q)) \<and> fst (snd q) \<noteq> s_user s"
    and "db_sess d i = Some s"
  shows "db_sess (service_all v qs d) i = Some s \<and> db_shelf (service_all v qs d) i = db_shelf d i"
  by (rule db.all_others [OF assms])

theorem others_games_untouched_witness:
  "db_sess (service_all (sample_service (games_ops plain)) [(sample_env, id_of 2, Delete (id_of 1)),
     (sample_env, id_of 2, NewGame ''zork1'')] sample_db) (id_of 1) = Some (session_of_row 1 sample_game)"
proof -
  have "s_user (session_of_row 1 sample_game) = id_of 1" by (simp add: sample_game_def)
  then have "\<forall>q \<in> set [(sample_env, id_of 2, Delete (id_of 1)), (sample_env, id_of 2, NewGame ''zork1'')].
      db_known sample_db (fst (snd q)) \<and> fst (snd q) \<noteq> s_user (session_of_row 1 sample_game)"
    using sample_known by simp
  from others_games_untouched [OF _ _ sample_inv this sample_sess, of "sample_service (games_ops plain)" plain]
  show ?thesis using sample_engine_ok by simp
qed

text \<open>
  C9: Whatever calls are made of the service, by whichever accounts, in any order and with any
  of them failing half way, the tables keep their invariant: rows satisfy the schema's checks
  and foreign keys, a game's save names differ without regard to case, and no game holds
  more than twenty saves.
\<close>

theorem calls_keep_invariant:
  assumes "svc_store v = games_ops u" "engine_ok (svc_engine v)" "db_inv d"
    and "\<forall>q \<in> set qs. db_known d (fst (snd q))"
  shows "db_inv (service_all v qs d)"
  by (rule db.all_inv [OF assms])

theorem calls_keep_invariant_witness:
  "db_inv (service_all (sample_service (games_ops plain)) [(sample_env, id_of 1, Save (id_of 1) ''Troll''),
     (sample_env, id_of 2, NewGame ''zork1''), (sample_env, id_of 1, Play (id_of 1) ''look'')] sample_db)"
  by (rule calls_keep_invariant [of _ plain]) (use sample_engine_ok sample_inv sample_known in simp_all)

section \<open>A turn\<close>

text \<open>
  C4: An ordinary line played on a live game stores, under the next version, the session with the
  state, status line and halted flag of the engine's result, the transcript with the line and
  its answer appended, one more turn, and identifier, owner and story as they were; the
  caller gets that session, and no save and no other game changes.
\<close>

theorem turn_is_stored:
  assumes "svc_store v = games_ops u" "db_inv d" "\<And>k. db_up (nth_use k e)" "db_sess d i = Some s"
    and "s_user s = user" "user \<noteq> []" "c_intent (interpret_line (svc_unicode v) c) = IntentPlay" "\<not> s_halted s"
    and "lib_by_key (svc_library v) (s_key s) = Some en"
    and "runner_run (svc_engine v) (svc_runner v) (nth_use 1 e) (Some en) (s_state s) c = Inr res" "result_ok res"
  shows "\<exists>s' d'. service_play v e user i c d =
      (Inr (zero_turn\<lparr>t_intent := IntentPlay, t_session := s', t_result := res\<rparr>), d')
    \<and> s' = \<lparr>s_id = s_id s, s_user = s_user s, s_key = s_key s, s_state = z_state res,
        s_transcript = append_transcript (s_transcript s) c (z_output res),
        s_status = \<lparr>sl_available = z_available (z_line res), sl_name = z_name (z_line res),
          sl_time_game = z_time_game (z_line res), sl_score = z_score (z_line res), sl_moves = z_turns (z_line res),
          sl_hours = z_hours (z_line res), sl_minutes = z_minutes (z_line res)\<rparr>,
        s_turn = s_turn s + 1, s_version = s_version s + 1, s_halted = z_halted res\<rparr>
    \<and> db_sess d' = (db_sess d)(i \<mapsto> s') \<and> db_shelf d' = db_shelf d"
  using db.play_ok [OF assms] unfolding played_def status_of_def session_written by blast

theorem turn_is_stored_witness:
  "\<exists>s' d'. service_play (sample_service (games_ops plain)) sample_env (id_of 1) (id_of 1) ''look'' sample_db =
      (Inr (zero_turn\<lparr>t_intent := IntentPlay, t_session := s', t_result := sample_result\<rparr>), d')
    \<and> s_state s' = Some [2, 5] \<and> s_turn s' = 4 \<and> s_version s' = 5
    \<and> db_sess d' = (db_sess sample_db)(id_of 1 \<mapsto> s') \<and> db_shelf d' = db_shelf sample_db"
proof -
  note p = turn_is_stored [of "sample_service (games_ops plain)" plain sample_db sample_env "id_of 1"
      "session_of_row 1 sample_game" "id_of 1" "''look''" sample_entry sample_result]
  have z: "z_state sample_result = Some [2, 5]" by (simp add: sample_result_def)
  show ?thesis
    by (rule exE [OF p], simp_all add: sample_inv sample_up sample_sess sample_play_line sample_run sample_results_ok,
        elim exE conjE, intro exI conjI, assumption) (simp_all add: z)
qed

text \<open>
  C5: Conversely, a turn the service reports was run by a fresh machine restored from the
  state the database holds, for a game of the caller's that had not halted, and replaced
  the very version it was run from.
\<close>

theorem reported_turn_was_run:
  assumes "svc_store v = games_ops u" "db_inv d" "db_known d user" "service_play v e user i c d = (Inr t, d')"
    and "c_intent (interpret_line (svc_unicode v) c) = IntentPlay" "engine_ok (svc_engine v)"
  shows "\<exists>s en res. db_sess d (s_id s) = Some s \<and> s_user s = user \<and> \<not> s_halted s
    \<and> lib_by_key (svc_library v) (s_key s) = Some en
    \<and> runner_run (svc_engine v) (svc_runner v) (nth_use 1 e) (Some en) (s_state s) c = Inr res
    \<and> t_session t = (played s c res)\<lparr>s_version := s_version s + 1\<rparr>
    \<and> db_sess d' = (db_sess d)(s_id s \<mapsto> t_session t) \<and> db_shelf d' = db_shelf d"
  by (rule db.play_sound [OF assms])

theorem reported_turn_was_run_witness:
  "\<exists>t d' (s :: session). service_play (sample_service (games_ops plain)) sample_env (id_of 1) (id_of 1) ''look'' sample_db = (Inr t, d')
     \<and> s_user s = id_of 1 \<and> db_sess d' = (db_sess sample_db)(s_id s \<mapsto> t_session t)"
proof -
  obtain t d' where t: "service_play (sample_service (games_ops plain)) sample_env (id_of 1) (id_of 1) ''look'' sample_db
      = (Inr t, d')" using sample_turn by blast
  have "svc_store (sample_service (games_ops plain)) = games_ops plain"
    "c_intent (interpret_line (svc_unicode (sample_service (games_ops plain))) ''look'') = IntentPlay"
    "engine_ok (svc_engine (sample_service (games_ops plain)))"
    using sample_play_line sample_engine_ok by simp_all
  from reported_turn_was_run [OF this(1) sample_inv sample_known(1) t this(2,3)]
  obtain s :: session where "s_user s = id_of 1" "db_sess d' = (db_sess sample_db)(s_id s \<mapsto> t_session t)"
    by blast
  with t show ?thesis by blast
qed

text \<open>
  C3: No lost update, for a game that stays. A session is read, then any calls of any users run
  (in this process or another) after none of which the game is gone, then a session is
  written that keeps the identifier, owner, story and version of the one read, with the
  database working: the write is accepted exactly when the stored session is still the one
  that was read, and otherwise changes nothing and says ErrVersionConflict. The condition
  that the game stays is needed: once it is deleted, a new game may take its identifier and
  its version 1 (theory \<open>Known_Defects\<close>).
\<close>

theorem no_update_is_lost:
  assumes "svc_store v = games_ops u" "engine_ok (svc_engine v)" "db_inv d" "db_known d user"
    and "games_load u e user i d = Inr s" "\<forall>q \<in> set qs. db_known d (fst (snd q))"
    and "\<forall>k \<le> length qs. db_sess (service_all v (take k qs) d) (s_id s) \<noteq> None"
    and "s_id s' = s_id s" "s_user s' = s_user s" "s_key s' = s_key s" "s_version s' = s_version s"
    and "db_up e'" "storable s'"
  shows "if db_sess (service_all v qs d) (s_id s) = Some s
    then \<exists>d'. games_update u e' s' (service_all v qs d) = (Inr (s'\<lparr>s_version := s_version s + 1\<rparr>), d')
    else \<exists>err. games_update u e' s' (service_all v qs d) = (Inl err, service_all v qs d)
           \<and> errors_is err ErrVersionConflict"
proof -
  have "st_load (games_ops u) e user i d = Inr s" using assms(5) by simp
  from db.no_lost_update [OF assms(1-4) this assms(6-13)] show ?thesis unfolding games_ops_simps .
qed

theorem no_update_is_lost_witness:
  "\<exists>err d. service_all (sample_service (games_ops plain)) [(sample_env, id_of 1, Play (id_of 1) ''look'')] sample_db = d
     \<and> games_update plain sample_env (session_of_row 1 sample_game) d = (Inl err, d) \<and> errors_is err ErrVersionConflict"
proof -
  let ?v = "sample_service (games_ops plain)" and ?q = "(sample_env, id_of 1, Play (id_of 1) ''look'')"
  let ?s = "session_of_row 1 sample_game" and ?d = "service_all (sample_service (games_ops plain))
      [(sample_env, id_of 1, Play (id_of 1) ''look'')] sample_db"
  obtain t d' where "service_play ?v sample_env (id_of 1) (id_of 1) ''look'' sample_db = (Inr t, d')"
      and d': "db_sess d' = (db_sess sample_db)(id_of 1 \<mapsto> sample_played)"
    using sample_turn by blast
  then have d: "?d = d'" by (simp add: service_do_def)
  have load: "games_load plain sample_env (id_of 1) (id_of 1) sample_db = Inr ?s"
    using db_load_complete [OF sample_inv sample_up(2) sample_sess, of "id_of 1" plain] by simp
  have stays: "\<forall>k \<le> length [?q]. db_sess (service_all ?v (take k [?q]) sample_db) (s_id ?s) \<noteq> None"
  proof (intro allI impI)
    fix k assume "k \<le> length [?q]"
    then have "k = 0 \<or> k = 1" by auto
    then show "db_sess (service_all ?v (take k [?q]) sample_db) (s_id ?s) \<noteq> None"
    proof
      assume "k = 0"
      then show ?thesis using sample_sess by simp
    next
      assume "k = 1"
      then have "take k [?q] = [?q]" by simp
      then show ?thesis using d d' by (simp only:) simp
    qed
  qed
  have "s_version sample_played = 5" by (simp add: sample_played_def)
  then have "s_version sample_played \<noteq> s_version ?s" by simp
  then have "sample_played \<noteq> ?s" by metis
  then have other: "db_sess ?d (s_id ?s) \<noteq> Some ?s" unfolding d d' by simp
  have kn: "\<forall>q \<in> set [?q]. db_known sample_db (fst (snd q))" using sample_known by simp
  have v: "svc_store ?v = games_ops plain" "engine_ok (svc_engine ?v)" "storable ?s"
    using sample_engine_ok storable_row [of 1 sample_game] by (simp_all add: check_game_def sample_game_def)
  have "\<exists>err. games_update plain sample_env ?s ?d = (Inl err, ?d) \<and> errors_is err ErrVersionConflict"
    using no_update_is_lost [OF v(1,2) sample_inv sample_known(1) load kn stays refl refl refl refl sample_up(2) v(3)]
      other by simp
  then show ?thesis by blast
qed

section \<open>Saves\<close>

text \<open>
  C10: Saving writes the whole of the stored session under the cleaned name, state, transcript,
  status line, turn count and story key, stamped with the time: in the row that already has
  that name without regard to case, which it reports as replaced, or else in a new one; the
  session itself only gains the notice and a version.
\<close>

theorem save_is_stored:
  assumes "svc_store v = games_ops u" "db_inv d" "\<And>k. db_up (nth_use k e)" "db_sess d i = Some s" "s_user s = user"
    and "\<not> no_bytes (s_state s)" "clean_name name"
    and "(\<exists>k m. db_shelf d i k = Some m \<and> nocase (n_name m) name)
      \<or> card (dom (db_shelf d i)) < max_saves_per_game \<and> db_room d"
  shows "\<exists>k r d' s'. save_locked v e user i name echo d =
      (Inr (s', \<lparr>sv_id = k, sv_name = name, sv_turn = s_turn s, sv_created = now (nth_use 1 e)\<rparr>, r), d')
    \<and> s' = s\<lparr>s_transcript := append_notice (s_transcript s) echo (saved_notice (svc_unicode v) name r),
              s_version := s_version s + 1\<rparr>
    \<and> (r \<longrightarrow> (\<exists>m. db_shelf d i k = Some m \<and> nocase (n_name m) name))
    \<and> (\<not> r \<longrightarrow> db_shelf d i k = None \<and> (\<forall>j m. db_shelf d i j = Some m \<longrightarrow> \<not> nocase (n_name m) name))
    \<and> db_sess d' = (db_sess d)(i \<mapsto> s')
    \<and> db_shelf d' = (db_shelf d)(i := (db_shelf d i)(k \<mapsto>
        \<lparr>n_id = k, n_user = user, n_game = i, n_name = name, n_key = s_key s, n_state = s_state s,
         n_transcript = s_transcript s, n_status = s_status s, n_turn = s_turn s,
         n_created = now (nth_use 1 e)\<rparr>))"
  using db.save_ok [OF assms, of echo] unfolding snapshot_of_def stored_as_def summarize_def by simp

theorem save_is_stored_witness:
  "\<exists>k r d' s' n. save_locked (sample_service (games_ops plain)) sample_env (id_of 1) (id_of 1) ''lamp'' ''save'' sample_db
     = (Inr (s' :: session, \<lparr>sv_id = k, sv_name = ''lamp'', sv_turn = 3, sv_created = now (nth_use 1 sample_env)\<rparr>, r), d')
     \<and> n_name n = ''lamp'' \<and> n_state n = Some [5] \<and> n_turn n = 3
     \<and> db_shelf d' = (db_shelf sample_db)(id_of 1 := (db_shelf sample_db (id_of 1))(k \<mapsto> n))"
proof -
  have room: "(\<exists>k m. db_shelf sample_db (id_of 1) k = Some m \<and> nocase (n_name m) ''lamp'')
      \<or> card (dom (db_shelf sample_db (id_of 1))) < max_saves_per_game \<and> db_room sample_db"
    using sample_card sample_room by (simp add: max_saves_per_game_def)
  let ?n = "\<lambda>k. \<lparr>n_id = k, n_user = id_of 1, n_game = id_of 1, n_name = ''lamp'',
      n_key = s_key (session_of_row 1 sample_game), n_state = Some [5],
      n_transcript = s_transcript (session_of_row 1 sample_game),
      n_status = s_status (session_of_row 1 sample_game), n_turn = 3, n_created = now (nth_use 1 sample_env)\<rparr>"
  have "\<not> no_bytes (s_state (session_of_row 1 sample_game))" by simp
  from save_is_stored [OF _ sample_inv sample_up(1) sample_sess _ this sample_clean(1) room,
      of "sample_service (games_ops plain)" plain "id_of 1" "''save''"]
  obtain k r d' and s' :: session where
    w: "save_locked (sample_service (games_ops plain)) sample_env (id_of 1) (id_of 1) ''lamp'' ''save'' sample_db
      = (Inr (s', \<lparr>sv_id = k, sv_name = ''lamp'', sv_turn = 3, sv_created = now (nth_use 1 sample_env)\<rparr>, r), d')"
    and h: "db_shelf d' = (db_shelf sample_db)(id_of 1 := (db_shelf sample_db (id_of 1))(k \<mapsto> ?n k))" by auto
  show ?thesis
    by (rule exI [of _ k], rule exI [of _ r], rule exI [of _ d'], rule exI [of _ s'], rule exI [of _ "?n k"])
      (use w h in simp)
qed

text \<open>
  C11: A game with twenty saves takes no twenty-first name: the call fails with ErrTooManySaves and
  writes nothing.
\<close>

theorem full_shelf_refused:
  assumes "svc_store v = games_ops u" "db_inv d" "\<And>k. db_up (nth_use k e)" "db_sess d i = Some s" "s_user s = user"
    and "\<not> no_bytes (s_state s)" "clean_name name" "\<forall>k m. db_shelf d i k = Some m \<longrightarrow> \<not> nocase (n_name m) name"
    and "card (dom (db_shelf d i)) = max_saves_per_game"
  shows "\<exists>err. save_locked v e user i name echo d = (Inl err, d) \<and> errors_is err ErrTooManySaves"
  by (rule db.save_full [OF assms])

theorem full_shelf_refused_witness:
  "\<exists>err. save_locked (sample_service (games_ops plain)) sample_env (id_of 1) (id_of 1) ''lamp'' ''save'' sample_full
     = (Inl err, sample_full) \<and> errors_is err ErrTooManySaves"
proof -
  have s: "db_sess sample_full (id_of 1) = Some (session_of_row 1 sample_game)"
    unfolding sample_full_def by (rule sample_with_sess)
  have full: "card (dom (db_shelf sample_full (id_of 1))) = max_saves_per_game"
    using sample_full_card by (simp add: max_saves_per_game_def)
  have st: "\<not> no_bytes (s_state (session_of_row 1 sample_game))" by simp
  show ?thesis
    by (rule full_shelf_refused [OF _ sample_full_inv sample_up(1) s _ st sample_clean(1) _ full])
      (use sample_full_names in auto)
qed

text \<open>
  C12: Save, do anything else that leaves the save on the shelf, restore: the state, status line
  and turn count are the ones of the moment of saving, the screen is the saved one with the
  notice, a halted game is live again, and the shelf is as it was.
\<close>

theorem restore_undoes:
  assumes "svc_store v = games_ops u" "db_inv d" "\<And>k. db_up (nth_use k e)" "db_sess d i = Some s" "s_user s = user"
    and "\<not> no_bytes (s_state s)" "clean_name name"
    and "(\<exists>k m. db_shelf d i k = Some m \<and> nocase (n_name m) name)
      \<or> card (dom (db_shelf d i)) < max_saves_per_game \<and> db_room d"
  shows "\<exists>s1 sv r d1. save_locked v e user i name echo d = (Inr (s1, sv, r), d1)
    \<and> (\<forall>d2 s2 e2 echo2. db_inv d2 \<longrightarrow> (\<forall>k. db_up (nth_use k e2)) \<longrightarrow> db_sess d2 i = Some s2 \<longrightarrow> s_user s2 = user
        \<longrightarrow> s_key s2 = s_key s \<longrightarrow> db_shelf d2 i (sv_id sv) = db_shelf d1 i (sv_id sv)
        \<longrightarrow> (\<exists>s3 d3. restore_locked v e2 user i (sv_id sv) echo2 d2 = (Inr (s3, sv), d3)
              \<and> db_sess d3 i = Some s3 \<and> s_state s3 = s_state s \<and> s_status s3 = s_status s
              \<and> s_turn s3 = s_turn s \<and> \<not> s_halted s3 \<and> s_version s3 = s_version s2 + 1
              \<and> s_transcript s3 = append_notice (s_transcript s) echo2 (restored_notice (svc_unicode v) name)
              \<and> db_shelf d3 = db_shelf d2))"
  by (rule db.save_restore [OF assms])

theorem restore_undoes_witness:
  "\<exists>s1 sv r d1. save_locked (sample_service (games_ops plain)) sample_env (id_of 1) (id_of 1) ''lamp'' ''save'' sample_db
     = (Inr (s1 :: session, sv :: save, r), d1)"
proof -
  have room: "(\<exists>k m. db_shelf sample_db (id_of 1) k = Some m \<and> nocase (n_name m) ''lamp'')
      \<or> card (dom (db_shelf sample_db (id_of 1))) < max_saves_per_game \<and> db_room sample_db"
    using sample_card sample_room by (simp add: max_saves_per_game_def)
  have "\<not> no_bytes (s_state (session_of_row 1 sample_game))" by simp
  from restore_undoes [OF _ sample_inv sample_up(1) sample_sess _ this sample_clean(1) room,
      of "sample_service (games_ops plain)" plain "id_of 1" "''save''"]
  show ?thesis by fastforce
qed

text \<open>C13: A save written from another story image is not restored: ErrSaveMismatch, nothing written.\<close>

theorem foreign_save_refused:
  assumes "svc_store v = games_ops u" "db_inv d" "\<And>k. db_up (nth_use k e)" "db_sess d i = Some s" "s_user s = user"
    and "db_shelf d i k = Some n" "n_key n \<noteq> s_key s"
  shows "\<exists>err. restore_locked v e user i k echo d = (Inl err, d) \<and> errors_is err ErrSaveMismatch"
  by (rule db.restore_mismatch [OF assms])

theorem foreign_save_refused_witness:
  "\<exists>err. restore_locked (sample_service (games_ops plain)) sample_env (id_of 1) (id_of 1) (id_of 1) ''restore''
     sample_foreign = (Inl err, sample_foreign) \<and> errors_is err ErrSaveMismatch"
proof -
  have s: "db_sess sample_foreign (id_of 1) = Some (session_of_row 1 sample_game)"
    unfolding sample_foreign_def by (rule sample_with_sess)
  show ?thesis
    by (rule foreign_save_refused [OF _ sample_foreign_inv sample_up(1) s _ sample_foreign_shelf])
      (simp_all add: snapshot_of_row_def)
qed

section \<open>Beginning, ending, and other people\<close>

text \<open>
  A new game is a new row: nobody's game had its identifier, it holds the opening the story
  printed at turn 0 and version 1, and nothing else changes.
\<close>

theorem new_game_is_stored:
  assumes "svc_store v = games_ops u" "db_inv d" "db_up (nth_use 1 e)" "db_room d" "db_known d user" "user \<noteq> []"
    and "lib_by_id (svc_library v) story = Some en"
    and "runner_start (svc_engine v) (svc_runner v) e (Some en) = Inr res" "result_ok res"
  shows "\<exists>i d'. service_new_game v e user story d =
      (Inr (\<lparr>s_id = i, s_user = user, s_key = en_key en, s_state = z_state res, s_transcript = z_output res,
             s_status = status_of (z_line res), s_turn = 0, s_version = 1, s_halted = z_halted res\<rparr>, res), d')
    \<and> db_sess d i = None \<and> db_shelf d' = db_shelf d
    \<and> db_sess d' = (db_sess d)(i \<mapsto> \<lparr>s_id = i, s_user = user, s_key = en_key en, s_state = z_state res,
        s_transcript = z_output res, s_status = status_of (z_line res), s_turn = 0, s_version = 1,
        s_halted = z_halted res\<rparr>)"
  by (rule db.new_game_ok [OF assms])

theorem new_game_is_stored_witness:
  "\<exists>i s d'. service_new_game (sample_service (games_ops plain)) sample_env (id_of 2) ''zork1'' sample_db
      = (Inr (s, sample_opening), d') \<and> db_sess sample_db i = None \<and> db_sess d' i = Some s"
  using new_game_is_stored [OF _ sample_inv sample_up(1) sample_room sample_known(2), of
      "sample_service (games_ops plain)" plain "''zork1''" sample_entry sample_opening] sample_start sample_results_ok
  by fastforce

text \<open>
  C14: RESTART, once confirmed, stores the story's opening again under the next version: its
  state, its text as the whole screen, its status line and halted flag, and a turn count of
  zero, on a halted game as well; owner and story stay, and so does every save.
\<close>

theorem restart_keeps_saves:
  assumes "svc_store v = games_ops u" "db_inv d" "\<And>k. db_up (nth_use k e)" "db_sess d i = Some s" "s_user s = user"
    and "user \<noteq> []" "lib_by_key (svc_library v) (s_key s) = Some en"
    and "runner_start (svc_engine v) (svc_runner v) (nth_use 1 e) (Some en) = Inr res" "result_ok res"
  shows "\<exists>s' d'. service_restart v e user i d =
      (Inr (zero_turn\<lparr>t_intent := IntentRestart, t_session := s', t_result := res\<rparr>), d')
    \<and> s' = \<lparr>s_id = s_id s, s_user = s_user s, s_key = s_key s, s_state = z_state res, s_transcript = z_output res,
        s_status = \<lparr>sl_available = z_available (z_line res), sl_name = z_name (z_line res),
          sl_time_game = z_time_game (z_line res), sl_score = z_score (z_line res), sl_moves = z_turns (z_line res),
          sl_hours = z_hours (z_line res), sl_minutes = z_minutes (z_line res)\<rparr>,
        s_turn = 0, s_version = s_version s + 1, s_halted = z_halted res\<rparr>
    \<and> db_sess d' = (db_sess d)(i \<mapsto> s') \<and> db_shelf d' = db_shelf d"
  using db.restart_ok [OF assms] unfolding restarted_def status_of_def session_written by blast

theorem restart_keeps_saves_witness:
  "\<exists>t d'. service_restart (sample_service (games_ops plain)) sample_env (id_of 1) (id_of 1) sample_db = (Inr t, d')
     \<and> db_shelf d' = db_shelf sample_db"
  using restart_keeps_saves [OF _ sample_inv sample_up(1) sample_sess, of "sample_service (games_ops plain)" plain
      "id_of 1" sample_entry sample_opening] sample_start sample_results_ok
  by fastforce

text \<open>
  C15: Deleting a game removes it and its whole shelf and nothing else; asked for again it is not
  found.
\<close>

theorem deleted_game_is_gone:
  assumes "svc_store v = games_ops u" "db_inv d" "\<And>k. db_up (nth_use k e)" "\<And>k. db_up (nth_use k e2)"
    and "db_sess d i = Some s" "s_user s = user" "user \<noteq> []"
  shows "\<exists>d'. service_delete v e user i d = (Inr (), d') \<and> db_sess d' = (db_sess d)(i := None)
    \<and> db_shelf d' = (db_shelf d)(i := Map.empty)
    \<and> (\<exists>err. service_session v e2 user i d' = Inl err \<and> errors_is err ErrSessionNotFound)"
  by (rule db.delete_gone [OF assms])

theorem deleted_game_is_gone_witness:
  "\<exists>d'. service_delete (sample_service (games_ops plain)) sample_env (id_of 1) (id_of 1) sample_db = (Inr (), d')
     \<and> db_sess d' = (db_sess sample_db)(id_of 1 := None) \<and> db_shelf d' = (db_shelf sample_db)(id_of 1 := Map.empty)"
  using deleted_game_is_gone [OF _ sample_inv sample_up(1) sample_up(1) sample_sess, of
      "sample_service (games_ops plain)" plain "id_of 1"] by fastforce

text \<open>
  C16: Another user's game reads as missing, whatever is asked of it by its identifier: looking,
  listing its saves, restarting, restoring, saving, deleting it or a save of it all answer
  ErrSessionNotFound, the answer for a game that does not exist, and change nothing. So does
  a line typed into it, but for the lines that are answered before any game is looked at:
  RESTART and a bare SAVE or RESTORE, which ask a question back, and a SAVE whose name no
  save can have, which is refused for its name.
\<close>

theorem stranger_told_missing:
  assumes "svc_store v = games_ops u" "db_inv d" "\<And>k. db_up (nth_use k e)" "db_known d user" "user \<noteq> []"
    and "canon i \<noteq> None" "canon k \<noteq> None" "\<not> owned (db_sess d) user i"
    and "clean_save_name name = Inr clean" "interpret_line (svc_unicode v) c = line"
  shows "(\<exists>err. service_session v e user i d = Inl err \<and> errors_is err ErrSessionNotFound)
    \<and> (\<exists>err. service_saves v e user i d = Inl err \<and> errors_is err ErrSessionNotFound)
    \<and> (\<exists>err. service_restart v e user i d = (Inl err, d) \<and> errors_is err ErrSessionNotFound)
    \<and> (\<exists>err. service_restore v e user i k d = (Inl err, d) \<and> errors_is err ErrSessionNotFound)
    \<and> (\<exists>err. service_save v e user i name d = (Inl err, d) \<and> errors_is err ErrSessionNotFound)
    \<and> (\<exists>err. service_delete v e user i d = (Inl err, d) \<and> errors_is err ErrSessionNotFound)
    \<and> (\<exists>err. service_delete_save v e user i k d = (Inl err, d) \<and> errors_is err ErrSessionNotFound)
    \<and> (case c_intent line of
          IntentPlay \<Rightarrow> \<exists>err. service_play v e user i c d = (Inl err, d) \<and> errors_is err ErrSessionNotFound
        | IntentRestart \<Rightarrow> service_play v e user i c d =
            (Inr (zero_turn\<lparr>t_intent := IntentRestart, t_asked := True\<rparr>), d)
        | IntentSave \<Rightarrow> if c_name line = []
            then service_play v e user i c d = (Inr (zero_turn\<lparr>t_intent := IntentSave, t_asked := True\<rparr>), d)
            else (case clean_save_name (c_name line) of
                Inl err \<Rightarrow> service_play v e user i c d = (Inl err, d)
              | Inr _ \<Rightarrow> \<exists>err. service_play v e user i c d = (Inl err, d) \<and> errors_is err ErrSessionNotFound)
        | IntentRestore \<Rightarrow> if c_name line = []
            then service_play v e user i c d = (Inr (zero_turn\<lparr>t_intent := IntentRestore, t_asked := True\<rparr>), d)
            else \<exists>err. service_play v e user i c d = (Inl err, d) \<and> errors_is err ErrSessionNotFound)"
proof -
  note call = db.stranger_refused [OF assms(1-6,8)]
  note line = db.stranger_plays [OF assms(1-6,8,10)]
  show ?thesis
    by (intro conjI call(1-4,6) call(5) [OF assms(9)] call(7) [OF assms(7)])
      (auto split: intent.split sum.split dest: line)
qed

theorem stranger_told_missing_witness:
  "\<exists>err err'. service_session (sample_service (games_ops plain)) sample_env (id_of 2) (id_of 1) sample_db = Inl err
     \<and> errors_is err ErrSessionNotFound
     \<and> service_delete (sample_service (games_ops plain)) sample_env (id_of 2) (id_of 1) sample_db = (Inl err', sample_db)
     \<and> errors_is err' ErrSessionNotFound"
proof -
  have "\<not> owned (db_sess sample_db) (id_of 2) (id_of 1)" using sample_sess by (simp add: owned_def)
  from stranger_told_missing [OF _ sample_inv sample_up(1) sample_known(2) id_nonempty _ _ this
      clean_save_name_fixed [OF sample_clean(1)] refl, of "sample_service (games_ops plain)" plain "id_of 1" "''look''"]
  show ?thesis using sample_rows by auto
qed

section \<open>Many calls at once\<close>

text \<open>
  C6: Mutual exclusion per session: however callers enter, wait, leave and come back, at most one
  of them is between \<open>lock\<close> and \<open>unlock\<close> of a key.
\<close>

theorem one_caller_inside:
  assumes "lock_reachable m" "mx_phase m s = Inside key a" "mx_phase m t = Inside key b"
  shows "s = t"
  by (rule inside_unique [OF lock_reachable_inv [OF assms(1)] assms(2,3)])

theorem one_caller_inside_witness: "\<forall>s a. mx_phase (sample_lock 3) s = Inside ''1'' a \<longleftrightarrow> s = 0 \<and> a = 0"
proof (intro allI iffI)
  fix s a assume i: "mx_phase (sample_lock 3) s = Inside ''1'' a"
  then have "s = 0" by (rule one_caller_inside [OF sample_lock_reachable _ sample_lock_phases(1)])
  with i sample_lock_phases(1) show "s = 0 \<and> a = 0" by simp
qed (simp add: sample_lock_phases)

text \<open>
  C7: A caller that waits can get in, or the one who is in can unlock: the lock itself never
  deadlocks, also when the map's entry was dropped and made again in between.
\<close>

theorem waiter_not_stuck:
  assumes "lock_reachable m" "mx_phase m t = Waiting key a"
  shows "acquire t m \<noteq> None \<or> (\<exists>s. mx_phase m s = Inside key a \<and> unlock s m \<noteq> None)"
  by (rule waiting_progress [OF lock_reachable_inv [OF assms(1)] assms(2)])

theorem waiter_not_stuck_witness:
  "\<exists>s. mx_phase (sample_lock 3) s = Inside ''1'' 0 \<and> unlock s (sample_lock 3) \<noteq> None"
proof -
  have "acquire 1 (sample_lock 3) = None"
    by (simp add: sample_lock_def enter_def acquire_def no_locks_def eval_nat_numeral)
  then show ?thesis using waiter_not_stuck [OF sample_lock_reachable sample_lock_phases(2)] by blast
qed

text \<open>The map holds no entry for a key nobody is using, so it does not grow with the sessions seen.\<close>

theorem no_idle_entries:
  assumes "lock_reachable m" "mx_locks m key = Some a"
  shows "\<exists>t. uses (mx_phase m t) = Some (key, a)"
  by (rule entries_used [OF lock_reachable_inv [OF assms(1)] assms(2)])

theorem no_idle_entries_witness: "\<exists>t. uses (mx_phase (sample_lock 3) t) = Some (''1'', 0)"
  by (rule no_idle_entries [OF sample_lock_reachable sample_lock_phases(3)])

text \<open>
  C8: In one process in which every caller names its session the way the store writes it,
  whatever other calls are going on, a call that took its session's lock, read the session
  and now writes it back is not refused for a version conflict. The condition is needed: the
  lock is of the identifier as written, and 1 and +1 are one game to the store
  (\<open>two_names_conflict\<close> in theory \<open>Known_Defects\<close>).
\<close>

theorem locked_turn_not_refused:
  assumes "(orderly_step (games_ops u) db_known (\<lambda>i. canon i \<noteq> None))\<^sup>*\<^sup>* (idle_world d) w" "db_inv d"
    and "w_read w t = Some s" "s_id s' = s_id s" "s_user s' = s_user s" "s_key s' = s_key s"
    and "s_version s' = s_version s" "storable s'" "db_up e"
  shows "\<exists>d'. games_update u e s' (w_store w) = (Inr (s'\<lparr>s_version := s_version s + 1\<rparr>), d')"
  using db.locked_write_accepted [OF assms] by simp

theorem locked_turn_not_refused_witness:
  "\<exists>d'. games_update plain sample_env (session_of_row 1 sample_game) sample_db =
     (Inr ((session_of_row 1 sample_game)\<lparr>s_version := 5\<rparr>), d')"
proof -
  have "w_read sample_process 0 = Some (session_of_row 1 sample_game)" "storable (session_of_row 1 sample_game)"
    by (simp_all add: sample_process_def storable_row check_game_def sample_game_def)
  from locked_turn_not_refused [OF sample_process_reachable sample_inv this(1) refl refl refl refl this(2) sample_up(2)]
  show ?thesis by (simp add: sample_process_def)
qed

end
