(* ===== verification/Text_Properties.thy ===== *)
theory Text_Properties
  imports Sample_World
begin

text \<open>
  Properties of the parts that have no store under them: the lines a player types, save names,
  the transcript, the story library, and one turn on the engine.
\<close>

section \<open>Lines and names\<close>

text \<open>
  C17: The application answers a line itself exactly when its first word is SAVE, RESTORE or
  RESTART in ASCII letters of any case; no other spelling, and in particular no letter that
  Unicode lowers to an ASCII one, takes a line from the story.
\<close>

theorem three_verbs_are_ours:
  assumes "lower_table_ok u"
  shows "c_intent (interpret_line u line) =
     (if same_word (line_verb line) ''save'' then IntentSave
      else if same_word (line_verb line) ''restore'' then IntentRestore
      else if same_word (line_verb line) ''restart'' then IntentRestart else IntentPlay)"
  by (rule interpret_line_verbs [OF assms])

lemma plain_lower: "lower_table_ok plain"
  by (simp add: lower_table_ok_def plain_def)

theorem three_verbs_are_ours_witness:
  "c_intent (interpret_line plain ''  SaVe troll'') = IntentSave \<and> c_intent (interpret_line plain ''saved'') = IntentPlay"
  using three_verbs_are_ours [OF plain_lower, of "''  SaVe troll''"] three_verbs_are_ours [OF plain_lower, of "''saved''"]
  by (simp add: line_verb_def same_word_def text_eval Let_def)

text \<open>
  C18: A name that is accepted is stored clean: not empty, at most 48 bytes of valid UTF-8 without
  control characters, one blank between words and none around them; cleaning it again changes
  nothing. What a player types, in whatever spacing and letters of whatever case, finds the save
  stored under the name unless an earlier one on the list has a name that folds to it too, and
  finds no save but one whose name does.
\<close>

theorem accepted_names_are_clean:
  assumes "clean_save_name s = Inr n" "equal_fold u n (join '' '' (str_fields typed))"
  shows "n \<noteq> [] \<and> length n \<le> 48 \<and> valid_utf8 n \<and> list_all (\<lambda>p. \<not> is_control (fst p)) (runes n)
    \<and> join '' '' (str_fields n) = n \<and> clean_save_name n = Inr n
    \<and> (\<forall>xs sv ys. sv_name sv = n \<and> (\<forall>x \<in> set xs. \<not> equal_fold u (sv_name x) n)
          \<longrightarrow> find_save u (xs @ sv # ys) (join '' '' (str_fields typed)) = Some sv)
    \<and> (\<forall>svs sv. find_save u svs (join '' '' (str_fields typed)) = Some sv \<longrightarrow> sv \<in> set svs \<and> equal_fold u (sv_name sv) n)"
proof -
  let ?t = "join '' '' (str_fields typed)"
  have n: "clean_name n" using assms(1) by (rule clean_save_name_shape)
  have fold: "equal_fold u a ?t \<longleftrightarrow> equal_fold u a n" for a
    using assms(2) by (simp add: equal_fold_def)
  have found: "find_save u (xs @ sv # ys) ?t = Some sv"
    if "sv_name sv = n" "\<forall>x \<in> set xs. \<not> equal_fold u (sv_name x) n" for xs ys and sv :: save
    by (rule find_save_first) (use that assms(2) in \<open>simp_all add: same_save_name_def fold\<close>)
  have only: "sv \<in> set svs \<and> equal_fold u (sv_name sv) n" if "find_save u svs ?t = Some sv" for svs sv
    using find_save_Some [OF that] by (simp add: same_save_name_def fold)
  show ?thesis using n clean_save_name_fixed [OF n] found only
    unfolding clean_name_def max_save_name_bytes_def by blast
qed

theorem accepted_names_are_clean_witness:
  "clean_save_name ''by lamp'' = Inr ''by lamp''
    \<and> find_save plain [\<lparr>sv_id = ''2'', sv_name = ''troll'', sv_turn = 1, sv_created = 5\<rparr>,
        \<lparr>sv_id = ''1'', sv_name = ''by lamp'', sv_turn = 3, sv_created = 4\<rparr>] (join '' '' (str_fields '' BY  lamp''))
      = Some \<lparr>sv_id = ''1'', sv_name = ''by lamp'', sv_turn = 3, sv_created = 4\<rparr>"
proof -
  let ?a = "\<lparr>sv_id = ''2'', sv_name = ''troll'', sv_turn = 1, sv_created = 5\<rparr> :: save"
  let ?b = "\<lparr>sv_id = ''1'', sv_name = ''by lamp'', sv_turn = 3, sv_created = 4\<rparr> :: save"
  have c: "clean_save_name ''  by  lamp '' = Inr ''by lamp''"
    by (simp add: clean_save_name_def text_eval max_save_name_bytes_def)
  have f: "equal_fold plain ''by lamp'' (join '' '' (str_fields '' BY  lamp''))"
    by (simp add: text_eval plain_def)
  have a: "\<not> equal_fold plain (sv_name ?a) ''by lamp''" by (simp add: text_eval plain_def)
  show ?thesis using accepted_names_are_clean [OF c f]
  proof (elim conjE, intro conjI)
    assume "\<forall>xs sv ys. sv_name sv = ''by lamp'' \<and> (\<forall>x \<in> set xs. \<not> equal_fold plain (sv_name x) ''by lamp'')
      \<longrightarrow> find_save plain (xs @ sv # ys) (join '' '' (str_fields '' BY  lamp'')) = Some sv"
    from this [THEN spec, of "[?a]", THEN spec, of ?b, THEN spec, of "[]"] a
    show "find_save plain [?a, ?b] (join '' '' (str_fields '' BY  lamp'')) = Some ?b"
      by (simp only: append_Cons append_Nil list.set ball_simps save.select_convs simp_thms)
  qed
qed

section \<open>The transcript\<close>

text \<open>
  C19: Whatever is appended, the stored transcript is at most 64 KiB and an end of what the player
  has seen; when lines had to go, the oldest went whole (unless a single line is longer than
  the limit), and when nothing had to go, nothing did.
\<close>

theorem transcript_keeps_newest_lines:
  fixes t c out :: string
  defines "all \<equiv> t @ c @ [newline] @ out"
  shows "length (append_transcript t c out) \<le> max_transcript_bytes \<and>
    (\<exists>gone. all = gone @ append_transcript t c out
       \<and> (length all \<le> max_transcript_bytes \<longrightarrow> gone = [])
       \<and> (max_transcript_bytes < length all \<and> newline \<in> set (drop (length all - max_transcript_bytes) all)
            \<longrightarrow> last gone = newline \<and> gone \<noteq> []))"
proof (rule conjI [OF append_transcript_length])
  have a: "append_transcript t c out = trim_transcript all max_transcript_bytes"
    by (simp add: append_transcript_def all_def)
  show "\<exists>gone. all = gone @ append_transcript t c out
       \<and> (length all \<le> max_transcript_bytes \<longrightarrow> gone = [])
       \<and> (max_transcript_bytes < length all \<and> newline \<in> set (drop (length all - max_transcript_bytes) all)
            \<longrightarrow> last gone = newline \<and> gone \<noteq> [])"
  proof (cases "max_transcript_bytes < length all \<and> newline \<in> set (drop (length all - max_transcript_bytes) all)")
    case True
    then obtain gone where "all = (gone @ [newline]) @ append_transcript t c out"
      using trim_at_line [of max_transcript_bytes all] unfolding a by auto
    with True show ?thesis by (intro exI [of _ "gone @ [newline]"]) auto
  next
    case False
    obtain gone where g: "all = gone @ append_transcript t c out" using trim_suffix unfolding a by blast
    have "gone = []" if "length all \<le> max_transcript_bytes"
      using g that by (simp add: a trim_transcript_def)
    with g False show ?thesis by auto
  qed
qed

theorem transcript_keeps_newest_lines_witness:
  "append_transcript ''>'' ''look'' ''West of House'' = ''>'' @ ''look'' @ [newline] @ ''West of House''"
proof -
  have "length (''>'' @ ''look'' @ [newline] @ ''West of House'') \<le> max_transcript_bytes"
    by (simp add: max_transcript_bytes_def)
  with transcript_keeps_newest_lines [of "''>''" "''look''" "''West of House''"] show ?thesis by auto
qed

text \<open>
  A notice of this application leaves the transcript waiting for input, ending in the prompt,
  even when the limit had to cut it.
\<close>

theorem notice_ends_in_prompt:
  "append_notice t echo msg \<noteq> [] \<and> last (append_notice t echo msg) = CHR ''>''
    \<and> length (append_notice t echo msg) \<le> max_transcript_bytes"
  using append_notice_prompt append_notice_length by blast

section \<open>The library and the engine\<close>

text \<open>
  A library that loads holds exactly the given stories in their order, none twice by
  identifier or by image, and both lookups answer with the entry of that order that has the
  identifier or the key.
\<close>

theorem library_holds_each_story:
  assumes "new_library sha eng srcs = Inr l"
  shows "map en_id (lib_all l) = map src_id srcs
    \<and> map en_key (lib_all l) = map (story_key_of sha \<circ> src_data) srcs
    \<and> distinct (map src_id srcs) \<and> distinct (map (story_key_of sha \<circ> src_data) srcs) \<and> lib_len l = length srcs
    \<and> (\<forall>i e. lib_by_id l i = Some e \<longleftrightarrow> e \<in> set (lib_all l) \<and> en_id e = i)
    \<and> (\<forall>k e. lib_by_key l k = Some e \<longleftrightarrow> e \<in> set (lib_all l) \<and> en_key e = k)"
proof -
  have ok: "library_ok l" by (rule new_library_ok [OF assms])
  obtain es where es: "lib_order l = es" "map en_id es = map src_id srcs"
      "map en_key es = map (story_key_of sha \<circ> src_data) srcs"
    using assms by (auto simp: new_library_def split: if_splits dest!: add_sources_order)
  then have o: "map en_id (lib_all l) = map src_id srcs"
      "map en_key (lib_all l) = map (story_key_of sha \<circ> src_data) srcs"
    by (simp_all add: lib_all_def)
  moreover have "lib_len l = length srcs" using o(1) unfolding lib_len_def lib_all_def by (metis length_map)
  moreover have "distinct (map src_id srcs)" "distinct (map (story_key_of sha \<circ> src_data) srcs)"
    using ok o by (simp_all add: library_ok_def lib_all_def)
  ultimately show ?thesis using library_lookup [OF ok] by blast
qed

theorem library_holds_each_story_witness:
  "\<exists>l :: bytes library. embedded_library (\<lambda>b. word_of_nat (length b)) sample_engine [1] [1, 2] [1, 2, 3] = Inr l
     \<and> lib_len l = 3 \<and> map en_id (lib_all l) = [''zork1'', ''zork2'', ''zork3'']"
proof -
  let ?sha = "\<lambda>b :: bytes. word_of_nat (length b) :: story_key"
  have "\<exists>l. new_library ?sha sample_engine (games_all [1] [1, 2] [1, 2, 3]) = Inr l"
    by (simp add: new_library_def games_all_def add_source_def sample_engine_def story_key_of_def Let_def)
  then obtain l where l: "new_library ?sha sample_engine (games_all [1] [1, 2] [1, 2, 3]) = Inr l" ..
  from library_holds_each_story [OF l] have "lib_len l = 3 \<and> map en_id (lib_all l) = [''zork1'', ''zork2'', ''zork3'']"
    by (simp add: games_all_def)
  with l show ?thesis by (auto simp: embedded_library_def)
qed

text \<open>
  C20: A turn gets a machine made for it alone, restored from the stored bytes, and a deadline no
  later than the caller's and than now plus the turn's timeout; when the engine fails, at
  whatever step, the error the caller classifies is classified as the engine's own.
\<close>

theorem turn_is_bounded_and_classified:
  assumes "0 < turn_timeout r" "b \<noteq> []" "length command \<le> max_command_bytes"
  shows "\<exists>e' d. ctx_deadline e' = Some d \<and> d \<le> now e + turn_timeout r \<and> (\<forall>c. ctx_deadline e = Some c \<longrightarrow> d \<le> c)
    \<and> (case bind_r (z_new eng (en_story story) (instruction_limit r) (rnd_seed r))
             (\<lambda>m. bind_r (z_restore eng m b) (\<lambda>m'. z_run eng e' m' command)) of
         Inr res \<Rightarrow> runner_run eng r e (Some story) (Some b) command = Inr res
       | Inl x \<Rightarrow> \<exists>err. runner_run eng r e (Some story) (Some b) command = Inl err
           \<and> classify (Some err) = classify (Some x))"
proof -
  obtain d where d: "ctx_deadline (bound_ctx r e) = Some d" "d \<le> now e + turn_timeout r"
      "\<forall>c. ctx_deadline e = Some c \<longrightarrow> d \<le> c"
    using bound_ctx_nearer [OF assms(1)] by blast
  have "case bind_r (z_new eng (en_story story) (instruction_limit r) (rnd_seed r))
             (\<lambda>m. bind_r (z_restore eng m b) (\<lambda>m'. z_run eng (bound_ctx r e) m' command)) of
         Inr res \<Rightarrow> runner_run eng r e (Some story) (Some b) command = Inr res
       | Inl x \<Rightarrow> \<exists>err. runner_run eng r e (Some story) (Some b) command = Inl err
           \<and> classify (Some err) = classify (Some x)"
    using assms(2,3) by (simp add: runner_run_def new_machine_def bind_r_def Let_def split: sum.splits)
  with d show ?thesis by blast
qed

theorem turn_is_bounded_and_classified_witness:
  "\<exists>err. runner_run (sample_engine\<lparr>z_run := \<lambda>_ _ _. Inl (Sentinel CtxDeadlineExceeded)\<rparr>) sample_runner sample_env
     (Some sample_entry) (Some [5]) ''look'' = Inl err \<and> classify (Some err) = FaultTimeout"
proof -
  let ?eng = "sample_engine\<lparr>z_run := \<lambda>_ _ _. Inl (Sentinel CtxDeadlineExceeded)\<rparr>"
  have "0 < turn_timeout sample_runner" "length ''look'' \<le> max_command_bytes"
    by (simp_all add: sample_runner_def new_runner_def default_turn_timeout_def second_def max_command_bytes_def)
  from turn_is_bounded_and_classified [OF this(1) _ this(2), where b = "[5]" and e = sample_env
      and eng = ?eng and story = sample_entry]
  obtain err where "runner_run ?eng sample_runner sample_env (Some sample_entry) (Some [5]) ''look'' = Inl err"
      "classify (Some err) = classify (Some (Sentinel CtxDeadlineExceeded))"
    by (auto simp: sample_engine_def)
  moreover have "classify (Some (Sentinel CtxDeadlineExceeded)) = FaultTimeout" by (simp add: classify_def)
  ultimately show ?thesis by simp
qed

end
