(* ===== verification/Auth_Password.thy ===== *)
theory Auth_Password
  imports Game_Types
begin

text \<open>
  Passwords (auth/password.go): the PHC string a hash is stored as, its writer and its reader,
  and hashing and verifying over them. Argon2id is golang.org/x/crypto, a function of the
  password, the salt and the cost parameters; the system's random source is an argument too.
\<close>

section \<open>Bytes and base64\<close>

definition bytes_of :: "string \<Rightarrow> bytes" where
  "bytes_of s = map (\<lambda>c. word_of_nat (byte c)) s"

text \<open>\<open>base64.RawStdEncoding\<close>: no padding, \<open>'+'\<close> and \<open>'/'\<close>.\<close>

definition b64_char :: "nat \<Rightarrow> char" where
  "b64_char v = char_of (if v < 26 then 65 + v else if v < 52 then 71 + v else if v < 62 then v - 4
     else if v = 62 then 43 else 47)"

definition b64_value :: "char \<Rightarrow> nat option" where
  "b64_value c = (let b = byte c in
     if 65 \<le> b \<and> b \<le> 90 then Some (b - 65) else if 97 \<le> b \<and> b \<le> 122 then Some (b - 71)
     else if 48 \<le> b \<and> b \<le> 57 then Some (b + 4) else if b = 43 then Some 62 else if b = 47 then Some 63 else None)"

fun b64_encode :: "bytes \<Rightarrow> string" where
  "b64_encode (a # b # c # rest) =
     map b64_char [unat a div 4, unat a mod 4 * 16 + unat b div 16, unat b mod 16 * 4 + unat c div 64, unat c mod 64]
       @ b64_encode rest"
| "b64_encode [a, b] = map b64_char [unat a div 4, unat a mod 4 * 16 + unat b div 16, unat b mod 16 * 4]"
| "b64_encode [a] = map b64_char [unat a div 4, unat a mod 4 * 16]"
| "b64_encode [] = []"

text \<open>Decoding a sequence of sextets: the bits left over at the end are dropped.\<close>

fun b64_groups :: "nat list \<Rightarrow> bytes option" where
  "b64_groups (a # b # c # d # rest) =
     map_option (\<lambda>bs. word_of_nat (a * 4 + b div 16) # word_of_nat (b mod 16 * 16 + c div 4)
        # word_of_nat (c mod 4 * 64 + d) # bs) (b64_groups rest)"
| "b64_groups [a, b, c] = Some [word_of_nat (a * 4 + b div 16), word_of_nat (b mod 16 * 16 + c div 4)]"
| "b64_groups [a, b] = Some [word_of_nat (a * 4 + b div 16)]"
| "b64_groups [a] = None"
| "b64_groups [] = Some []"

text \<open>\<open>DecodeString\<close> passes over CR and LF wherever they stand; any other stray byte is an error.\<close>

definition b64_decode :: "string \<Rightarrow> bytes option" where
  "b64_decode s =
     (let vs = map b64_value (filter (\<lambda>c. c \<noteq> CHR 0x0A \<and> c \<noteq> CHR 0x0D) s) in
      if None \<in> set vs then None else b64_groups (map the vs))"

section \<open>Scanning integers\<close>

text \<open>
  \<open>fmt.Sscanf\<close> on the formats used here: literal text that must match, and \<open>%d\<close>, which skips
  spaces but no newline and takes as many digits as there are. What follows the last verb is
  not looked at.
\<close>

definition scan_lit :: "string \<Rightarrow> string \<Rightarrow> string option" where
  "scan_lit lit s = (if take (length lit) s = lit then Some (drop (length lit) s) else None)"

definition skip_space :: "string \<Rightarrow> string option" where
  "skip_space s =
     (let rest = text_of (dropWhile (\<lambda>p. is_space (fst p) \<and> fst p \<noteq> 10) (runes s)) in
      if rest \<noteq> [] \<and> hd rest = CHR 0x0A then None else Some rest)"

definition is_digit :: "char \<Rightarrow> bool" where
  "is_digit c \<longleftrightarrow> 48 \<le> byte c \<and> byte c \<le> 57"

definition scan_digits :: "string \<Rightarrow> (nat \<times> string) option" where
  "scan_digits s = map_option (\<lambda>n. (n, dropWhile is_digit s)) (parse_nat (takeWhile is_digit s))"

text \<open>Into an unsigned integer of \<open>w\<close> bits, and into an \<open>int\<close>.\<close>

definition scan_uint :: "nat \<Rightarrow> string \<Rightarrow> (nat \<times> string) option" where
  "scan_uint w s = (case Option.bind (skip_space s) scan_digits of
     Some (n, rest) \<Rightarrow> if n < 2 ^ w then Some (n, rest) else None | None \<Rightarrow> None)"

definition scan_int :: "string \<Rightarrow> (int \<times> string) option" where
  "scan_int s = (case skip_space s of
     None \<Rightarrow> None
   | Some t \<Rightarrow>
       let neg = (t \<noteq> [] \<and> hd t = CHR ''-''); signed = (t \<noteq> [] \<and> (hd t = CHR ''-'' \<or> hd t = CHR ''+'')) in
       (case scan_digits (if signed then tl t else t) of
          Some (n, rest) \<Rightarrow>
            if neg then (if n \<le> 2 ^ 63 then Some (- int n, rest) else None)
            else (if n < 2 ^ 63 then Some (int n, rest) else None)
        | None \<Rightarrow> None))"

section \<open>Hashes\<close>

record hash_params =
  hp_memory :: "32 word"
  hp_time :: "32 word"
  hp_threads :: "8 word"
  hp_salt_len :: "32 word"
  hp_key_len :: "32 word"

definition default_params :: hash_params where
  "default_params = \<lparr>hp_memory = 9 * 1024, hp_time = 4, hp_threads = 1, hp_salt_len = 16, hp_key_len = 32\<rparr>"

definition min_password_length :: nat where "min_password_length = 8"
definition max_password_length :: nat where "max_password_length = 1024"

text \<open>\<open>argon2.Version\<close> is part of the format and of that package.\<close>

definition argon2_version :: int where "argon2_version = 0x13"

record crypto =
  sha256 :: "string \<Rightarrow> 256 word"
  argon2id :: "bytes \<Rightarrow> bytes \<Rightarrow> 32 word \<Rightarrow> 32 word \<Rightarrow> 8 word \<Rightarrow> 32 word \<Rightarrow> bytes"
  rand_read :: "env \<Rightarrow> nat \<Rightarrow> bytes result"

definition check_password_length :: "string \<Rightarrow> unit result" where
  "check_password_length password =
     (if length password < min_password_length
      then Inl (Wrap (''auth: password is shorter than '' @ nat_digits min_password_length @ '' characters'')
             (Sentinel ErrWeakPassword))
      else if max_password_length < length password
      then Inl (Wrap (''auth: password is longer than '' @ nat_digits max_password_length @ '' characters'')
             (Sentinel ErrWeakPassword))
      else Inr ())"

definition encode_hash :: "hash_params \<Rightarrow> bytes \<Rightarrow> bytes \<Rightarrow> string" where
  "encode_hash p salt key =
     ''$argon2id$v='' @ nat_digits (nat argon2_version) @ ''$m='' @ nat_digits (unat (hp_memory p))
       @ '',t='' @ nat_digits (unat (hp_time p)) @ '',p='' @ nat_digits (unat (hp_threads p))
       @ ''$'' @ b64_encode salt @ ''$'' @ b64_encode key"

definition hash_with :: "crypto \<Rightarrow> env \<Rightarrow> string \<Rightarrow> hash_params \<Rightarrow> string result" where
  "hash_with cr e password p =
     bind_r (wrap_r ''auth: hash password'' (rand_read cr e (unat (hp_salt_len p))))
       (\<lambda>salt. Inr (encode_hash p salt
          (argon2id cr (bytes_of password) salt (hp_time p) (hp_memory p) (hp_threads p) (hp_key_len p))))"

definition hash_password :: "crypto \<Rightarrow> env \<Rightarrow> string \<Rightarrow> string result" where
  "hash_password cr e password =
     bind_r (check_password_length password) (\<lambda>_. hash_with cr e password default_params)"

definition scan_params :: "string \<Rightarrow> (nat \<times> nat \<times> nat) option" where
  "scan_params s =
     Option.bind (scan_lit ''m='' s) (\<lambda>s. Option.bind (scan_uint 32 s) (\<lambda>(m, s).
     Option.bind (scan_lit '',t='' s) (\<lambda>s. Option.bind (scan_uint 32 s) (\<lambda>(t, s).
     Option.bind (scan_lit '',p='' s) (\<lambda>s. Option.bind (scan_uint 8 s) (\<lambda>(p, s). Some (m, t, p)))))))"

definition decode_hash :: "unicode \<Rightarrow> string \<Rightarrow> (hash_params \<times> bytes \<times> bytes) result" where
  "decode_hash u encoded =
     (case split_on CHR ''$'' encoded of
        [f0, f1, f2, f3, f4, f5] \<Rightarrow>
          if f0 \<noteq> [] then Inl (Opaque ''auth: malformed password hash'')
          else if f1 \<noteq> ''argon2id''
          then Inl (Opaque (''auth: password hash algorithm '' @ quote u f1 @ '' is not argon2id''))
          else (case Option.bind (scan_lit ''v='' f2) scan_int of
            None \<Rightarrow> Inl (Opaque ''auth: malformed password hash version'')
          | Some (version, _) \<Rightarrow>
              if version \<noteq> argon2_version
              then Inl (Opaque (''auth: password hash version '' @ format_int version @ '', this build writes ''
                     @ format_int argon2_version))
              else (case scan_params f3 of
                None \<Rightarrow> Inl (Opaque ''auth: malformed password hash parameters'')
              | Some (m, t, p) \<Rightarrow>
                  if m = 0 \<or> t = 0 \<or> p = 0
                  then Inl (Opaque ''auth: password hash parameters are out of range'')
                  else (case b64_decode f4 of
                    None \<Rightarrow> Inl (Opaque ''auth: malformed password hash salt'')
                  | Some salt \<Rightarrow>
                      if salt = [] then Inl (Opaque ''auth: malformed password hash salt'')
                      else (case b64_decode f5 of
                        None \<Rightarrow> Inl (Opaque ''auth: malformed password hash key'')
                      | Some key \<Rightarrow>
                          if key = [] then Inl (Opaque ''auth: malformed password hash key'')
                          else Inr (\<lparr>hp_memory = word_of_nat m, hp_time = word_of_nat t, hp_threads = word_of_nat p,
                                     hp_salt_len = word_of_nat (length salt), hp_key_len = word_of_nat (length key)\<rparr>,
                                    salt, key)))))
      | _ \<Rightarrow> Inl (Opaque ''auth: malformed password hash''))"

definition verify_password :: "crypto \<Rightarrow> unicode \<Rightarrow> string \<Rightarrow> string \<Rightarrow> unit result" where
  "verify_password cr u encoded password =
     bind_r (decode_hash u encoded) (\<lambda>(p, salt, want).
       if argon2id cr (bytes_of password) salt (hp_time p) (hp_memory p) (hp_threads p) (hp_key_len p) = want
       then Inr () else Inl (Sentinel ErrPasswordMismatch))"

section \<open>Reading back what was written\<close>

lemma byte_char_of [simp]: "n < 256 \<Longrightarrow> byte (char_of n) = n"
  by (simp add: of_char_of)

lemma b64_value_char: "v < 64 \<Longrightarrow> b64_value (b64_char v) = Some v"
proof -
  assume "v < 64"
  then consider "v < 26" | "26 \<le> v" "v < 52" | "52 \<le> v" "v < 62" | "v = 62" | "v = 63" by linarith
  then show ?thesis by cases (auto simp: b64_value_def b64_char_def Let_def)
qed

lemma word_unat: "word_of_nat (unat (w :: 'a :: len word)) = w"
  by simp

lemma unat_byte: "unat (b :: 8 word) < 256"
  using unsigned_less [of b] by simp

text \<open>The sextets of a group of bytes, and the bytes back from them.\<close>

lemma quot_rem: "k < m \<Longrightarrow> (q * m + k) div m = q" "k < m \<Longrightarrow> (q * m + k) mod m = k" for m :: nat
  by simp_all

lemma sextets:
  fixes a b c :: "8 word"
  shows "unat a div 4 < 64" "unat a mod 4 * 16 + unat b div 16 < 64" "unat b mod 16 * 4 + unat c div 64 < 64"
    "unat c mod 64 < 64" "unat a mod 4 * 16 < 64" "unat b mod 16 * 4 < 64" "unat b div 16 < 16" "unat c div 64 < 4"
proof -
  have l: "unat a div 4 < 64" "unat b div 16 < 16" "unat c div 64 < 4"
    using unat_byte [of a] unat_byte [of b] unat_byte [of c] by (simp_all add: less_mult_imp_div_less)
  have "unat a mod 4 < 4" "unat b mod 16 < 16" by simp_all
  then show "unat a mod 4 * 16 + unat b div 16 < 64" "unat b mod 16 * 4 + unat c div 64 < 64"
    "unat a mod 4 * 16 < 64" "unat b mod 16 * 4 < 64" using l by linarith+
  show "unat a div 4 < 64" "unat c mod 64 < 64" "unat b div 16 < 16" "unat c div 64 < 4" using l by simp_all
qed

lemma unsextets:
  fixes a b c :: "8 word"
  shows "word_of_nat (unat a div 4 * 4 + (unat a mod 4 * 16 + unat b div 16) div 16) = a"
    "word_of_nat ((unat a mod 4 * 16 + unat b div 16) mod 16 * 16 + (unat b mod 16 * 4 + unat c div 64) div 4) = b"
    "word_of_nat ((unat b mod 16 * 4 + unat c div 64) mod 4 * 64 + unat c mod 64) = c"
    "word_of_nat ((unat a mod 4 * 16 + unat b div 16) mod 16 * 16 + unat b mod 16 * 4 div 4) = b"
    "word_of_nat (unat a div 4 * 4 + unat a mod 4 * 16 div 16) = a"
  by (simp_all only: quot_rem [OF sextets(7)] quot_rem [OF sextets(8)] div_mult_mod_eq word_unat nonzero_mult_div_cancel_right numeral_neq_zero not_False_eq_True
      refl zero_neq_numeral [symmetric])

lemmas b64_value_sextets =
  b64_value_char [OF sextets(1)] b64_value_char [OF sextets(2)] b64_value_char [OF sextets(3)]
  b64_value_char [OF sextets(4)] b64_value_char [OF sextets(5)] b64_value_char [OF sextets(6)]

lemmas decode_simps = b64_encode.simps list.map append.simps comp_apply b64_groups.simps option.sel option.map unsextets
  b64_value_sextets

lemma b64_groups_encode: "b64_groups (map (the \<circ> b64_value) (b64_encode bs)) = Some bs"
proof (induction bs rule: b64_encode.induct)
  case (1 a b c rest)
  then show ?case by (simp only: decode_simps map_append)
qed (simp_all only: decode_simps)

lemma b64_encode_values: "list_all (\<lambda>c. b64_value c \<noteq> None) (b64_encode bs)"
proof (induction bs rule: b64_encode.induct)
  case (1 a b c rest)
  then show ?case by (simp only: decode_simps list.pred_inject option.distinct not_False_eq_True simp_thms)
qed (simp_all only: decode_simps list.pred_inject option.distinct not_False_eq_True simp_thms)

lemma b64_encode_chars:
  assumes "b64_value c = None"
  shows "c \<notin> set (b64_encode bs)"
proof
  assume "c \<in> set (b64_encode bs)"
  with b64_encode_values [of bs] assms show False by (auto simp: list_all_iff)
qed

lemma b64_stray: "b64_value CHR 0x0A = None" "b64_value CHR 0x0D = None" "b64_value CHR ''$'' = None"
  by (simp_all add: b64_value_def)

lemma b64_decode_encode [simp]: "b64_decode (b64_encode bs) = Some bs"
proof -
  have k: "filter (\<lambda>c. c \<noteq> CHR 0x0A \<and> c \<noteq> CHR 0x0D) (b64_encode bs) = b64_encode bs"
    using b64_encode_chars [OF b64_stray(1), of bs] b64_encode_chars [OF b64_stray(2), of bs]
    by (intro filter_True ballI conjI) (metis, metis)
  have "None \<notin> set (map b64_value (b64_encode bs))"
    using b64_encode_values [of bs] unfolding list_all_iff set_map by (metis imageE)
  then show ?thesis using b64_groups_encode [of bs] by (simp add: b64_decode_def k Let_def comp_def)
qed

lemma b64_no_dollar: "CHR ''$'' \<notin> set (b64_encode bs)"
  by (rule b64_encode_chars [OF b64_stray(3)])

lemma b64_encode_nil [simp]: "b64_encode bs = [] \<longleftrightarrow> bs = []"
  by (cases bs rule: b64_encode.cases) simp_all

lemma nat_digits_chars: "list_all is_digit (nat_digits n)"
proof (induction n rule: nat_digits.induct)
  case (1 n)
  have "n < 10 \<Longrightarrow> is_digit (digit_char n)" "is_digit (digit_char (n mod 10))"
    by (simp_all add: is_digit_def of_char_digit)
  with 1 show ?case by (subst nat_digits.simps) simp
qed

lemma scan_digits_nat: "(s = [] \<or> \<not> is_digit (hd s)) \<Longrightarrow> scan_digits (nat_digits n @ s) = Some (n, s)"
proof -
  assume s: "s = [] \<or> \<not> is_digit (hd s)"
  have d: "\<forall>c \<in> set (nat_digits n). is_digit c" using nat_digits_chars [of n] by (simp add: list_all_iff)
  have "takeWhile is_digit (nat_digits n @ s) = nat_digits n" "dropWhile is_digit (nat_digits n @ s) = s"
    using d s by (cases s; simp add: takeWhile_append2 dropWhile_append2)+
  then show ?thesis by (simp add: scan_digits_def)
qed

lemma digit_ascii: "is_digit c \<Longrightarrow> byte c < 0x80"
  by (simp add: is_digit_def)

lemma skip_space_digit: "s \<noteq> [] \<Longrightarrow> is_digit (hd s) \<Longrightarrow> skip_space s = Some s"
proof -
  assume s: "s \<noteq> []" "is_digit (hd s)"
  then obtain c cs where c: "s = c # cs" by (cases s) auto
  have "runes s = (byte c, [c]) # runes cs" using s c digit_ascii [of c] by (simp add: Let_def)
  moreover have "\<not> is_space (byte c)" using s c by (auto simp: is_digit_def is_space_def)
  moreover have "c \<noteq> CHR 0x0A" using s c by (auto simp: is_digit_def)
  ultimately show ?thesis using c text_of_runes [of s] by (simp add: skip_space_def)
qed

lemma hd_nat_digits_digit [simp]: "is_digit (hd (nat_digits n))"
  using nat_digits_chars [of n] nat_digits_nonempty [of n] by (cases "nat_digits n") auto

lemma scan_uint_nat:
  "n < 2 ^ w \<Longrightarrow> (s = [] \<or> \<not> is_digit (hd s)) \<Longrightarrow> scan_uint w (nat_digits n @ s) = Some (n, s)"
  using skip_space_digit [of "nat_digits n @ s"] by (simp add: scan_uint_def scan_digits_nat)

lemma scan_int_nat: "n < 2 ^ 63 \<Longrightarrow> scan_int (nat_digits n) = Some (int n, [])"
  using skip_space_digit [of "nat_digits n"] nat_digits_sign [of n] scan_digits_nat [of "[]" n]
  by (simp add: scan_int_def Let_def)

lemma scan_lit_append [simp]: "scan_lit lit (lit @ s) = Some s"
  by (simp add: scan_lit_def)

lemma split_on_append: "c \<notin> set a \<Longrightarrow> split_on c (a @ c # s) = a # split_on c s"
  by (induction a) auto

lemma split_on_none: "c \<notin> set a \<Longrightarrow> split_on c a = [a]"
  by (induction a) auto

lemma nat_digits_no_dollar: "CHR ''$'' \<notin> set (nat_digits n)"
  using nat_digits_chars [of n] by (auto simp: list_all_iff is_digit_def)

lemma scan_params_written:
  assumes "m < 2 ^ 32" "t < 2 ^ 32" "p < 2 ^ 8"
  shows "scan_params (''m='' @ nat_digits m @ '',t='' @ nat_digits t @ '',p='' @ nat_digits p) = Some (m, t, p)"
proof -
  have c: "\<not> is_digit CHR '',''" by (simp add: is_digit_def)
  have "scan_uint 32 (nat_digits m @ '',t='' @ s) = Some (m, '',t='' @ s)"
    "scan_uint 32 (nat_digits t @ '',p='' @ s) = Some (t, '',p='' @ s)" for s
    using assms c by (simp_all add: scan_uint_nat)
  moreover have "scan_uint 8 (nat_digits p) = Some (p, [])" using scan_uint_nat [OF assms(3), of "[]"] by simp
  ultimately show ?thesis
    by (simp only: scan_params_def scan_lit_append Option.bind.simps prod.case)
qed

text \<open>A hash that was written is read back as it was, whatever the salt and the key.\<close>

lemma decode_encode_hash:
  assumes "hp_memory p \<noteq> 0" "hp_time p \<noteq> 0" "hp_threads p \<noteq> 0" "salt \<noteq> []" "key \<noteq> []"
  shows "decode_hash u (encode_hash p salt key) =
     Inr (p\<lparr>hp_salt_len := word_of_nat (length salt), hp_key_len := word_of_nat (length key)\<rparr>, salt, key)"
proof -
  let ?v = "''v='' @ nat_digits 19" and ?m = "''m='' @ nat_digits (unat (hp_memory p)) @ '',t='' @ nat_digits (unat (hp_time p))
       @ '',p='' @ nat_digits (unat (hp_threads p))"
  have e: "encode_hash p salt key = [] @ CHR ''$'' # (''argon2id'' @ CHR ''$'' # (?v @ CHR ''$'' # (?m @ CHR ''$''
       # (b64_encode salt @ CHR ''$'' # b64_encode key))))"
    by (simp add: encode_hash_def argon2_version_def)
  have nd: "CHR ''$'' \<notin> set ?v" "CHR ''$'' \<notin> set ?m" "CHR ''$'' \<notin> set ''argon2id''"
    using nat_digits_no_dollar by auto
  have s: "split_on CHR ''$'' (encode_hash p salt key) = [[], ''argon2id'', ?v, ?m, b64_encode salt, b64_encode key]"
    unfolding e using split_on_append [OF nd(1)] split_on_append [OF nd(2)] split_on_append [OF nd(3)]
      split_on_append [OF b64_no_dollar] split_on_none [OF b64_no_dollar] split_on_append [of "CHR ''$''" "[]"]
    by (simp del: append_Cons append.append_Cons add: append_Nil)
  have v: "Option.bind (scan_lit ''v='' ?v) scan_int = Some (argon2_version, [])"
    unfolding scan_lit_append using scan_int_nat [of 19] by (simp add: argon2_version_def)
  have "unat (hp_memory p) < 2 ^ 32" "unat (hp_time p) < 2 ^ 32" "unat (hp_threads p) < 2 ^ 8"
    using unsigned_less [of "hp_memory p"] unsigned_less [of "hp_time p"] unsigned_less [of "hp_threads p"] by simp_all
  note m = scan_params_written [OF this]
  have "unat (hp_memory p) \<noteq> 0" "unat (hp_time p) \<noteq> 0" "unat (hp_threads p) \<noteq> 0"
    using assms by (simp_all add: unat_eq_zero)
  then show ?thesis
    unfolding decode_hash_def s using assms(4,5) unfolding list.case v m option.case prod.case by simp
qed

text \<open>Verifying against a fresh hash compares the two keys and nothing else.\<close>

lemma verify_fresh:
  assumes "hash_password cr e password = Inr h" "\<And>salt. rand_read cr e 16 = Inr salt \<Longrightarrow> length salt = 16"
    and "\<And>pw salt. length (argon2id cr pw salt 4 (9 * 1024) 1 32) = 32"
  shows "verify_password cr u h attempt = Inr () \<longleftrightarrow>
     (\<exists>salt. rand_read cr e 16 = Inr salt \<and>
        argon2id cr (bytes_of attempt) salt 4 (9 * 1024) 1 32 = argon2id cr (bytes_of password) salt 4 (9 * 1024) 1 32)"
    and "verify_password cr u h attempt \<noteq> Inr () \<longleftrightarrow> verify_password cr u h attempt = Inl (Sentinel ErrPasswordMismatch)"
proof -
  obtain salt where salt: "rand_read cr e 16 = Inr salt"
      and h: "h = encode_hash default_params salt (argon2id cr (bytes_of password) salt 4 (9 * 1024) 1 32)"
    using assms(1) by (auto simp: hash_password_def hash_with_def result_iff default_params_def)
  let ?key = "argon2id cr (bytes_of password) salt 4 (9 * 1024) 1 32"
  have l: "length salt = 16" "length ?key = 32" using assms(2) [OF salt] assms(3) by simp_all
  then have ne: "salt \<noteq> []" "?key \<noteq> []" by auto
  have "decode_hash u h = Inr (default_params, salt, ?key)"
    unfolding h using decode_encode_hash [of default_params salt ?key u] ne l by (simp add: default_params_def)
  then have v: "verify_password cr u h attempt =
      (if argon2id cr (bytes_of attempt) salt 4 (9 * 1024) 1 32 = ?key then Inr () else Inl (Sentinel ErrPasswordMismatch))"
    by (simp add: verify_password_def default_params_def)
  show "verify_password cr u h attempt = Inr () \<longleftrightarrow>
     (\<exists>salt. rand_read cr e 16 = Inr salt \<and>
        argon2id cr (bytes_of attempt) salt 4 (9 * 1024) 1 32 = argon2id cr (bytes_of password) salt 4 (9 * 1024) 1 32)"
    using salt by (simp add: v)
  show "verify_password cr u h attempt \<noteq> Inr () \<longleftrightarrow> verify_password cr u h attempt = Inl (Sentinel ErrPasswordMismatch)"
    by (simp add: v)
qed

end
