(* ===== verification/Auth_Service.thy ===== *)
theory Auth_Service
  imports Auth_Password
begin

text \<open>
  Accounts (auth/auth.go): the form of an address, registering and authenticating over any
  store of accounts. The store is the interface \<open>auth.Store\<close>, as a record of its operations
  and as the locale \<open>account_store\<close> of what it promises; the service's lemmas are proved from
  the promises alone.

  \<open>net/mail.ParseAddress\<close> is the argument \<open>parse\<close>: the bare address it finds in a string, if
  any. Nothing is assumed of it.
\<close>

section \<open>Data\<close>

record user =
  us_id :: string
  us_email :: string

definition zero_user :: user where "zero_user = \<lparr>us_id = [], us_email = []\<rparr>"

record account =
  ac_user :: user
  ac_hash :: string

record 'st auth_ops =
  ao_create :: "env \<Rightarrow> account \<Rightarrow> 'st \<Rightarrow> user result \<times> 'st"
  ao_by_email :: "env \<Rightarrow> string \<Rightarrow> 'st \<Rightarrow> account result"
  ao_by_id :: "env \<Rightarrow> string \<Rightarrow> 'st \<Rightarrow> user result"

record mail_env =
  me_unicode :: unicode
  me_parse :: "string \<Rightarrow> string option"

definition max_email_length :: nat where "max_email_length = 254"

definition normalize_email :: "mail_env \<Rightarrow> string \<Rightarrow> string result" where
  "normalize_email me email =
     (let u = me_unicode me; bad = Inl (Wrap (''auth: '' @ quote u email) (Sentinel ErrInvalidEmail));
          trimmed = trim_space email in
      if trimmed = [] \<or> max_email_length < length trimmed then bad
      else case me_parse me trimmed of
        None \<Rightarrow> bad
      | Some address \<Rightarrow> if equal_fold u address trimmed then Inr (to_lower u address) else bad)"

section \<open>The service\<close>

definition decoy_password :: string where "decoy_password = ''a password no account has''"

record 'st auth_service =
  as_store :: "'st auth_ops"
  as_mail :: mail_env
  as_crypto :: crypto

definition auth_new_service :: "mail_env \<Rightarrow> crypto \<Rightarrow> 'st auth_ops option \<Rightarrow> 'st auth_service result" where
  "auth_new_service me cr store = (case store of
     None \<Rightarrow> Inl (Opaque ''auth: service: nil store'')
   | Some s \<Rightarrow> Inr \<lparr>as_store = s, as_mail = me, as_crypto = cr\<rparr>)"

definition auth_register :: "'st auth_service \<Rightarrow> env \<Rightarrow> string \<Rightarrow> string \<Rightarrow> 'st \<Rightarrow> user result \<times> 'st" where
  "auth_register a e email password st =
     (case bind_r (normalize_email (as_mail a) email) (\<lambda>address.
             bind_r (check_password_length password) (\<lambda>_.
             bind_r (hash_password (as_crypto a) e password) (\<lambda>hash. Inr (address, hash)))) of
        Inl err \<Rightarrow> (Inl err, st)
      | Inr (address, hash) \<Rightarrow>
         (case ao_create (as_store a) e \<lparr>ac_user = zero_user\<lparr>us_email := address\<rparr>, ac_hash = hash\<rparr> st of
            (Inl err, st') \<Rightarrow> (Inl (Wrap ''auth: register'' err), st')
          | (Inr user, st') \<Rightarrow> (Inr user, st')))"

text \<open>
  The package's \<open>decoyHash\<close> is made by the first call that asks for it (\<open>sync.OnceValue\<close>), kept
  for the life of the process, and panics, then and ever after, if that call could not make it.
  With it goes the work of a call: the parameters of every Argon2id evaluation it runs.
\<close>

datatype decoy = DecoyUnmade | DecoyMade string | DecoyPanicked

definition decoy_hash :: "crypto \<Rightarrow> env \<Rightarrow> decoy \<Rightarrow> (string \<times> hash_params list) option \<times> decoy" where
  "decoy_hash cr e c = (case c of
     DecoyUnmade \<Rightarrow> (case hash_password cr e decoy_password of
         Inl _ \<Rightarrow> (None, DecoyPanicked) | Inr h \<Rightarrow> (Some (h, [default_params]), DecoyMade h))
   | DecoyMade h \<Rightarrow> (Some (h, []), c)
   | DecoyPanicked \<Rightarrow> (None, c))"

definition verify_work :: "unicode \<Rightarrow> string \<Rightarrow> hash_params list" where
  "verify_work u h = (case decode_hash u h of Inl _ \<Rightarrow> [] | Inr (p, _, _) \<Rightarrow> [p])"

text \<open>\<open>_ = VerifyPassword(decoyHash(), password)\<close> and the refusal; \<open>None\<close> is the panic.\<close>

definition refuse_unknown ::
  "'st auth_service \<Rightarrow> decoy \<Rightarrow> env \<Rightarrow> (user result \<times> hash_params list) option \<times> decoy" where
  "refuse_unknown a c e = (case decoy_hash (as_crypto a) e c of
     (None, c') \<Rightarrow> (None, c')
   | (Some (h, made), c') \<Rightarrow>
       (Some (Inl (Sentinel ErrInvalidCredentials), made @ verify_work (me_unicode (as_mail a)) h), c'))"

definition auth_authenticate ::
  "'st auth_service \<Rightarrow> decoy \<Rightarrow> env \<Rightarrow> string \<Rightarrow> string \<Rightarrow> 'st \<Rightarrow> (user result \<times> hash_params list) option \<times> decoy" where
  "auth_authenticate a c e email password st =
     (let u = me_unicode (as_mail a) in
      case normalize_email (as_mail a) email of
        Inl _ \<Rightarrow> refuse_unknown a c e
      | Inr address \<Rightarrow>
         (case ao_by_email (as_store a) e address st of
            Inl err \<Rightarrow>
              if errors_is err ErrUserNotFound then refuse_unknown a c e
              else (Some (Inl (Wrap ''auth: authenticate'' err), []), c)
          | Inr record \<Rightarrow>
             (Some (case verify_password (as_crypto a) u (ac_hash record) password of
                Inl err \<Rightarrow>
                  if errors_is err ErrPasswordMismatch then Inl (Sentinel ErrInvalidCredentials)
                  else Inl (Wrap (''auth: user '' @ us_id (ac_user record)) err)
              | Inr _ \<Rightarrow> Inr (ac_user record), verify_work u (ac_hash record)), c)))"

definition auth_user :: "'st auth_service \<Rightarrow> env \<Rightarrow> string \<Rightarrow> 'st \<Rightarrow> user result" where
  "auth_user a e i st = wrap_r (''auth: user '' @ i) (ao_by_id (as_store a) e i st)"

section \<open>What the store promises\<close>

text \<open>
  \<open>acc\<close> is what is seen of the store: the identifier and the hash under each address. An
  operation works when it is \<open>up\<close>; \<open>room\<close> is the store's room for one more account.
\<close>

locale account_store =
  fixes ops :: "'st auth_ops"
    and up :: "env \<Rightarrow> bool"
    and room :: "'st \<Rightarrow> bool"
    and fits :: "account \<Rightarrow> bool"
    and inv :: "'st \<Rightarrow> bool"
    and acc :: "'st \<Rightarrow> string \<Rightarrow> (string \<times> string) option"
  assumes by_email_found: "inv st \<Longrightarrow> up e \<Longrightarrow> acc st m = Some (i, h) \<Longrightarrow>
        ao_by_email ops e m st = Inr \<lparr>ac_user = \<lparr>us_id = i, us_email = m\<rparr>, ac_hash = h\<rparr>"
    and by_email_sound: "inv st \<Longrightarrow> ao_by_email ops e m st = Inr r \<Longrightarrow>
        us_email (ac_user r) = m \<and> acc st m = Some (us_id (ac_user r), ac_hash r)"
    and by_email_missing: "inv st \<Longrightarrow> up e \<Longrightarrow> acc st m = None \<Longrightarrow>
        \<exists>err. ao_by_email ops e m st = Inl err \<and> errors_is err ErrUserNotFound"
    and by_id_found: "inv st \<Longrightarrow> up e \<Longrightarrow> acc st m = Some (i, h) \<Longrightarrow>
        ao_by_id ops e i st = Inr \<lparr>us_id = i, us_email = m\<rparr>"
    and create_account: "inv st \<Longrightarrow> up e \<Longrightarrow> room st \<Longrightarrow> acc st (us_email (ac_user r)) = None \<Longrightarrow> fits r \<Longrightarrow>
        \<exists>w st'. ao_create ops e r st = (Inr w, st')"
    and create_effect: "inv st \<Longrightarrow> ao_create ops e r st = (Inr w, st') \<Longrightarrow>
        inv st' \<and> us_email w = us_email (ac_user r) \<and> acc st (us_email w) = None
        \<and> acc st' = (acc st)(us_email w \<mapsto> (us_id w, ac_hash r)) \<and> (\<forall>m h. acc st m \<noteq> Some (us_id w, h))"
    and create_taken: "inv st \<Longrightarrow> up e \<Longrightarrow> room st \<Longrightarrow> acc st (us_email (ac_user r)) \<noteq> None \<Longrightarrow> fits r \<Longrightarrow>
        \<exists>err. ao_create ops e r st = (Inl err, st) \<and> errors_is err ErrEmailTaken"
    and create_failed: "ao_create ops e r st = (Inl err, st') \<Longrightarrow> st' = st"

section \<open>What the service does\<close>

text \<open>
  What is documented of the two packages: \<open>rand.Read\<close> fills the slice it is given, and a derived
  key has the length asked for.
\<close>

definition crypto_ok :: "crypto \<Rightarrow> bool" where
  "crypto_ok cr \<longleftrightarrow> (\<forall>e n salt. rand_read cr e n = Inr salt \<longrightarrow> length salt = n)
     \<and> (\<forall>pw salt t m p n. length (argon2id cr pw salt t m p n) = unat n)"

text \<open>The key a password gives with the salt and the costs inside a hash; \<open>None\<close> if it is unreadable.\<close>

definition key_for :: "crypto \<Rightarrow> unicode \<Rightarrow> string \<Rightarrow> string \<Rightarrow> bytes option" where
  "key_for cr u h password = (case decode_hash u h of Inl _ \<Rightarrow> None
     | Inr (p, salt, _) \<Rightarrow> Some (argon2id cr (bytes_of password) salt (hp_time p) (hp_memory p) (hp_threads p) (hp_key_len p)))"

lemma hash_password_read:
  assumes "crypto_ok cr" "hash_password cr e password = Inr h"
  shows "\<exists>salt key. decode_hash u h = Inr (default_params, salt, key) \<and> key_for cr u h password = Some key"
proof -
  obtain salt where salt: "rand_read cr e 16 = Inr salt"
      and h: "h = encode_hash default_params salt (argon2id cr (bytes_of password) salt 4 (9 * 1024) 1 32)"
    using assms(2) by (auto simp: hash_password_def hash_with_def result_iff default_params_def)
  let ?key = "argon2id cr (bytes_of password) salt 4 (9 * 1024) 1 32"
  have l: "length salt = 16" "length ?key = 32" using assms(1) salt by (auto simp: crypto_ok_def)
  then have ne: "salt \<noteq> []" "?key \<noteq> []" by auto
  have d: "decode_hash u h = Inr (default_params, salt, ?key)"
    unfolding h using decode_encode_hash [of default_params salt ?key u] ne l by (simp add: default_params_def)
  then show ?thesis by (simp add: key_for_def default_params_def)
qed

lemma verify_by_key:
  assumes "decode_hash u h = Inr (p, salt, key)"
  shows "verify_password cr u h password =
      (if key_for cr u h password = Some key then Inr () else Inl (Sentinel ErrPasswordMismatch))"
    and "verify_work u h = [p]"
  using assms by (simp_all add: verify_password_def key_for_def verify_work_def)

text \<open>A fresh hash takes a password exactly when it gives the same key.\<close>

lemma verify_fresh_hash:
  assumes "crypto_ok cr" "hash_password cr e password = Inr h"
  shows "verify_password cr u h attempt =
      (if key_for cr u h attempt = key_for cr u h password then Inr () else Inl (Sentinel ErrPasswordMismatch))"
    and "verify_work u h = [default_params]"
proof -
  obtain salt key where k: "decode_hash u h = Inr (default_params, salt, key)" "key_for cr u h password = Some key"
    using hash_password_read [OF assms] by blast
  show "verify_password cr u h attempt =
      (if key_for cr u h attempt = key_for cr u h password then Inr () else Inl (Sentinel ErrPasswordMismatch))"
    "verify_work u h = [default_params]"
    using verify_by_key [OF k(1)] k(2) by simp_all
qed

text \<open>Every stored hash was made with the parameters new hashes are made with.\<close>

definition hashed_here :: "unicode \<Rightarrow> (string \<Rightarrow> (string \<times> string) option) \<Rightarrow> bool" where
  "hashed_here u accounts \<longleftrightarrow>
     (\<forall>m i h. accounts m = Some (i, h) \<longrightarrow> (\<exists>salt key. decode_hash u h = Inr (default_params, salt, key)))"

text \<open>The decoy is not made yet, or is a hash of its password.\<close>

definition decoy_sound :: "crypto \<Rightarrow> decoy \<Rightarrow> bool" where
  "decoy_sound cr c \<longleftrightarrow> (case c of DecoyUnmade \<Rightarrow> True
     | DecoyMade h \<Rightarrow> \<exists>e. hash_password cr e decoy_password = Inr h | DecoyPanicked \<Rightarrow> False)"

lemma refuse_unknown_works:
  assumes "crypto_ok (as_crypto a)" "rand_read (as_crypto a) e 16 = Inr salt" "decoy_sound (as_crypto a) c"
  shows "\<exists>h. refuse_unknown a c e = (Some (Inl (Sentinel ErrInvalidCredentials),
      (if c = DecoyUnmade then [default_params] else []) @ [default_params]), DecoyMade h)
    \<and> (c = DecoyUnmade \<or> c = DecoyMade h) \<and> decoy_sound (as_crypto a) (DecoyMade h)"
proof -
  have "\<exists>h. hash_password (as_crypto a) e decoy_password = Inr h"
    using assms(2) by (simp add: hash_password_def hash_with_def check_password_length_def min_password_length_def
        max_password_length_def decoy_password_def default_params_def)
  then obtain h where h: "hash_password (as_crypto a) e decoy_password = Inr h" by blast
  show ?thesis
  proof (cases c)
    case DecoyUnmade
    then show ?thesis using h verify_fresh_hash(2) [OF assms(1) h]
      by (auto simp: refuse_unknown_def decoy_hash_def decoy_sound_def)
  next
    case (DecoyMade h')
    then obtain e0 where "hash_password (as_crypto a) e0 decoy_password = Inr h'" using assms(3) by (auto simp: decoy_sound_def)
    with DecoyMade verify_fresh_hash(2) [OF assms(1) this] show ?thesis
      by (auto simp: refuse_unknown_def decoy_hash_def decoy_sound_def)
  qed (use assms(3) in \<open>simp add: decoy_sound_def\<close>)
qed

context account_store begin

lemma register_Inr:
  assumes "auth_register a e email password st = (Inr w, st')" "as_store a = ops" "inv st"
  obtains m h where "normalize_email (as_mail a) email = Inr m" "hash_password (as_crypto a) e password = Inr h"
    "us_email w = m" "inv st'" "acc st m = None" "acc st' = (acc st)(m \<mapsto> (us_id w, h))"
proof -
  obtain m h where m: "normalize_email (as_mail a) email = Inr m" "hash_password (as_crypto a) e password = Inr h"
      "ao_create ops e \<lparr>ac_user = zero_user\<lparr>us_email := m\<rparr>, ac_hash = h\<rparr> st = (Inr w, st')"
    using assms(1,2) by (auto simp: auth_register_def result_iff split: sum.splits prod.splits)
  with create_effect [OF assms(3) m(3)] that show thesis by auto
qed

lemma register_fail:
  assumes "auth_register a e email password st = (Inl err, st')" "as_store a = ops"
  shows "st' = st"
  using assms create_failed by (auto simp: auth_register_def split: sum.splits prod.splits)

text \<open>Registering succeeds for a free address, and the password then logs in as the new user.\<close>

lemma register_ok:
  assumes "as_store a = ops" "inv st" "up e" "room st" "normalize_email (as_mail a) email = Inr m" "acc st m = None"
    and "hash_password (as_crypto a) e password = Inr h"
    and "fits \<lparr>ac_user = zero_user\<lparr>us_email := m\<rparr>, ac_hash = h\<rparr>"
  shows "\<exists>w st'. auth_register a e email password st = (Inr w, st') \<and> us_email w = m
    \<and> acc st' = (acc st)(m \<mapsto> (us_id w, h)) \<and> inv st'"
proof -
  let ?r = "\<lparr>ac_user = zero_user\<lparr>us_email := m\<rparr>, ac_hash = h\<rparr>"
  obtain w st' where c: "ao_create ops e ?r st = (Inr w, st')"
    using create_account [OF assms(2-4) _ assms(8)] assms(6) by auto
  have "check_password_length password = Inr ()"
    using assms(7) by (auto simp: hash_password_def result_iff)
  then have "auth_register a e email password st = (Inr w, st')"
    using assms(1,5,7) c by (simp add: auth_register_def)
  with create_effect [OF assms(2) c] show ?thesis by auto
qed

lemma register_taken:
  assumes "as_store a = ops" "inv st" "up e" "room st" "normalize_email (as_mail a) email = Inr m" "acc st m \<noteq> None"
    and "hash_password (as_crypto a) e password = Inr h"
    and "fits \<lparr>ac_user = zero_user\<lparr>us_email := m\<rparr>, ac_hash = h\<rparr>"
  shows "\<exists>err. auth_register a e email password st = (Inl err, st) \<and> errors_is err ErrEmailTaken"
proof -
  let ?r = "\<lparr>ac_user = zero_user\<lparr>us_email := m\<rparr>, ac_hash = h\<rparr>"
  obtain err where c: "ao_create ops e ?r st = (Inl err, st)" "errors_is err ErrEmailTaken"
    using create_taken [OF assms(2-4) _ assms(8)] assms(6) by auto
  have "check_password_length password = Inr ()"
    using assms(7) by (auto simp: hash_password_def result_iff)
  then show ?thesis using assms(1,5,7) c by (simp add: auth_register_def)
qed

lemma login_found:
  assumes "as_store a = ops" "inv st" "up e" "normalize_email (as_mail a) email = Inr m" "acc st m = Some (i, h)"
    and "decode_hash (me_unicode (as_mail a)) h = Inr (p, salt, key)"
  shows "auth_authenticate a c e email password st =
     (Some (if key_for (as_crypto a) (me_unicode (as_mail a)) h password = Some key
      then Inr \<lparr>us_id = i, us_email = m\<rparr> else Inl (Sentinel ErrInvalidCredentials), [p]), c)"
  using assms(1,4) by_email_found [OF assms(2,3,5)] verify_by_key [OF assms(6)]
  by (simp add: auth_authenticate_def Let_def)

lemma login_unknown:
  assumes "as_store a = ops" "inv st" "up e"
    and "\<And>m. normalize_email (as_mail a) email = Inr m \<Longrightarrow> acc st m = None"
  shows "auth_authenticate a c e email password st = refuse_unknown a c e"
proof (cases "normalize_email (as_mail a) email")
  case (Inl err)
  then show ?thesis by (simp add: auth_authenticate_def Let_def)
next
  case (Inr m)
  obtain err where "ao_by_email ops e m st = Inl err" "errors_is err ErrUserNotFound"
    using by_email_missing [OF assms(2,3) assms(4) [OF Inr]] by blast
  then show ?thesis using Inr assms(1) by (simp add: auth_authenticate_def Let_def)
qed

text \<open>
  Every refusal answers the same and does the same work, one evaluation with the parameters of
  every hash, but for the one call that makes the decoy.
\<close>

lemma logins_alike:
  assumes "as_store a = ops" "inv st" "up e" "crypto_ok (as_crypto a)" "rand_read (as_crypto a) e 16 = Inr salt"
    and "decoy_sound (as_crypto a) c" "hashed_here (me_unicode (as_mail a)) (acc st)"
  shows "\<exists>r work c'. auth_authenticate a c e email password st = (Some (r, work), c') \<and> decoy_sound (as_crypto a) c'
    \<and> (c' = c \<and> work = [default_params]
       \<or> c = DecoyUnmade \<and> (\<exists>h. c' = DecoyMade h) \<and> work = [default_params, default_params] \<and> isl r)
    \<and> (\<forall>err. r = Inl err \<longrightarrow> err = Sentinel ErrInvalidCredentials)"
proof (cases "\<exists>m i h. normalize_email (as_mail a) email = Inr m \<and> acc st m = Some (i, h)")
  case True
  then obtain m i h where m: "normalize_email (as_mail a) email = Inr m" "acc st m = Some (i, h)" by blast
  then obtain salt key where "decode_hash (me_unicode (as_mail a)) h = Inr (default_params, salt, key)"
    using assms(7) unfolding hashed_here_def by blast
  from login_found [OF assms(1-3) m this, where c = c and password = password] assms(6) show ?thesis by auto
next
  case False
  then have "\<And>m. normalize_email (as_mail a) email = Inr m \<Longrightarrow> acc st m = None" by (metis not_None_eq surj_pair)
  from login_unknown [OF assms(1-3) this, where c = c and password = password] refuse_unknown_works [OF assms(4-6)]
  show ?thesis by (cases "c = DecoyUnmade") auto
qed

text \<open>A login that succeeds was for an account with that address, and gave that account's key.\<close>

lemma login_sound:
  assumes "as_store a = ops" "inv st" "auth_authenticate a c e email password st = (Some (Inr w, work), c')"
  shows "\<exists>m h p salt key. normalize_email (as_mail a) email = Inr m \<and> us_email w = m \<and> acc st m = Some (us_id w, h)
    \<and> decode_hash (me_unicode (as_mail a)) h = Inr (p, salt, key)
    \<and> key_for (as_crypto a) (me_unicode (as_mail a)) h password = Some key"
proof -
  obtain m r where m: "normalize_email (as_mail a) email = Inr m" "ao_by_email ops e m st = Inr r" "w = ac_user r"
      "verify_password (as_crypto a) (me_unicode (as_mail a)) (ac_hash r) password = Inr ()"
    using assms(1,3) by (auto simp: auth_authenticate_def refuse_unknown_def Let_def
        split: sum.splits if_splits option.splits prod.splits)
  obtain p salt key where d: "decode_hash (me_unicode (as_mail a)) (ac_hash r) = Inr (p, salt, key)"
    using m(4) by (auto simp: verify_password_def result_iff)
  then have "key_for (as_crypto a) (me_unicode (as_mail a)) (ac_hash r) password = Some key"
    using m(4) verify_by_key(1) [OF d] by (simp split: if_splits)
  with by_email_sound [OF assms(2) m(2)] m d show ?thesis by blast
qed

lemma register_hashes:
  assumes "auth_register a e email password st = (Inr w, st')" "as_store a = ops" "inv st"
    and "crypto_ok (as_crypto a)" "hashed_here u (acc st)"
  shows "hashed_here u (acc st')"
proof -
  obtain m h where h: "hash_password (as_crypto a) e password = Inr h" "acc st' = (acc st)(m \<mapsto> (us_id w, h))"
    using register_Inr [OF assms(1-3)] by metis
  from hash_password_read [OF assms(4) h(1), where u = u] assms(5) h(2) show ?thesis by (auto simp: hashed_here_def)
qed

end

end
