(* ===== verification/Float_Round.thy ===== *)
theory Float_Round
  imports Zorkd_Prelude Complex_Main "HOL-Library.Log_Nat"
begin

text \<open>
  Go's \<open>float64\<close> as the rate limiter uses it: a value is a rational number and every operation
  rounds its exact result to 53 significant bits, to nearest and to even on a tie. The values
  here are far from the limits of the exponent, so overflow and subnormals do not arise.
\<close>

section \<open>Rounding\<close>

text \<open>The exponent of a positive number: \<open>2 powi e \<le> x < 2 powi (e + 1)\<close>.\<close>

definition binade :: "rat \<Rightarrow> int" where
  "binade x = (if 1 \<le> x then int (floorlog 2 (nat \<lfloor>x\<rfloor>)) - 1 else - int (floorlog 2 (nat (\<lceil>1 / x\<rceil> - 1))))"

text \<open>To the nearest integer, to the even one on a tie.\<close>

definition round_even :: "rat \<Rightarrow> int" where
  "round_even x = (let f = x - of_int \<lfloor>x\<rfloor> in
     if f < 1 / 2 then \<lfloor>x\<rfloor> else if 1 / 2 < f then \<lfloor>x\<rfloor> + 1 else if even \<lfloor>x\<rfloor> then \<lfloor>x\<rfloor> else \<lfloor>x\<rfloor> + 1)"

definition fl_pos :: "rat \<Rightarrow> rat" where
  "fl_pos x = (let ulp = 2 powi (binade x - 52) in of_int (round_even (x / ulp)) * ulp)"

definition fl :: "rat \<Rightarrow> rat" where
  "fl x = (if x = 0 then 0 else if x < 0 then - fl_pos (- x) else fl_pos x)"

text \<open>\<open>int64(x)\<close> and \<open>time.Duration(x)\<close>: the fraction is dropped.\<close>

definition trunc :: "rat \<Rightarrow> int" where
  "trunc x = (if x < 0 then - \<lfloor>- x\<rfloor> else \<lfloor>x\<rfloor>)"

text \<open>64-bit integer arithmetic wraps.\<close>

definition int64 :: "int \<Rightarrow> int" where
  "int64 i = sint (word_of_int i :: 64 word)"

lemma int64_small: "- (2 ^ 63) \<le> i \<Longrightarrow> i < 2 ^ 63 \<Longrightarrow> int64 i = i"
  by (simp add: int64_def sint_uint signed_take_bit_take_bit uint_word_of_int_eq signed_take_bit_int_eq_self)

section \<open>What the limiter needs of it\<close>

lemma floorlog_bound: "0 < n \<Longrightarrow> 2 ^ (floorlog 2 n - 1) \<le> n \<and> n < 2 ^ floorlog 2 n \<and> 0 < floorlog 2 n"
  using floorlog_bounds [of n 2] by (auto simp: floorlog_eq_zero_iff intro: gr0I)

lemma binade_bounds:
  assumes "0 < x"
  shows "2 powi (binade x) \<le> x \<and> x < 2 powi (binade x + 1)"
proof (cases "1 \<le> x")
  case True
  define n where "n = nat \<lfloor>x\<rfloor>"
  define L where "L = floorlog 2 n"
  have fl: "1 \<le> \<lfloor>x\<rfloor>" using True by simp
  then have "0 < n" by (simp add: n_def)
  from floorlog_bound [OF this] have b: "2 ^ (L - 1) \<le> n" "n + 1 \<le> 2 ^ L" "0 < L" by (simp_all add: L_def)
  have n: "(of_nat n :: rat) = of_int \<lfloor>x\<rfloor>" using fl by (simp add: n_def)
  have e: "binade x = int (L - 1)" using True b(3) by (simp add: binade_def n_def L_def of_nat_diff)
  have "(2 :: rat) ^ (L - 1) \<le> of_nat n" using b(1) by (metis of_nat_le_iff of_nat_numeral of_nat_power)
  then have lo: "(2 :: rat) ^ (L - 1) \<le> x" using n of_int_floor_le [of x] by linarith
  have "of_nat (n + 1) \<le> (2 :: rat) ^ L" using b(2) by (metis of_nat_le_iff of_nat_numeral of_nat_power)
  then have hi: "x < 2 ^ L" using n floor_correct [of x] by linarith
  have "binade x + 1 = int L" using e b(3) by (simp add: of_nat_diff)
  then have "(2 :: rat) powi (binade x + 1) = 2 ^ L" by (metis power_int_of_nat)
  moreover have "(2 :: rat) powi (binade x) = 2 ^ (L - 1)" unfolding e by (rule power_int_of_nat)
  ultimately show ?thesis using lo hi by simp
next
  case False
  define y where "y = 1 / x"
  have y: "1 < y" "0 < y" using False assms by (simp_all add: y_def)
  define n where "n = nat (\<lceil>y\<rceil> - 1)"
  define L where "L = floorlog 2 n"
  have cl: "1 \<le> \<lceil>y\<rceil> - 1" using y by linarith
  then have "0 < n" by (simp add: n_def)
  from floorlog_bound [OF this] have b: "2 ^ (L - 1) \<le> n" "n + 1 \<le> 2 ^ L" "0 < L" by (simp_all add: L_def)
  have n: "(of_nat n :: rat) = of_int \<lceil>y\<rceil> - 1" using cl by (simp add: n_def)
  have e: "binade x = - int L" using False by (simp add: binade_def n_def L_def y_def)
  have "(2 :: rat) ^ (L - 1) \<le> of_nat n" using b(1) by (metis of_nat_le_iff of_nat_numeral of_nat_power)
  then have lo: "(2 :: rat) ^ (L - 1) < y" using n ceiling_correct [of y] by linarith
  have "of_nat (n + 1) \<le> (2 :: rat) ^ L" using b(2) by (metis of_nat_le_iff of_nat_numeral of_nat_power)
  then have hi: "y \<le> 2 ^ L" using n le_of_int_ceiling [of y] by linarith
  have x: "x = 1 / y" by (simp add: y_def)
  have "1 / 2 ^ L \<le> x" unfolding x using hi y by (simp add: frac_le)
  moreover have "x < 1 / 2 ^ (L - 1)" unfolding x using lo y by (simp add: frac_less2)
  moreover have "2 powi (binade x) = (1 / 2 ^ L :: rat)" by (simp add: e power_int_minus divide_inverse)
  moreover have "2 powi (binade x + 1) = (1 / 2 ^ (L - 1) :: rat)"
  proof -
    have "binade x + 1 = - int (L - 1)" using e b(3) by (simp add: of_nat_diff)
    then show ?thesis by (simp add: power_int_minus divide_inverse)
  qed
  ultimately show ?thesis by simp
qed

lemma round_even_near: "\<bar>of_int (round_even x) - x\<bar> \<le> 1 / 2"
proof -
  have "of_int \<lfloor>x\<rfloor> \<le> x" "x < of_int \<lfloor>x\<rfloor> + 1" using floor_correct [of x] by auto
  then show ?thesis by (auto simp: round_even_def Let_def abs_le_iff)
qed

lemma round_even_of_int [simp]: "round_even (of_int n) = n"
  by (simp add: round_even_def)

lemma round_even_floor: "\<lfloor>x\<rfloor> \<le> round_even x \<and> round_even x \<le> \<lfloor>x\<rfloor> + 1"
  by (simp add: round_even_def Let_def)

lemma round_even_mono: "x \<le> y \<Longrightarrow> round_even x \<le> round_even y"
proof (cases "\<lfloor>x\<rfloor> = \<lfloor>y\<rfloor>")
  case True
  assume "x \<le> y"
  with True show ?thesis by (auto simp: round_even_def Let_def)
next
  case False
  assume "x \<le> y"
  with False have "\<lfloor>x\<rfloor> + 1 \<le> \<lfloor>y\<rfloor>" using floor_mono [of x y] by linarith
  then show ?thesis using round_even_floor [of x] round_even_floor [of y] by linarith
qed

lemma two_powi_mono: "i \<le> j \<Longrightarrow> (2 :: rat) powi i \<le> 2 powi j"
  by (rule power_int_increasing) simp_all

lemma two_powi_pos [simp]: "(0 :: rat) < 2 powi i"
  by simp

lemma two_powi_add: "(2 :: rat) powi (i + j) = 2 powi i * 2 powi j"
  by (simp add: power_int_add)

lemma two_powi_52: "(2 :: rat) powi (e - 52) * 4503599627370496 = 2 powi e"
proof -
  have "(2 :: rat) powi 52 = 4503599627370496" by simp
  then show ?thesis by (metis diff_add_cancel two_powi_add)
qed

text \<open>A positive number rounds within its binade.\<close>

lemma fl_pos_binade:
  assumes "0 < x"
  shows "2 powi (binade x) \<le> fl_pos x \<and> fl_pos x \<le> 2 powi (binade x + 1)"
proof -
  let ?u = "2 powi (binade x - 52) :: rat"
  have u: "?u * 4503599627370496 = 2 powi (binade x)" by (rule two_powi_52)
  have p: "(2 :: rat) powi (binade x + 1) = 2 * 2 powi (binade x)" by (simp add: two_powi_add)
  from binade_bounds [OF assms] u p have b: "4503599627370496 * ?u \<le> x" "x \<le> 9007199254740992 * ?u"
    by (simp_all add: mult.commute)
  have "of_int 4503599627370496 \<le> x / ?u" using b(1) by (simp add: pos_le_divide_eq)
  from round_even_mono [OF this] have lo: "4503599627370496 \<le> round_even (x / ?u)"
    by (simp only: round_even_of_int)
  have "x / ?u \<le> of_int 9007199254740992" using b(2) by (simp add: pos_divide_le_eq)
  from round_even_mono [OF this] have hi: "round_even (x / ?u) \<le> 9007199254740992"
    by (simp only: round_even_of_int)
  from lo have lo': "(4503599627370496 :: rat) \<le> of_int (round_even (x / ?u))" by linarith
  from hi have hi': "of_int (round_even (x / ?u)) \<le> (9007199254740992 :: rat)" by linarith
  have "4503599627370496 * ?u \<le> fl_pos x" "fl_pos x \<le> 9007199254740992 * ?u"
    unfolding fl_pos_def Let_def using lo' hi' by (intro mult_right_mono; simp)+
  with u p show ?thesis by (simp add: mult.commute)
qed

lemma binade_mono: "0 < x \<Longrightarrow> x \<le> y \<Longrightarrow> binade x \<le> binade y"
proof (rule ccontr)
  assume x: "0 < x" "x \<le> y" and "\<not> binade x \<le> binade y"
  then have "binade y + 1 \<le> binade x" by simp
  from two_powi_mono [OF this] have "(2 :: rat) powi (binade y + 1) \<le> 2 powi (binade x)" .
  then show False using binade_bounds [OF x(1)] binade_bounds [of y] x by linarith
qed

lemma fl_pos_mono:
  assumes "0 < x" "x \<le> y"
  shows "fl_pos x \<le> fl_pos y"
proof (cases "binade x = binade y")
  case True
  let ?u = "2 powi (binade y - 52) :: rat"
  have "x / ?u \<le> y / ?u" using assms(2) by (simp add: divide_right_mono)
  then have "round_even (x / ?u) \<le> round_even (y / ?u)" by (rule round_even_mono)
  then have "(of_int (round_even (x / ?u)) :: rat) \<le> of_int (round_even (y / ?u))" by simp
  then show ?thesis unfolding fl_pos_def Let_def True by (intro mult_right_mono) simp_all
next
  case False
  then have "binade x + 1 \<le> binade y" using binade_mono [OF assms] by simp
  from two_powi_mono [OF this] show ?thesis
    using fl_pos_binade [OF assms(1)] fl_pos_binade [of y] assms by linarith
qed

lemma fl_pos_nonneg: "0 < x \<Longrightarrow> 0 < fl_pos x"
  using fl_pos_binade [of x] two_powi_pos [of "binade x"] by linarith

lemma fl_nonneg: "0 \<le> x \<Longrightarrow> 0 \<le> fl x"
  using fl_pos_nonneg [of x] by (auto simp: fl_def)

lemma fl_mono: "0 \<le> x \<Longrightarrow> x \<le> y \<Longrightarrow> fl x \<le> fl y"
  using fl_pos_mono [of x y] fl_pos_nonneg [of y] by (auto simp: fl_def)

text \<open>The error of one rounding, relative to the exact value.\<close>

definition unit_round :: rat where "unit_round = 1 / 2 ^ 53"

lemma fl_upper:
  assumes "0 \<le> x"
  shows "fl x \<le> x * (1 + unit_round)"
proof (cases "x = 0")
  case False
  then have x: "0 < x" using assms by simp
  let ?u = "2 powi (binade x - 52) :: rat"
  have "of_int (round_even (x / ?u)) \<le> x / ?u + 1 / 2" using round_even_near [of "x / ?u"] by linarith
  then have "fl_pos x \<le> (x / ?u + 1 / 2) * ?u" unfolding fl_pos_def Let_def by (intro mult_right_mono) simp_all
  also have "\<dots> = x + ?u / 2" by (simp add: field_simps)
  also have "?u / 2 \<le> x * unit_round"
    using binade_bounds [OF x] two_powi_52 [of "binade x"] by (simp add: unit_round_def)
  finally show ?thesis using x by (simp add: fl_def field_simps)
qed (simp add: fl_def)

text \<open>Integers up to \<open>2 ^ 53\<close> are exact.\<close>

lemma fl_of_int:
  assumes "0 \<le> n" "n \<le> 2 ^ 53"
  shows "fl (of_int n) = of_int n"
proof (cases "n = 0")
  case False
  then have n: "0 < (of_int n :: rat)" using assms by simp
  let ?x = "of_int n :: rat"
  let ?k = "binade ?x - 52"
  show ?thesis
  proof (cases "?k \<le> 0")
    case True
    have "(2 :: rat) powi ?k * 2 powi (- ?k) = 1" by (simp add: two_powi_add [symmetric])
    then have "?x / 2 powi ?k = ?x * (2 powi ?k * 2 powi (- ?k)) / 2 powi ?k" by simp
    also have "\<dots> = ?x * 2 powi (- ?k)" by (simp add: field_simps)
    finally have "?x / 2 powi ?k = ?x * 2 powi (- ?k)" .
    also have "\<dots> = of_int (n * 2 ^ nat (- ?k))" using True by (simp add: power_int_def)
    finally have "fl_pos ?x = of_int (n * 2 ^ nat (- ?k)) * 2 powi ?k"
      unfolding fl_pos_def Let_def by (simp only: round_even_of_int)
    also have "\<dots> = ?x * (2 powi (- ?k) * 2 powi ?k)" using True by (simp add: power_int_def)
    also have "\<dots> = ?x" by (simp add: two_powi_add [symmetric])
    finally show ?thesis using n by (simp add: fl_def)
  next
    case False
    then have k: "53 \<le> binade ?x" by simp
    from two_powi_mono [OF this] have "(2 :: rat) powi 53 \<le> ?x" using binade_bounds [OF n] by linarith
    then have "(2 :: rat) ^ 53 \<le> of_int n" by simp
    then have "2 ^ 53 \<le> n" by (metis of_int_le_iff of_int_numeral of_int_power)
    with assms(2) have eq: "n = 2 ^ 53" by simp
    have "(2 :: rat) powi 54 \<le> 2 powi (binade ?x) \<Longrightarrow> False"
      using binade_bounds [OF n] by (simp add: eq)
    then have "binade ?x = 53" using k two_powi_mono [of 54 "binade ?x"] by force
    then have "fl_pos ?x = of_int (round_even (of_int (2 ^ 52))) * 2"
      unfolding fl_pos_def Let_def by (simp add: eq)
    then have "fl_pos ?x = ?x" by (simp only: round_even_of_int) (simp add: eq)
    then show ?thesis using n by (simp add: fl_def)
  qed
qed (simp add: fl_def)

lemma fl_le_int: "0 \<le> x \<Longrightarrow> x \<le> of_int n \<Longrightarrow> 0 \<le> n \<Longrightarrow> n \<le> 2 ^ 53 \<Longrightarrow> fl x \<le> of_int n"
  using fl_mono [of x "of_int n"] fl_of_int [of n] by simp

end
