(* ===== verification/Rate_Limit.thy ===== *)
theory Rate_Limit
  imports Float_Round "HOL-Library.While_Combinator"
begin

text \<open>
  The rate limiter of the two unauthenticated routes (httpserver/ratelimit.go): a token bucket
  per key, in a map that is swept on the way past and never exceeds its cap.

  The map is an association list; a \<open>range\<close> over it visits its entries in any order, so the
  \<open>k\<close>-th loop of a call sees the permutation \<open>visit k\<close> of them. A call runs with the limiter's
  mutex held. Its clock is read before the mutex is taken, so the times of successive calls need
  not be in order.
\<close>

section \<open>The limiter\<close>

record bucket =
  bk_tokens :: rat
  bk_seen :: time

record limiter =
  lm_burst :: rat
  lm_refill :: duration
  lm_max :: int
  lm_buckets :: "(string \<times> bucket) list"
  lm_swept :: time

type_synonym visit = "nat \<Rightarrow> (string \<times> bucket) list \<Rightarrow> (string \<times> bucket) list"

text \<open>\<open>t.Sub(u)\<close> saturates.\<close>

definition time_sub :: "time \<Rightarrow> time \<Rightarrow> duration" where
  "time_sub t u = max (- (2 ^ 63)) (min (2 ^ 63 - 1) (t - u))"

definition new_limiter :: "int \<Rightarrow> duration \<Rightarrow> int \<Rightarrow> limiter" where
  "new_limiter burst refill mx =
     \<lparr>lm_burst = fl (of_int burst), lm_refill = refill, lm_max = (if mx < 1 then 1 else mx),
      lm_buckets = [], lm_swept = 0\<rparr>"

definition refilled :: "limiter \<Rightarrow> bucket \<Rightarrow> time \<Rightarrow> rat" where
  "refilled l b t =
     (let elapsed = time_sub t (bk_seen b) in
      if elapsed \<le> 0 then bk_tokens b
      else min (lm_burst l) (fl (bk_tokens b + fl (fl (of_int elapsed) / fl (of_int (lm_refill l))))))"

text \<open>One turn of the eviction loop: the fullest bucket seen, or \<open>''''\<close> when none beats -1.\<close>

definition fullest :: "limiter \<Rightarrow> time \<Rightarrow> (string \<times> bucket) list \<Rightarrow> string" where
  "fullest l t m = fst (fold (\<lambda>(k, b) (best, most).
     let tokens = refilled l b t in if most < tokens then (k, tokens) else (best, most)) m ([], -1))"

definition evict_step :: "visit \<Rightarrow> limiter \<Rightarrow> time \<Rightarrow> nat \<times> (string \<times> bucket) list \<Rightarrow> nat \<times> (string \<times> bucket) list" where
  "evict_step visit l t s = (Suc (fst s), AList.delete (fullest l t (visit (fst s) (snd s))) (snd s))"

text \<open>\<open>None\<close>: the loop deleted nothing and would go on for ever.\<close>

definition prune :: "visit \<Rightarrow> time \<Rightarrow> limiter \<Rightarrow> limiter option" where
  "prune visit t l =
     (if int (length (lm_buckets l)) < lm_max l
         \<and> time_sub t (lm_swept l) < int64 (trunc (lm_burst l) * lm_refill l)
      then Some l
      else
        let kept = filter (\<lambda>p. \<not> lm_burst l \<le> refilled l (snd p) t) (lm_buckets l) in
        map_option (\<lambda>s. l\<lparr>lm_swept := t, lm_buckets := snd s\<rparr>)
          (while_option (\<lambda>s. lm_max l \<le> int (length (snd s))) (evict_step visit l t) (0, kept)))"

text \<open>\<open>allow\<close>: how long to wait, and whether the attempt may run.\<close>

definition spend :: "string \<Rightarrow> time \<Rightarrow> rat \<Rightarrow> limiter \<Rightarrow> (duration \<times> bool) \<times> limiter" where
  "spend key t tokens l =
     (if tokens < 1
      then ((trunc (fl (fl (1 - tokens) * fl (of_int (lm_refill l)))), False),
            l\<lparr>lm_buckets := AList.update key \<lparr>bk_tokens = tokens, bk_seen = t\<rparr> (lm_buckets l)\<rparr>)
      else ((0, True),
            l\<lparr>lm_buckets := AList.update key \<lparr>bk_tokens = fl (tokens - 1), bk_seen = t\<rparr> (lm_buckets l)\<rparr>))"

definition allow :: "visit \<Rightarrow> time \<Rightarrow> string \<Rightarrow> limiter \<Rightarrow> ((duration \<times> bool) \<times> limiter) option" where
  "allow visit t key l =
     (case map_of (lm_buckets l) key of
        Some b \<Rightarrow> Some (spend key t (refilled l b t) l)
      | None \<Rightarrow> map_option (\<lambda>l'. spend key t (lm_burst l') l') (prune visit t l))"

text \<open>A run of calls, with the answer of each.\<close>

fun allow_all :: "visit \<Rightarrow> (time \<times> string) list \<Rightarrow> limiter \<Rightarrow> (bool list \<times> limiter) option" where
  "allow_all visit [] l = Some ([], l)"
| "allow_all visit ((t, key) # qs) l =
     (case allow visit t key l of
        None \<Rightarrow> None
      | Some ((_, ok), l') \<Rightarrow> map_option (\<lambda>(oks, l''). (ok # oks, l'')) (allow_all visit qs l'))"

section \<open>The two ends of an attempt\<close>

text \<open>
  \<open>attemptLimit.allow\<close>: the source first; a refused source does not spend the address's budget.
  \<open>source\<close> and \<open>email\<close> are the two keys the request falls in.
\<close>

record attempt_limit =
  al_source :: limiter
  al_email :: limiter

definition attempt_allow ::
  "visit \<Rightarrow> time \<Rightarrow> time \<Rightarrow> string \<Rightarrow> string \<Rightarrow> attempt_limit \<Rightarrow> ((duration \<times> bool) \<times> attempt_limit) option" where
  "attempt_allow visit t t' source email a =
     (case allow visit t source (al_source a) of
        None \<Rightarrow> None
      | Some ((retry, ok), s) \<Rightarrow>
          if \<not> ok then Some ((retry, False), a\<lparr>al_source := s\<rparr>)
          else map_option (\<lambda>(r, m). (r, a\<lparr>al_source := s, al_email := m\<rparr>)) (allow visit t' email (al_email a)))"

definition max_tracked_keys :: int where "max_tracked_keys = 8192"

definition login_limit :: attempt_limit where
  "login_limit = \<lparr>al_source = new_limiter 5 (30 * second) max_tracked_keys,
     al_email = new_limiter 5 minute max_tracked_keys\<rparr>"

definition register_limit :: attempt_limit where
  "register_limit = \<lparr>al_source = new_limiter 5 (10 * minute) max_tracked_keys,
     al_email = new_limiter 3 (10 * minute) max_tracked_keys\<rparr>"

section \<open>The invariant, and why the loop ends\<close>

definition bucket_ok :: "limiter \<Rightarrow> bucket \<Rightarrow> bool" where
  "bucket_ok l b \<longleftrightarrow> 0 \<le> bk_tokens b \<and> bk_tokens b \<le> lm_burst l"

definition settings_ok :: "limiter \<Rightarrow> bool" where
  "settings_ok l \<longleftrightarrow> (\<exists>n. lm_burst l = of_int n \<and> 1 \<le> n \<and> n \<le> 2 ^ 53)
     \<and> 0 < lm_refill l \<and> lm_refill l \<le> 2 ^ 53 \<and> 1 \<le> lm_max l"

definition limiter_inv :: "limiter \<Rightarrow> bool" where
  "limiter_inv l \<longleftrightarrow> settings_ok l \<and> distinct (keys (lm_buckets l))
     \<and> (\<forall>p \<in> set (lm_buckets l). bucket_ok l (snd p)) \<and> int (length (lm_buckets l)) \<le> lm_max l"

definition fair_visit :: "visit \<Rightarrow> bool" where
  "fair_visit visit \<longleftrightarrow> (\<forall>k m. set (visit k m) = set m)"

lemma new_limiter_inv:
  "1 \<le> burst \<Longrightarrow> burst \<le> 2 ^ 53 \<Longrightarrow> 0 < refill \<Longrightarrow> refill \<le> 2 ^ 53 \<Longrightarrow> limiter_inv (new_limiter burst refill mx)"
  by (auto simp: limiter_inv_def settings_ok_def new_limiter_def fl_of_int)

text \<open>Refilling reads only the settings.\<close>

lemma refilled_cong:
  "lm_burst l = lm_burst m \<Longrightarrow> lm_refill l = lm_refill m \<Longrightarrow> refilled l = refilled m"
  by (simp add: refilled_def fun_eq_iff Let_def)

lemma refilled_bounds:
  assumes "settings_ok l" "bucket_ok l b"
  shows "0 \<le> refilled l b t \<and> refilled l b t \<le> lm_burst l"
proof -
  have f: "0 < fl (of_int (lm_refill l))" "0 < lm_burst l" "0 \<le> lm_refill l"
    using assms(1) by (auto simp: settings_ok_def fl_of_int)
  have b: "0 \<le> bk_tokens b" "bk_tokens b \<le> lm_burst l" using assms(2) by (simp_all add: bucket_ok_def)
  have "0 \<le> fl (bk_tokens b + fl (fl (of_int k) / fl (of_int (lm_refill l))))" if "0 < k" for k
    using f b(1) that by (intro fl_nonneg add_nonneg_nonneg divide_nonneg_nonneg) simp_all
  then show ?thesis using f b by (simp add: refilled_def Let_def)
qed

definition fuller :: "limiter \<Rightarrow> time \<Rightarrow> string \<times> bucket \<Rightarrow> string \<times> rat \<Rightarrow> string \<times> rat" where
  "fuller l t p s = (if snd s < refilled l (snd p) t then (fst p, refilled l (snd p) t) else s)"

lemma fuller_fold:
  "snd s \<le> snd (fold (fuller l t) m s) \<and>
     (fold (fuller l t) m s = s \<and> (\<forall>p \<in> set m. refilled l (snd p) t \<le> snd s) \<or> fst (fold (fuller l t) m s) \<in> set (keys m))"
proof (induction m arbitrary: s)
  case (Cons p m)
  show ?case using Cons.IH [of "fuller l t p s"] by (auto simp: fuller_def split: if_splits)
qed simp

lemma fullest_found:
  assumes "m \<noteq> []" "\<forall>p \<in> set m. 0 \<le> refilled l (snd p) t"
  shows "fullest l t m \<in> set (keys m)"
proof -
  from assms obtain p where "p \<in> set m" "0 \<le> refilled l (snd p) t" by (cases m) auto
  then have "\<not> (\<forall>p \<in> set m. refilled l (snd p) t \<le> - 1)" by force
  moreover have "fullest l t m = fst (fold (fuller l t) m ([], - 1))"
    unfolding fullest_def by (intro arg_cong [of _ _ fst] fold_cong) (auto simp: fuller_def Let_def)
  ultimately show ?thesis using fuller_fold [of "([], - 1)" l t m] by auto
qed

lemma delete_present: "distinct (keys m) \<Longrightarrow> k \<in> set (keys m) \<Longrightarrow> length (AList.delete k m) < length m"
  by (force simp: AList.delete_eq intro: length_filter_less)

text \<open>Each turn of the loop takes out one entry, so it ends below the cap.\<close>

lemma evict_ends:
  assumes "fair_visit visit" "settings_ok l" "distinct (keys m)" "\<forall>p \<in> set m. bucket_ok l (snd p)"
  shows "\<exists>j m'. while_option (\<lambda>s. lm_max l \<le> int (length (snd s))) (evict_step visit l t) (0, m) = Some (j, m')
    \<and> int (length m') < lm_max l \<and> distinct (keys m') \<and> set m' \<subseteq> set m
    \<and> (int (length m) < lm_max l \<longrightarrow> m' = m)"
proof -
  let ?P = "\<lambda>s. distinct (keys (snd s)) \<and> set (snd s) \<subseteq> set m \<and> (int (length m) < lm_max l \<longrightarrow> snd s = m)"
  let ?b = "\<lambda>s. lm_max l \<le> int (length (snd s))" and ?c = "evict_step visit l t"
  have step: "?P (?c s) \<and> length (snd (?c s)) < length (snd s)" if s: "?P s" "?b s" for s
  proof -
    have one: "1 \<le> lm_max l" using assms(2) by (simp add: settings_ok_def)
    then have "snd s \<noteq> []" using s(2) by auto
    then have ne: "visit (fst s) (snd s) \<noteq> []" using assms(1) unfolding fair_visit_def by (metis set_empty)
    have sub: "set (visit (fst s) (snd s)) = set (snd s)" using assms(1) by (simp add: fair_visit_def)
    have "\<forall>p \<in> set (visit (fst s) (snd s)). 0 \<le> refilled l (snd p) t"
      using sub s(1) assms(4) refilled_bounds [OF assms(2)] by blast
    from fullest_found [OF ne this] sub have "fullest l t (visit (fst s) (snd s)) \<in> set (keys (snd s))" by simp
    from delete_present [OF _ this] s
    show ?thesis by (auto simp: evict_step_def AList.delete_eq distinct_keys_filter)
  qed
  have start: "?P (0, m)" using assms(3) by simp
  have "\<exists>s'. while_option ?b ?c (0, m) = Some s'"
  proof (rule measure_while_option_Some [where P = ?P and f = "length \<circ> snd", OF _ start])
    show "?P (?c s) \<and> (length \<circ> snd) (?c s) < (length \<circ> snd) s" if "?P s" "?b s" for s
      unfolding comp_apply using step [OF that] by fast
  qed
  then obtain s' where w: "while_option ?b ?c (0, m) = Some s'" ..
  have "?P s'" by (rule while_option_rule [where P = ?P, OF _ w start]) (use step in blast)
  moreover have "\<not> ?b s'" by (rule while_option_stop [OF w])
  ultimately show ?thesis using w by (cases s') auto
qed

lemma prune_inv:
  assumes "fair_visit visit" "limiter_inv l"
  obtains m s where "prune visit t l = Some (l\<lparr>lm_buckets := m, lm_swept := s\<rparr>)"
    "limiter_inv (l\<lparr>lm_buckets := m, lm_swept := s\<rparr>)" "int (length m) < lm_max l" "set m \<subseteq> set (lm_buckets l)"
    "int (length (lm_buckets l)) < lm_max l \<Longrightarrow>
      \<forall>p \<in> set (lm_buckets l). p \<in> set m \<or> refilled l (snd p) t = lm_burst l"
proof (cases "int (length (lm_buckets l)) < lm_max l
    \<and> time_sub t (lm_swept l) < int64 (trunc (lm_burst l) * lm_refill l)")
  case True
  then show thesis using assms(2) by (intro that [where m = "lm_buckets l" and s = "lm_swept l"]) (simp_all add: prune_def)
next
  case False
  define kept where "kept = filter (\<lambda>p. \<not> lm_burst l \<le> refilled l (snd p) t) (lm_buckets l)"
  have inv: "settings_ok l" "distinct (keys (lm_buckets l))" "\<forall>p \<in> set (lm_buckets l). bucket_ok l (snd p)"
    using assms(2) by (simp_all add: limiter_inv_def)
  have kept: "distinct (keys kept)" "\<forall>p \<in> set kept. bucket_ok l (snd p)" "set kept \<subseteq> set (lm_buckets l)"
      "length kept \<le> length (lm_buckets l)"
    using inv by (auto simp: kept_def distinct_keys_filter)
  from evict_ends [OF assms(1) inv(1) kept(1,2)] obtain j m where w: "while_option
      (\<lambda>s. lm_max l \<le> int (length (snd s))) (evict_step visit l t) (0, kept) = Some (j, m)"
      and m: "int (length m) < lm_max l" "distinct (keys m)" "set m \<subseteq> set kept"
        "int (length kept) < lm_max l \<longrightarrow> m = kept" by blast
  show thesis
  proof (rule that [where m = m and s = t])
    show "prune visit t l = Some (l\<lparr>lm_buckets := m, lm_swept := t\<rparr>)"
      unfolding prune_def if_not_P [OF False] Let_def kept_def [symmetric] w by simp
    show "limiter_inv (l\<lparr>lm_buckets := m, lm_swept := t\<rparr>)"
      using m kept inv by (auto simp: limiter_inv_def settings_ok_def bucket_ok_def)
    show "int (length m) < lm_max l" "set m \<subseteq> set (lm_buckets l)" using m kept by auto
    assume "int (length (lm_buckets l)) < lm_max l"
    then have "m = kept" using m(4) kept(4) by simp
    then show "\<forall>p \<in> set (lm_buckets l). p \<in> set m \<or> refilled l (snd p) t = lm_burst l"
      using inv refilled_bounds [OF inv(1)] by (auto simp: kept_def intro: antisym)
  qed
qed

lemma set_update: "set (AList.update k v m) \<subseteq> insert (k, v) (set m)"
  by (induction m) auto

lemma length_update: "length (AList.update k v m) = (if k \<in> set (keys m) then length m else Suc (length m))"
  by (induction m) auto

lemma spend_inv:
  assumes "limiter_inv l" "0 \<le> tokens" "tokens \<le> lm_burst l"
    and "key \<in> set (keys (lm_buckets l)) \<or> int (length (lm_buckets l)) < lm_max l"
  shows "limiter_inv (snd (spend key t tokens l))"
proof -
  obtain n where n: "lm_burst l = of_int n" "1 \<le> n" "n \<le> 2 ^ 53"
    using assms(1) by (auto simp: limiter_inv_def settings_ok_def)
  have put: "limiter_inv (l\<lparr>lm_buckets := AList.update key b (lm_buckets l)\<rparr>)" if "bucket_ok l b" for b
    using assms(1,4) that set_update [of key b "lm_buckets l"]
    by (auto simp: limiter_inv_def settings_ok_def bucket_ok_def distinct_update length_update)
  have "fl (tokens - 1) \<le> of_int n" if "1 \<le> tokens"
    using fl_le_int [of "tokens - 1" n] assms(3) n that by simp
  then show ?thesis using assms(2,3) n fl_nonneg [of "tokens - 1"]
    by (auto simp: spend_def intro!: put simp: bucket_ok_def)
qed

lemma allow_inv:
  assumes "fair_visit visit" "limiter_inv l"
  shows "\<exists>r l'. allow visit t key l = Some (r, l') \<and> limiter_inv l' \<and> lm_max l' = lm_max l"
proof (cases "map_of (lm_buckets l) key")
  case (Some b)
  have s: "settings_ok l" "bucket_ok l b"
    using assms(2) map_of_SomeD [OF Some] by (auto simp: limiter_inv_def)
  have "key \<in> set (keys (lm_buckets l))" using map_of_SomeD [OF Some] by force
  then have "limiter_inv (snd (spend key t (refilled l b t) l))"
    using spend_inv [OF assms(2)] refilled_bounds [OF s] by blast
  then show ?thesis using Some by (cases "spend key t (refilled l b t) l") (auto simp: allow_def spend_def split: if_splits)
next
  case None
  obtain m s where p: "prune visit t l = Some (l\<lparr>lm_buckets := m, lm_swept := s\<rparr>)"
      "limiter_inv (l\<lparr>lm_buckets := m, lm_swept := s\<rparr>)" "int (length m) < lm_max l"
    using prune_inv [OF assms] by metis
  let ?l = "l\<lparr>lm_buckets := m, lm_swept := s\<rparr>"
  have "0 \<le> lm_burst l" using assms(2) by (auto simp: limiter_inv_def settings_ok_def)
  then have "limiter_inv (snd (spend key t (lm_burst ?l) ?l))" using spend_inv [OF p(2)] p(3) by simp
  then show ?thesis using None p(1)
    by (cases "spend key t (lm_burst ?l) ?l") (auto simp: allow_def spend_def split: if_splits)
qed

lemma allow_all_inv:
  "fair_visit visit \<Longrightarrow> limiter_inv l \<Longrightarrow>
    \<exists>oks l'. allow_all visit qs l = Some (oks, l') \<and> limiter_inv l' \<and> lm_max l' = lm_max l \<and> length oks = length qs"
proof (induction qs arbitrary: l)
  case (Cons q qs)
  obtain t key where q: "q = (t, key)" by (cases q)
  obtain w ok l' where a: "allow visit t key l = Some ((w, ok), l')" "limiter_inv l'" "lm_max l' = lm_max l"
    using allow_inv [OF Cons.prems] by (metis surj_pair)
  from Cons.IH [OF Cons.prems(1) a(2)] a show ?case by (auto simp: q)
qed simp

end
