(* ===== verification/Web_Proxies.thy ===== *)
theory Web_Proxies
  imports Auth_Service Rate_Limit
begin

text \<open>
  Who a request comes from (httpserver/ratelimit.go): the trusted proxies, the forwarded chain,
  and the two keys an attempt is counted under, with the parts of net and net/netip they use.
\<close>

section \<open>Addresses (net/netip)\<close>

text \<open>Four bytes, or eight groups of sixteen bits and a zone.\<close>

datatype addr = V4 "nat list" | V6 "nat list" string

definition dec_octet :: "string \<Rightarrow> nat option" where
  "dec_octet s = (if length s = 2 \<and> hd s = CHR ''0'' \<or> length s > 2 \<and> hd s = CHR ''0'' then None
     else case parse_nat s of Some n \<Rightarrow> if n \<le> 255 then Some n else None | None \<Rightarrow> None)"

fun all_some :: "'a option list \<Rightarrow> 'a list option" where
  "all_some [] = Some []"
| "all_some (x # xs) = (case x of None \<Rightarrow> None | Some a \<Rightarrow> map_option ((#) a) (all_some xs))"

text \<open>\<open>parseIPv4Fields\<close>: four decimal octets, with no leading zero.\<close>

definition parse_v4 :: "string \<Rightarrow> nat list option" where
  "parse_v4 s = (let fs = split_on CHR ''.'' s in
     if length fs = 4 then all_some (map dec_octet fs) else None)"

definition hex_value :: "char \<Rightarrow> nat option" where
  "hex_value c = (let b = byte c in
     if 48 \<le> b \<and> b \<le> 57 then Some (b - 48) else if 97 \<le> b \<and> b \<le> 102 then Some (b - 87)
     else if 65 \<le> b \<and> b \<le> 70 then Some (b - 55) else None)"

definition hex_run :: "string \<Rightarrow> nat list \<times> string" where
  "hex_run s = (map (\<lambda>c. the (hex_value c)) (takeWhile (\<lambda>c. hex_value c \<noteq> None) s),
     dropWhile (\<lambda>c. hex_value c \<noteq> None) s)"

text \<open>
  The loop of \<open>parseIPv6\<close>: \<open>n\<close> groups may still come, \<open>got\<close> are read (the last first), and the
  ellipsis stands after \<open>gap\<close> of them.
\<close>

fun v6_groups :: "nat \<Rightarrow> string \<Rightarrow> nat list \<Rightarrow> nat option \<Rightarrow> (nat list \<times> nat option) option" where
  "v6_groups 0 s got gap = (if s = [] then Some (rev got, gap) else None)"
| "v6_groups (Suc n) s got gap =
     (let (ds, rest) = hex_run s in
      if ds = [] \<or> 4 < length ds then None
      else if rest \<noteq> [] \<and> hd rest = CHR ''.'' then
        (if (gap = None \<and> length got \<noteq> 6) \<or> n < 1 then None
         else case parse_v4 s of
           Some [a, b, c, d] \<Rightarrow> Some (rev got @ [256 * a + b, 256 * c + d], gap)
         | _ \<Rightarrow> None)
      else
        let got' = fold (\<lambda>d v. 16 * v + d) ds 0 # got in
        case rest of
          [] \<Rightarrow> Some (rev got', gap)
        | c # t \<Rightarrow>
            if c \<noteq> CHR '':'' \<or> t = [] then None
            else if hd t = CHR '':'' then
              (if gap \<noteq> None then None
               else if tl t = [] then Some (rev got', Some (length got'))
               else v6_groups n (tl t) got' (Some (length got')))
            else v6_groups n t got' gap)"

definition parse_v6 :: "string \<Rightarrow> addr option" where
  "parse_v6 whole =
     (let s = before CHR ''%'' whole; zone = drop (Suc (length s)) whole in
      if s \<noteq> whole \<and> zone = [] then None
      else
        let lead = (take 2 s = ''::''); t = (if lead then drop 2 s else s) in
        if lead \<and> t = [] then Some (V6 (replicate 8 0) zone)
        else case v6_groups 8 t [] (if lead then Some 0 else None) of
          None \<Rightarrow> None
        | Some (gs, None) \<Rightarrow> if length gs = 8 then Some (V6 gs zone) else None
        | Some (gs, Some k) \<Rightarrow>
            if length gs < 8 then Some (V6 (take k gs @ replicate (8 - length gs) 0 @ drop k gs) zone) else None)"

text \<open>\<open>ParseAddr\<close>: the first of \<open>.\<close>, \<open>:\<close> and \<open>%\<close> decides.\<close>

definition parse_addr :: "string \<Rightarrow> addr option" where
  "parse_addr s = (case dropWhile (\<lambda>c. c \<noteq> CHR ''.'' \<and> c \<noteq> CHR '':'' \<and> c \<noteq> CHR ''%'') s of
     [] \<Rightarrow> None
   | c # _ \<Rightarrow> if c = CHR ''.'' then map_option V4 (parse_v4 s) else if c = CHR '':'' then parse_v6 s else None)"

text \<open>\<open>ParsePrefix\<close>: an address without a zone, and a number of bits.\<close>

definition bit_len :: "addr \<Rightarrow> nat" where
  "bit_len a = (case a of V4 _ \<Rightarrow> 32 | V6 _ _ \<Rightarrow> 128)"

definition parse_prefix :: "string \<Rightarrow> (addr \<times> nat) option" where
  "parse_prefix s =
     (let parts = split_on CHR ''/'' s; bits = last parts; left = take (length s - length bits - 1) s in
      if length parts < 2 then None
      else case parse_addr left of
        None \<Rightarrow> None
      | Some a \<Rightarrow>
          if (case a of V6 _ z \<Rightarrow> z \<noteq> [] | V4 _ \<Rightarrow> False) then None
          else if 1 < length bits \<and> \<not> (49 \<le> byte (hd bits) \<and> byte (hd bits) \<le> 57) then None
          else case parse_nat bits of
            Some n \<Rightarrow> if n \<le> bit_len a then Some (a, n) else None
          | None \<Rightarrow> None)"

definition unmap :: "addr \<Rightarrow> addr" where
  "unmap a = (case a of
     V6 [0, 0, 0, 0, 0, m, h, l] _ \<Rightarrow> if m = 0xFFFF then V4 [h div 256, h mod 256, l div 256, l mod 256] else a
   | _ \<Rightarrow> a)"

definition is_loopback :: "addr \<Rightarrow> bool" where
  "is_loopback a = (case unmap a of V4 bs \<Rightarrow> hd bs = 127 | V6 gs _ \<Rightarrow> gs = [0, 0, 0, 0, 0, 0, 0, 1])"

text \<open>
  \<open>Addr.String\<close>: the longest run of two or more zero groups, the first of several, is written
  \<open>::\<close>; a mapped address keeps its dotted end.
\<close>

definition hex_group :: "nat \<Rightarrow> string" where
  "hex_group n = (let ds = dropWhile (\<lambda>d. d = CHR ''0'') (hex_digits 4 n) in if ds = [] then ''0'' else ds)"

definition zero_run :: "nat list \<Rightarrow> nat \<Rightarrow> nat" where
  "zero_run gs i = length (takeWhile (\<lambda>g. g = 0) (drop i gs))"

definition longest_zeros :: "nat list \<Rightarrow> nat \<times> nat" where
  "longest_zeros gs = fold (\<lambda>i (at0, n). if n < zero_run gs i \<and> 2 \<le> zero_run gs i then (i, zero_run gs i) else (at0, n))
     [0..<length gs] (0, 0)"

definition dotted :: "nat list \<Rightarrow> string" where
  "dotted bs = join ''.'' (map nat_digits bs)"

definition addr_string :: "addr \<Rightarrow> string" where
  "addr_string a = (case a of
     V4 bs \<Rightarrow> dotted bs
   | V6 gs zone \<Rightarrow>
       (case unmap a of V4 bs \<Rightarrow> ''::ffff:'' @ dotted bs
        | V6 _ _ \<Rightarrow>
            let (k, n) = longest_zeros gs in
            if n = 0 then join '':'' (map hex_group gs)
            else join '':'' (map hex_group (take k gs)) @ ''::'' @ join '':'' (map hex_group (drop (k + n) gs)))
       @ (if zone = [] then [] else CHR ''%'' # zone))"

section \<open>Requests\<close>

text \<open>What this file reads of a request: \<open>r.RemoteAddr\<close> and the values of X-Forwarded-For.\<close>

record peer_info =
  pi_remote :: string
  pi_forwarded :: "string list"

text \<open>\<open>net.SplitHostPort\<close>, the host.\<close>

definition split_host :: "string \<Rightarrow> string option" where
  "split_host s =
     (let parts = split_on CHR '':'' s; i = length s - length (last parts) - 1 in
      if length parts < 2 then None
      else if hd s = CHR ''['' then
        (let host = before CHR '']'' (tl s); e = Suc (length host) in
         if CHR '']'' \<notin> set s \<or> Suc e \<noteq> i \<or> CHR ''['' \<in> set (tl s) \<or> CHR '']'' \<in> set (drop (Suc e) s) then None
         else Some host)
      else if CHR '':'' \<in> set (take i s) \<or> CHR ''['' \<in> set s \<or> CHR '']'' \<in> set s then None
      else Some (take i s))"

definition source_key :: "peer_info \<Rightarrow> string" where
  "source_key r = (case split_host (pi_remote r) of Some host \<Rightarrow> host | None \<Rightarrow> pi_remote r)"

section \<open>Trusted proxies\<close>

definition proxy_error :: "unicode \<Rightarrow> string \<Rightarrow> string \<Rightarrow> goerr" where
  "proxy_error u field what = Opaque (''trusted proxy '' @ quote u field @ '': '' @ what)"

definition parse_trusted_proxy :: "unicode \<Rightarrow> string \<Rightarrow> addr result" where
  "parse_trusted_proxy u field =
     bind_r (case parse_addr field of
         Some a \<Rightarrow> Inr a
       | None \<Rightarrow>
          (case parse_prefix field of
             None \<Rightarrow> Inl (proxy_error u field ''not an IP address; the proxy runs beside the server, so this is 127.0.0.1 or ::1'')
           | Some (a, n) \<Rightarrow>
               if n \<noteq> bit_len a
               then Inl (proxy_error u field ''a range is refused because any client inside it could choose its own rate-limit bucket; name the proxy's own address, 127.0.0.1 or ::1'')
               else Inr a))
       (\<lambda>a. if is_loopback (unmap a) then Inr (unmap a)
          else Inl (proxy_error u field ''only a loopback address is accepted because zorkd expects its proxy on the same host, so this is 127.0.0.1 or ::1; a proxy elsewhere is not a supported deployment''))"

fun parse_proxy_fields :: "unicode \<Rightarrow> string list \<Rightarrow> addr list result" where
  "parse_proxy_fields u [] = Inr []"
| "parse_proxy_fields u (f # fs) =
     (let field = trim_space f in
      if field = [] then parse_proxy_fields u fs
      else bind_r (parse_trusted_proxy u field) (\<lambda>a. bind_r (parse_proxy_fields u fs) (\<lambda>as. Inr (a # as))))"

definition parse_trusted_proxies :: "unicode \<Rightarrow> string \<Rightarrow> addr list result" where
  "parse_trusted_proxies u list = parse_proxy_fields u (split_on CHR '','' list)"

definition trusted_has :: "addr list \<Rightarrow> addr \<Rightarrow> bool" where
  "trusted_has t a \<longleftrightarrow> a \<in> set t"

definition forwarded_for :: "peer_info \<Rightarrow> string list" where
  "forwarded_for r = concat (map (split_on CHR '','') (pi_forwarded r))"

text \<open>The walk over the hops, the nearest first.\<close>

fun walk_hops :: "addr list \<Rightarrow> string \<Rightarrow> string list \<Rightarrow> string" where
  "walk_hops t peer [] = peer"
| "walk_hops t peer (h # hs) =
     (let hop = trim_space h in
      if hop = [] then walk_hops t peer hs
      else case parse_addr hop of
        None \<Rightarrow> peer
      | Some a \<Rightarrow> if trusted_has t (unmap a) then walk_hops t peer hs else addr_string (unmap a))"

definition client_ip :: "addr list \<Rightarrow> peer_info \<Rightarrow> string" where
  "client_ip t r =
     (let peer = source_key r in
      if t = [] then peer
      else case parse_addr peer of
        None \<Rightarrow> peer
      | Some a \<Rightarrow> if \<not> trusted_has t (unmap a) then peer else walk_hops t peer (rev (forwarded_for r)))"

definition email_key :: "mail_env \<Rightarrow> string \<Rightarrow> string" where
  "email_key me email = (case normalize_email me email of
     Inr address \<Rightarrow> address
   | Inl _ \<Rightarrow> take max_email_length (to_lower (me_unicode me) (trim_space email)))"

text \<open>An attempt, attributed and counted.\<close>

definition attempt :: "visit \<Rightarrow> mail_env \<Rightarrow> addr list \<Rightarrow> time \<Rightarrow> time \<Rightarrow> peer_info \<Rightarrow> string \<Rightarrow> attempt_limit
     \<Rightarrow> ((duration \<times> bool) \<times> attempt_limit) option" where
  "attempt visit me t t0 t1 r email a = attempt_allow visit t0 t1 (client_ip t r) (email_key me email) a"

section \<open>What is trusted\<close>

lemma parse_proxy_fields_loopback:
  "parse_proxy_fields u fs = Inr as \<Longrightarrow> a \<in> set as \<Longrightarrow> is_loopback a"
proof (induction fs arbitrary: as)
  case (Cons f fs)
  then show ?case
    by (auto simp: Let_def result_iff parse_trusted_proxy_def split: if_splits)
qed simp

text \<open>Entries to the left of the first untrusted hop change nothing.\<close>

lemma walk_hops_edge:
  assumes "trim_space h \<noteq> []" "parse_addr (trim_space h) = Some a" "\<not> trusted_has t (unmap a)"
    and "\<forall>g \<in> set near. trim_space g = [] \<or> (\<exists>b. parse_addr (trim_space g) = Some b \<and> trusted_has t (unmap b))"
  shows "walk_hops t peer (near @ h # far) = addr_string (unmap a)"
  using assms(4) by (induction near) (use assms in \<open>auto simp: Let_def\<close>)

lemma walk_hops_range:
  "walk_hops t peer hs = peer \<or> (\<exists>a. walk_hops t peer hs = addr_string a \<and> \<not> trusted_has t a)"
  by (induction hs) (auto simp: Let_def split: option.splits)

end
