(* ===== verification/Session_Manager.thy ===== *)
theory Session_Manager
  imports Auth_Password Float_Round
begin

text \<open>
  Browser sessions (internal/session/session.go): the manager that issues, reads, ends and
  sweeps them over any store, what the store promises (\<open>session.Store\<close>, the locale
  \<open>token_store\<close>), and what follows for who is logged in.

  A request's session cookie is \<open>None\<close> when \<open>r.Cookie\<close> finds none. The store keys a session
  by the hash of its token; the token itself goes to the browser alone.
\<close>

section \<open>Cookies and tokens\<close>

text \<open>\<open>base64.RawURLEncoding\<close>.\<close>

definition b64url_encode :: "bytes \<Rightarrow> string" where
  "b64url_encode bs = map (\<lambda>c. if c = CHR ''+'' then CHR ''-'' else if c = CHR ''/'' then CHR ''_'' else c) (b64_encode bs)"

definition token_bytes :: nat where "token_bytes = 32"
definition cookie_name :: string where "cookie_name = ''zorkd_session''"
definition default_session_ttl :: duration where "default_session_ttl = 14 * 24 * hour"

record set_cookie =
  ck_name :: string
  ck_value :: string
  ck_path :: string
  ck_expires :: time
  ck_max_age :: int
  ck_http_only :: bool
  ck_secure :: bool
  ck_lax :: bool

text \<open>\<open>d.Seconds()\<close>, and the instant of \<open>time.Unix(0, 0)\<close> after the zero time.\<close>

definition seconds :: "duration \<Rightarrow> rat" where
  "seconds d = fl (of_int (d div second) + fl (of_int (d mod second) / of_int second))"

definition unix_epoch :: time where "unix_epoch = 62135596800 * second"

section \<open>The manager\<close>

record login =
  lg_user :: string
  lg_expires :: time

record 'st token_ops =
  to_create :: "env \<Rightarrow> 256 word \<Rightarrow> login \<Rightarrow> 'st \<Rightarrow> unit result \<times> 'st"
  to_by_token :: "env \<Rightarrow> 256 word \<Rightarrow> 'st \<Rightarrow> login result"
  to_delete :: "env \<Rightarrow> 256 word \<Rightarrow> 'st \<Rightarrow> unit result \<times> 'st"
  to_delete_expired :: "env \<Rightarrow> time \<Rightarrow> 'st \<Rightarrow> nat result \<times> 'st"

record 'st manager =
  mg_store :: "'st token_ops"
  mg_crypto :: crypto
  mg_ttl :: duration
  mg_secure :: bool

definition session_with_ttl :: "duration \<Rightarrow> 'st manager \<Rightarrow> 'st manager" where
  "session_with_ttl ttl m = m\<lparr>mg_ttl := ttl\<rparr>"

definition with_insecure_cookies :: "'st manager \<Rightarrow> 'st manager" where
  "with_insecure_cookies m = m\<lparr>mg_secure := False\<rparr>"

definition new_manager :: "crypto \<Rightarrow> 'st token_ops option \<Rightarrow> ('st manager \<Rightarrow> 'st manager) list \<Rightarrow> 'st manager result" where
  "new_manager cr store opts = (case store of
     None \<Rightarrow> Inl (Opaque ''session: manager: nil store'')
   | Some s \<Rightarrow>
       let m = fold (\<lambda>f m. f m) opts \<lparr>mg_store = s, mg_crypto = cr, mg_ttl = default_session_ttl, mg_secure = True\<rparr> in
       if mg_ttl m \<le> 0 then Inl (Opaque ''session: manager: ttl must be positive'') else Inr m)"

definition hash_token :: "crypto \<Rightarrow> string \<Rightarrow> 256 word" where
  "hash_token cr token = sha256 cr token"

definition session_cookie :: "'st manager \<Rightarrow> string \<Rightarrow> time \<Rightarrow> int \<Rightarrow> set_cookie" where
  "session_cookie m v expires age = \<lparr>ck_name = cookie_name, ck_value = v, ck_path = ''/'', ck_expires = expires,
     ck_max_age = age, ck_http_only = True, ck_secure = mg_secure m, ck_lax = True\<rparr>"

definition clear_cookie :: "'st manager \<Rightarrow> set_cookie" where
  "clear_cookie m = session_cookie m [] unix_epoch (-1)"

definition manager_start :: "'st manager \<Rightarrow> env \<Rightarrow> string \<Rightarrow> 'st \<Rightarrow> set_cookie result \<times> 'st" where
  "manager_start m e user st =
     (if user = [] then (Inl (Opaque ''session: start: no user''), st)
      else case rand_read (mg_crypto m) e token_bytes of
        Inl err \<Rightarrow> (Inl (Wrap ''session: start'' err), st)
      | Inr raw \<Rightarrow>
          let token = b64url_encode raw; expires = now e + mg_ttl m in
          (case to_create (mg_store m) (nth_use 1 e) (hash_token (mg_crypto m) token)
              \<lparr>lg_user = user, lg_expires = expires\<rparr> st of
             (Inl err, st') \<Rightarrow> (Inl (Wrap ''session: start'' err), st')
           | (Inr _, st') \<Rightarrow> (Inr (session_cookie m token expires (trunc (seconds (mg_ttl m)))), st')))"

definition manager_user_id :: "'st manager \<Rightarrow> env \<Rightarrow> string option \<Rightarrow> 'st \<Rightarrow> string result \<times> 'st" where
  "manager_user_id m e cookie st =
     (case cookie of
        None \<Rightarrow> (Inl (Sentinel ErrNoSession), st)
      | Some v \<Rightarrow>
          if v = [] then (Inl (Sentinel ErrNoSession), st)
          else let h = hash_token (mg_crypto m) v in
            case to_by_token (mg_store m) e h st of
              Inl err \<Rightarrow>
                if errors_is err ErrNoSession then (Inl (Sentinel ErrNoSession), st)
                else (Inl (Wrap ''session: lookup'' err), st)
            | Inr s \<Rightarrow>
                if \<not> now (nth_use 1 e) < lg_expires s
                then (case to_delete (mg_store m) (nth_use 2 e) h st of
                        (Inl err, st') \<Rightarrow> (Inl (Wrap ''session: delete expired'' err), st')
                      | (Inr _, st') \<Rightarrow> (Inl (Sentinel ErrNoSession), st'))
                else (Inr (lg_user s), st))"

definition manager_end :: "'st manager \<Rightarrow> env \<Rightarrow> string option \<Rightarrow> 'st \<Rightarrow> (unit result \<times> set_cookie) \<times> 'st" where
  "manager_end m e cookie st =
     (case cookie of
        None \<Rightarrow> ((Inr (), clear_cookie m), st)
      | Some v \<Rightarrow>
          if v = [] then ((Inr (), clear_cookie m), st)
          else case to_delete (mg_store m) e (hash_token (mg_crypto m) v) st of
            (r, st') \<Rightarrow> ((wrap_r ''session: end'' r, clear_cookie m), st'))"

definition manager_sweep :: "'st manager \<Rightarrow> env \<Rightarrow> 'st \<Rightarrow> nat result \<times> 'st" where
  "manager_sweep m e st =
     (case to_delete_expired (mg_store m) (nth_use 1 e) (now e) st of (r, st') \<Rightarrow> (wrap_r ''session: sweep'' r, st'))"

section \<open>What the store promises\<close>

locale token_store =
  fixes ops :: "'st token_ops"
    and up :: "env \<Rightarrow> bool"
    and room :: "'st \<Rightarrow> bool"
    and known :: "'st \<Rightarrow> string \<Rightarrow> bool"
    and inv :: "'st \<Rightarrow> bool"
    and tok :: "'st \<Rightarrow> 256 word \<Rightarrow> login option"
  assumes by_token_found: "inv st \<Longrightarrow> up e \<Longrightarrow> tok st h = Some s \<Longrightarrow> to_by_token ops e h st = Inr s"
    and by_token_sound: "inv st \<Longrightarrow> to_by_token ops e h st = Inr s \<Longrightarrow> tok st h = Some s"
    and by_token_missing: "inv st \<Longrightarrow> up e \<Longrightarrow> tok st h = None \<Longrightarrow>
        \<exists>err. to_by_token ops e h st = Inl err \<and> errors_is err ErrNoSession"
    and create_works: "inv st \<Longrightarrow> up e \<Longrightarrow> room st \<Longrightarrow> known st (lg_user s) \<Longrightarrow> tok st h = None \<Longrightarrow>
        \<exists>st'. to_create ops e h s st = (Inr (), st')"
    and create_effect: "inv st \<Longrightarrow> known st (lg_user s) \<Longrightarrow> to_create ops e h s st = (Inr (), st') \<Longrightarrow>
        inv st' \<and> known st' = known st \<and> tok st h = None \<and> tok st' = (tok st)(h \<mapsto> s)"
    and create_failed: "to_create ops e h s st = (Inl err, st') \<Longrightarrow> st' = st"
    and delete_works: "inv st \<Longrightarrow> up e \<Longrightarrow> \<exists>st'. to_delete ops e h st = (Inr (), st')"
    and delete_effect: "inv st \<Longrightarrow> to_delete ops e h st = (Inr (), st') \<Longrightarrow>
        inv st' \<and> known st' = known st \<and> tok st' = (tok st)(h := None)"
    and delete_failed: "to_delete ops e h st = (Inl err, st') \<Longrightarrow> st' = st"
    and sweep_effect: "inv st \<Longrightarrow> to_delete_expired ops e t st = (Inr n, st') \<Longrightarrow>
        inv st' \<and> known st' = known st
        \<and> tok st' = (\<lambda>h. case tok st h of None \<Rightarrow> None | Some s \<Rightarrow> if lg_expires s < t then None else Some s)"
    and sweep_failed: "to_delete_expired ops e t st = (Inl err, st') \<Longrightarrow> st' = st"

section \<open>Who is logged in\<close>

text \<open>The calls a server makes of its manager, in any order.\<close>

datatype session_call = LogIn string | Look "string option" | LogOut "string option" | SweepSessions

definition manager_do :: "'st manager \<Rightarrow> env \<Rightarrow> session_call \<Rightarrow> 'st \<Rightarrow> 'st" where
  "manager_do m e q st = (case q of
     LogIn user \<Rightarrow> snd (manager_start m e user st)
   | Look cookie \<Rightarrow> snd (manager_user_id m e cookie st)
   | LogOut cookie \<Rightarrow> snd (manager_end m e cookie st)
   | SweepSessions \<Rightarrow> snd (manager_sweep m e st))"

fun manager_all :: "'st manager \<Rightarrow> (env \<times> session_call) list \<Rightarrow> 'st \<Rightarrow> 'st" where
  "manager_all m [] st = st"
| "manager_all m ((e, q) # qs) st = manager_all m qs (manager_do m e q st)"

text \<open>The call may end the session with that token: by logging it out.\<close>

definition logs_out :: "crypto \<Rightarrow> string \<Rightarrow> session_call \<Rightarrow> bool" where
  "logs_out cr token q = (case q of LogOut (Some v) \<Rightarrow> hash_token cr v = hash_token cr token | _ \<Rightarrow> False)"

definition users_known :: "('st \<Rightarrow> string \<Rightarrow> bool) \<Rightarrow> 'st \<Rightarrow> session_call \<Rightarrow> bool" where
  "users_known known st q = (case q of LogIn user \<Rightarrow> known st user | _ \<Rightarrow> True)"

text \<open>The clock of a call: its readings.\<close>

definition clock_before :: "time \<Rightarrow> env \<Rightarrow> bool" where
  "clock_before t e \<longleftrightarrow> (\<forall>k. clock e k < t)"

lemma clock_before_now: "clock_before t e \<Longrightarrow> now e < t" "clock_before t e \<Longrightarrow> now (nth_use k e) < t"
  by (simp_all add: clock_before_def now_def nth_use_def later_def)

text \<open>A call may end a session: by logging it out, or because it finds it expired.\<close>

definition may_end :: "crypto \<Rightarrow> env \<Rightarrow> session_call \<Rightarrow> 256 word \<Rightarrow> login \<Rightarrow> bool" where
  "may_end cr e q h s \<longleftrightarrow> (\<exists>v. q = LogOut (Some v) \<and> hash_token cr v = h)
     \<or> \<not> now (nth_use 1 e) < lg_expires s \<or> lg_expires s < now e"

text \<open>A login draws the token whose hash this is.\<close>

definition draws :: "crypto \<Rightarrow> env \<Rightarrow> session_call \<Rightarrow> 256 word \<Rightarrow> bool" where
  "draws cr e q h \<longleftrightarrow> (\<exists>user raw. q = LogIn user \<and> rand_read cr e token_bytes = Inr raw
     \<and> hash_token cr (b64url_encode raw) = h)"

context token_store begin

text \<open>What one use of the store can do.\<close>

lemma create_out:
  "inv st \<Longrightarrow> known st (lg_user s) \<Longrightarrow> to_create ops e h s st = (r, st') \<Longrightarrow>
    st' = st \<or> inv st' \<and> known st' = known st \<and> tok st h = None \<and> tok st' = (tok st)(h \<mapsto> s)"
  using create_effect [of st s e h st'] create_failed [of e h s st _ st'] by (cases r) (blast, simp)

lemma delete_out:
  "inv st \<Longrightarrow> to_delete ops e h st = (r, st') \<Longrightarrow>
    st' = st \<or> inv st' \<and> known st' = known st \<and> tok st' = (tok st)(h := None)"
  using delete_effect [of st e h st'] delete_failed [of e h st _ st'] by (cases r) (blast, simp)

lemma sweep_out:
  "inv st \<Longrightarrow> to_delete_expired ops e t st = (r, st') \<Longrightarrow>
    st' = st \<or> inv st' \<and> known st' = known st
      \<and> (\<forall>h s. tok st h = Some s \<longrightarrow> \<not> lg_expires s < t \<longrightarrow> tok st' h = Some s)"
proof (cases r)
  case (Inl err)
  assume "inv st" "to_delete_expired ops e t st = (r, st')"
  then show ?thesis using sweep_failed Inl by blast
next
  case (Inr n)
  assume a: "inv st" "to_delete_expired ops e t st = (r, st')"
  from sweep_effect [OF a(1) a(2) [unfolded Inr]] show ?thesis by simp
qed

lemma do_effect:
  assumes "mg_store m = ops" "inv st" "users_known known st q" "manager_do m e q st = st'"
  shows "inv st' \<and> known st' = known st
    \<and> (\<forall>h s. tok st h = Some s \<longrightarrow> \<not> may_end (mg_crypto m) e q h s \<longrightarrow> tok st' h = Some s)"
proof (cases q)
  case (LogIn user)
  have "st' = st \<or> (\<exists>h s r. lg_user s = user \<and> to_create ops (nth_use 1 e) h s st = (r, st'))"
    using assms(4) unfolding manager_do_def manager_start_def LogIn assms(1)
    by (auto simp: Let_def split: sum.splits prod.splits)
  then show ?thesis
  proof (elim disjE exE conjE)
    fix h s r
    assume s: "lg_user s = user" "to_create ops (nth_use 1 e) h s st = (r, st')"
    have "known st (lg_user s)" using assms(3) s(1) by (simp add: LogIn users_known_def)
    from create_out [OF assms(2) this s(2)] show ?thesis using assms(2) by auto
  qed (use assms(2) in simp)
next
  case (Look cookie)
  have "st' = st \<or> (\<exists>h s r. tok st h = Some s \<and> \<not> now (nth_use 1 e) < lg_expires s
      \<and> to_delete ops (nth_use 2 e) h st = (r, st'))"
    using assms(4) by_token_sound [OF assms(2)] unfolding manager_do_def manager_user_id_def Look assms(1)
    by (auto simp: Let_def split: option.splits sum.splits prod.splits if_splits) metis+
  then show ?thesis
  proof (elim disjE exE conjE)
    fix h s r
    assume s: "tok st h = Some s" "\<not> now (nth_use 1 e) < lg_expires s" "to_delete ops (nth_use 2 e) h st = (r, st')"
    from delete_out [OF assms(2) s(3)] s(1,2) show ?thesis using assms(2) by (auto simp: may_end_def)
  qed (use assms(2) in simp)
next
  case (LogOut cookie)
  have "st' = st \<or> (\<exists>v r. cookie = Some v \<and> to_delete ops e (hash_token (mg_crypto m) v) st = (r, st'))"
    using assms(4) unfolding manager_do_def manager_end_def LogOut assms(1)
    by (auto split: option.splits prod.splits if_splits)
  then show ?thesis
  proof (elim disjE exE conjE)
    fix v r
    assume v: "cookie = Some v" "to_delete ops e (hash_token (mg_crypto m) v) st = (r, st')"
    from delete_out [OF assms(2) v(2)] show ?thesis using assms(2) LogOut v(1) by (auto simp: may_end_def)
  qed (use assms(2) in simp)
next
  case SweepSessions
  obtain r where "to_delete_expired ops (nth_use 1 e) (now e) st = (r, st')"
    using assms(4) unfolding manager_do_def manager_sweep_def SweepSessions assms(1)
    by (auto split: prod.splits)
  from sweep_out [OF assms(2) this] show ?thesis using assms(2) by (auto simp: may_end_def)
qed

lemma do_keeps:
  assumes "mg_store m = ops" "inv st" "users_known known st q"
  shows "inv (manager_do m e q st) \<and> known (manager_do m e q st) = known st"
  using do_effect [OF assms refl, of e] by blast

text \<open>A session that is not logged out or expired stays.\<close>

lemma do_keeps_session:
  assumes "mg_store m = ops" "inv st" "users_known known st q" "tok st (hash_token (mg_crypto m) token) = Some s"
    and "\<not> logs_out (mg_crypto m) token q" "clock_before (lg_expires s) e"
  shows "tok (manager_do m e q st) (hash_token (mg_crypto m) token) = Some s"
proof -
  have "\<not> may_end (mg_crypto m) e q (hash_token (mg_crypto m) token) s"
    using assms(5) clock_before_now [OF assms(6)] by (auto simp: may_end_def logs_out_def dest: less_asym)
  then show ?thesis using do_effect [OF assms(1-3) refl, of e] assms(4) by blast
qed

lemma all_keep:
  assumes "mg_store m = ops" "inv st" "\<forall>(e, q) \<in> set qs. users_known known st q"
  shows "inv (manager_all m qs st) \<and> known (manager_all m qs st) = known st"
  using assms(2,3)
proof (induction qs arbitrary: st)
  case (Cons p qs)
  obtain e q where p: "p = (e, q)" by (cases p)
  have k: "inv (manager_do m e q st)" "known (manager_do m e q st) = known st"
    using do_keeps [OF assms(1) Cons.prems(1)] Cons.prems(2) p by auto
  then have "\<forall>(e', q') \<in> set qs. users_known known (manager_do m e q st) q'"
    using Cons.prems(2) by (auto simp: users_known_def split: session_call.splits)
  from Cons.IH [OF k(1) this] k(2) show ?case by (simp add: p)
qed simp

lemma all_keep_session:
  assumes "mg_store m = ops" "inv st" "\<forall>(e, q) \<in> set qs. users_known known st q
      \<and> \<not> logs_out (mg_crypto m) token q \<and> clock_before (lg_expires s) e"
    and "tok st (hash_token (mg_crypto m) token) = Some s"
  shows "tok (manager_all m qs st) (hash_token (mg_crypto m) token) = Some s"
  using assms(2-)
proof (induction qs arbitrary: st)
  case (Cons p qs)
  obtain e q where p: "p = (e, q)" by (cases p)
  have q: "users_known known st q" "\<not> logs_out (mg_crypto m) token q" "clock_before (lg_expires s) e"
    using Cons.prems(2) p by auto
  have k: "inv (manager_do m e q st)" "known (manager_do m e q st) = known st"
    using do_keeps [OF assms(1) Cons.prems(1) q(1)] by auto
  have "\<forall>(e', q') \<in> set qs. users_known known (manager_do m e q st) q'
      \<and> \<not> logs_out (mg_crypto m) token q' \<and> clock_before (lg_expires s) e'"
    using Cons.prems(2) k(2) by (auto simp: users_known_def split: session_call.splits)
  from Cons.IH [OF k(1) this do_keeps_session [OF assms(1) Cons.prems(1) q(1) Cons.prems(3) q(2,3)]]
  show ?case by (simp add: p)
qed simp

text \<open>A token that names no session names none until a login draws it again.\<close>

lemma do_stays_dead:
  assumes "mg_store m = ops" "inv st" "users_known known st q" "\<not> draws (mg_crypto m) e q h" "tok st h = None"
  shows "tok (manager_do m e q st) h = None"
proof (cases q)
  case (LogIn user)
  have "manager_do m e q st = st \<or> (\<exists>h' s r. lg_user s = user \<and> h' \<noteq> h
      \<and> to_create ops (nth_use 1 e) h' s st = (r, manager_do m e q st))"
    using assms(4) unfolding manager_do_def manager_start_def LogIn assms(1)
    by (auto simp: Let_def draws_def split: sum.splits prod.splits) (metis login.select_convs(1))+
  then show ?thesis
  proof (elim disjE exE conjE)
    fix h' s r
    assume s: "lg_user s = user" "h' \<noteq> h" "to_create ops (nth_use 1 e) h' s st = (r, manager_do m e q st)"
    have "known st (lg_user s)" using assms(3) s(1) by (simp add: LogIn users_known_def)
    from create_out [OF assms(2) this s(3)] s(2) assms(5) show ?thesis by auto
  qed (use assms(5) in simp)
next
  case (Look cookie)
  have "manager_do m e q st = st \<or> (\<exists>h r. to_delete ops (nth_use 2 e) h st = (r, manager_do m e q st))"
    unfolding manager_do_def manager_user_id_def Look assms(1)
    by (auto simp: Let_def split: option.splits sum.splits prod.splits)
  then show ?thesis using delete_out [OF assms(2)] assms(5) by (metis fun_upd_apply)
next
  case (LogOut cookie)
  have "manager_do m e q st = st \<or> (\<exists>h r. to_delete ops e h st = (r, manager_do m e q st))"
    unfolding manager_do_def manager_end_def LogOut assms(1) by (auto split: option.splits prod.splits)
  then show ?thesis using delete_out [OF assms(2)] assms(5) by (metis fun_upd_apply)
next
  case SweepSessions
  obtain r st' where st': "to_delete_expired ops (nth_use 1 e) (now e) st = (r, st')" by force
  then have r: "to_delete_expired ops (nth_use 1 e) (now e) st = (r, manager_do m e q st)"
    unfolding manager_do_def manager_sweep_def SweepSessions assms(1) by simp
  show ?thesis
  proof (cases r)
    case (Inl err)
    with sweep_failed r assms(5) show ?thesis by metis
  next
    case (Inr n)
    from sweep_effect [OF assms(2) r [unfolded Inr]] assms(5) show ?thesis by simp
  qed
qed

lemma all_stay_dead:
  assumes "mg_store m = ops" "inv st" "tok st h = None"
    and "\<forall>(e, q) \<in> set qs. users_known known st q \<and> \<not> draws (mg_crypto m) e q h"
  shows "tok (manager_all m qs st) h = None"
  using assms(2-)
proof (induction qs arbitrary: st)
  case (Cons p qs)
  obtain e q where p: "p = (e, q)" by (cases p)
  have q: "users_known known st q" "\<not> draws (mg_crypto m) e q h" using Cons.prems(3) p by auto
  have k: "inv (manager_do m e q st)" "known (manager_do m e q st) = known st"
    using do_keeps [OF assms(1) Cons.prems(1) q(1)] by auto
  have "\<forall>(e', q') \<in> set qs. users_known known (manager_do m e q st) q' \<and> \<not> draws (mg_crypto m) e' q' h"
    using Cons.prems(3) k(2) by (auto simp: users_known_def split: session_call.splits)
  from Cons.IH [OF k(1) do_stays_dead [OF assms(1) Cons.prems(1) q Cons.prems(2)] this] show ?case by (simp add: p)
qed simp

text \<open>The session a login starts.\<close>

lemma start_ok:
  assumes "mg_store m = ops" "inv st" "up (nth_use 1 e)" "room st" "known st user" "user \<noteq> []"
    and "rand_read (mg_crypto m) e token_bytes = Inr raw"
    and "tok st (hash_token (mg_crypto m) (b64url_encode raw)) = None"
  shows "\<exists>c st'. manager_start m e user st = (Inr c, st') \<and> ck_value c = b64url_encode raw
    \<and> ck_http_only c \<and> ck_lax c \<and> ck_secure c = mg_secure m \<and> ck_expires c = now e + mg_ttl m
    \<and> inv st' \<and> tok st' = (tok st)(hash_token (mg_crypto m) (ck_value c) \<mapsto>
         \<lparr>lg_user = user, lg_expires = now e + mg_ttl m\<rparr>)"
proof -
  let ?s = "\<lparr>lg_user = user, lg_expires = now e + mg_ttl m\<rparr>"
  obtain st' where c: "to_create ops (nth_use 1 e) (hash_token (mg_crypto m) (b64url_encode raw)) ?s st = (Inr (), st')"
    using create_works [OF assms(2-4) _ assms(8), of ?s] assms(5) by auto
  with create_effect [OF assms(2) _ c] show ?thesis
    using assms(1,5-7) by (auto simp: manager_start_def session_cookie_def Let_def)
qed

lemma look_live:
  assumes "mg_store m = ops" "inv st" "up e" "v \<noteq> []" "tok st (hash_token (mg_crypto m) v) = Some s"
    and "now (nth_use 1 e) < lg_expires s"
  shows "manager_user_id m e (Some v) st = (Inr (lg_user s), st)"
  using assms(1,4,6) by_token_found [OF assms(2,3,5)] by (simp add: manager_user_id_def Let_def)

lemma look_dead:
  assumes "mg_store m = ops" "inv st" "up e" "up (nth_use 2 e)"
    and "case tok st (hash_token (mg_crypto m) v) of None \<Rightarrow> True | Some s \<Rightarrow> lg_expires s \<le> now (nth_use 1 e)"
  shows "\<exists>st'. manager_user_id m e (Some v) st = (Inl (Sentinel ErrNoSession), st')
    \<and> (v \<noteq> [] \<longrightarrow> tok st' = (tok st)(hash_token (mg_crypto m) v := None))"
proof (cases "v = []")
  case True
  then show ?thesis by (simp add: manager_user_id_def)
next
  case v: False
  show ?thesis
  proof (cases "tok st (hash_token (mg_crypto m) v)")
    case None
    with by_token_missing [OF assms(2,3) None] assms(1) v show ?thesis
      by (auto simp: manager_user_id_def Let_def fun_upd_idem)
  next
    case (Some s)
    obtain st' where d: "to_delete ops (nth_use 2 e) (hash_token (mg_crypto m) v) st = (Inr (), st')"
      using delete_works [OF assms(2,4)] by blast
    with delete_effect [OF assms(2) d] by_token_found [OF assms(2,3) Some] assms(1,5) Some v show ?thesis
      by (auto simp: manager_user_id_def Let_def)
  qed
qed

lemma look_sound:
  assumes "mg_store m = ops" "inv st" "fst (manager_user_id m e cookie st) = Inr user"
  shows "\<exists>v s. cookie = Some v \<and> tok st (hash_token (mg_crypto m) v) = Some s \<and> lg_user s = user
    \<and> now (nth_use 1 e) < lg_expires s \<and> snd (manager_user_id m e cookie st) = st"
  using assms
  by (auto simp: manager_user_id_def Let_def split: option.splits sum.splits prod.splits if_splits dest!: by_token_sound)

lemma end_ok:
  assumes "mg_store m = ops" "inv st" "up e" "v \<noteq> []"
  shows "\<exists>st'. manager_end m e (Some v) st = ((Inr (), clear_cookie m), st') \<and> inv st'
    \<and> tok st' = (tok st)(hash_token (mg_crypto m) v := None)"
  using delete_works [OF assms(2,3), of "hash_token (mg_crypto m) v"] delete_effect [OF assms(2)] assms(1,4)
  by (auto simp: manager_end_def)

end

end
