(* ===== verification/Invite_Service.thy ===== *)
theory Invite_Service
  imports Auth_Service Session_Manager
begin

text \<open>
  Invitations (internal/invite/invite.go): issuing, looking up, redeeming and sweeping them over
  any store, what the store promises (\<open>invite.Store\<close>, the locale \<open>invite_store\<close>), and that an
  account is made once, by an invitation for its address.
\<close>

section \<open>The service\<close>

record invitation =
  iv_email :: string
  iv_expires :: time
  iv_redeemed :: time
  iv_user :: string

record 'st invite_ops =
  io_create :: "env \<Rightarrow> 256 word \<Rightarrow> invitation \<Rightarrow> 'st \<Rightarrow> unit result \<times> 'st"
  io_by_token :: "env \<Rightarrow> 256 word \<Rightarrow> 'st \<Rightarrow> invitation result"
  io_redeem :: "env \<Rightarrow> 256 word \<Rightarrow> time \<Rightarrow> account \<Rightarrow> 'st \<Rightarrow> user result \<times> 'st"
  io_delete_spent :: "env \<Rightarrow> time \<Rightarrow> time \<Rightarrow> 'st \<Rightarrow> nat result \<times> 'st"

record 'st invite_service =
  is_store :: "'st invite_ops"
  is_ttl :: duration
  is_mail :: mail_env
  is_crypto :: crypto

definition default_invitation_ttl :: duration where "default_invitation_ttl = 48 * hour"

definition invite_with_ttl :: "duration \<Rightarrow> 'st invite_service \<Rightarrow> 'st invite_service" where
  "invite_with_ttl ttl s = s\<lparr>is_ttl := ttl\<rparr>"

definition invite_new_service ::
  "mail_env \<Rightarrow> crypto \<Rightarrow> 'st invite_ops option \<Rightarrow> ('st invite_service \<Rightarrow> 'st invite_service) list
     \<Rightarrow> 'st invite_service result" where
  "invite_new_service me cr store opts = (case store of
     None \<Rightarrow> Inl (Opaque ''invite: service: nil store'')
   | Some st \<Rightarrow>
       let s = fold (\<lambda>f s. f s) opts
         \<lparr>is_store = st, is_ttl = default_invitation_ttl, is_mail = me, is_crypto = cr\<rparr> in
       if is_ttl s \<le> 0 then Inl (Opaque ''invite: service: ttl must be positive'') else Inr s)"

definition redeemable :: "invitation \<Rightarrow> time \<Rightarrow> bool" where
  "redeemable i t \<longleftrightarrow> is_zero (iv_redeemed i) \<and> t < iv_expires i"

definition invite_create :: "'st invite_service \<Rightarrow> env \<Rightarrow> string \<Rightarrow> 'st \<Rightarrow> string result \<times> 'st" where
  "invite_create s e email st =
     (case bind_r (wrap_r ''invite: create'' (normalize_email (is_mail s) email)) (\<lambda>address.
             bind_r (wrap_r ''invite: create'' (rand_read (is_crypto s) e token_bytes)) (\<lambda>raw. Inr (address, raw))) of
        Inl err \<Rightarrow> (Inl err, st)
      | Inr (address, raw) \<Rightarrow>
          let token = b64url_encode raw in
          (case io_create (is_store s) (nth_use 1 e) (hash_token (is_crypto s) token)
              \<lparr>iv_email = address, iv_expires = now e + is_ttl s, iv_redeemed = 0, iv_user = []\<rparr> st of
             (Inl err, st') \<Rightarrow> (Inl (Wrap ''invite: create'' err), st')
           | (Inr _, st') \<Rightarrow> (Inr token, st')))"

definition invite_invited :: "'st invite_service \<Rightarrow> env \<Rightarrow> string \<Rightarrow> 'st \<Rightarrow> invitation result" where
  "invite_invited s e token st =
     (if token = [] then Inl (Sentinel ErrNotInvited)
      else case io_by_token (is_store s) e (hash_token (is_crypto s) token) st of
        Inl err \<Rightarrow> if errors_is err ErrNotInvited then Inl (Sentinel ErrNotInvited) else Inl (Wrap ''invite: lookup'' err)
      | Inr i \<Rightarrow> if redeemable i (now (nth_use 1 e)) then Inr i else Inl (Sentinel ErrNotInvited))"

definition invite_redeem ::
  "'st invite_service \<Rightarrow> env \<Rightarrow> string \<Rightarrow> string \<Rightarrow> string \<Rightarrow> 'st \<Rightarrow> user result \<times> 'st" where
  "invite_redeem s e token email password st =
     (if token = [] then (Inl (Sentinel ErrNotInvited), st)
      else let h = hash_token (is_crypto s) token in
        case io_by_token (is_store s) e h st of
          Inl err \<Rightarrow>
            (if errors_is err ErrNotInvited then Inl (Sentinel ErrNotInvited) else Inl (Wrap ''invite: redeem'' err), st)
        | Inr i \<Rightarrow>
            let t0 = now (nth_use 1 e) in
            if \<not> redeemable i t0 then (Inl (Sentinel ErrNotInvited), st)
            else case normalize_email (is_mail s) email of
              Inl _ \<Rightarrow> (Inl (Sentinel ErrNotInvited), st)
            | Inr address \<Rightarrow>
                if address \<noteq> iv_email i then (Inl (Sentinel ErrNotInvited), st)
                else case hash_password (is_crypto s) e password of
                  Inl err \<Rightarrow> (Inl err, st)
                | Inr hash \<Rightarrow>
                    (case io_redeem (is_store s) (nth_use 2 e) h t0
                        \<lparr>ac_user = zero_user\<lparr>us_email := address\<rparr>, ac_hash = hash\<rparr> st of
                       (Inl err, st') \<Rightarrow>
                         (if errors_is err ErrNotInvited then Inl (Sentinel ErrNotInvited)
                          else Inl (Wrap ''invite: redeem'' err), st')
                     | (Inr user, st') \<Rightarrow> (Inr user, st')))"

definition invite_sweep :: "'st invite_service \<Rightarrow> env \<Rightarrow> 'st \<Rightarrow> nat result \<times> 'st" where
  "invite_sweep s e st =
     (case io_delete_spent (is_store s) (nth_use 1 e) (now e) (now e - is_ttl s) st of
        (r, st') \<Rightarrow> (wrap_r ''invite: sweep'' r, st'))"

section \<open>What the store promises\<close>

text \<open>An invitation as it is seen once it is spent by the new account \<open>w\<close>.\<close>

definition spent_by :: "time \<Rightarrow> user \<Rightarrow> invitation \<Rightarrow> invitation" where
  "spent_by t w i = i\<lparr>iv_redeemed := t, iv_user := us_id w\<rparr>"

locale invite_store =
  fixes ops :: "'st invite_ops"
    and up :: "env \<Rightarrow> bool"
    and room :: "'st \<Rightarrow> bool"
    and fits :: "account \<Rightarrow> bool"
    and inv :: "'st \<Rightarrow> bool"
    and acc :: "'st \<Rightarrow> string \<Rightarrow> (string \<times> string) option"
    and ivt :: "'st \<Rightarrow> 256 word \<Rightarrow> invitation option"
  assumes inv_found: "inv st \<Longrightarrow> up e \<Longrightarrow> ivt st h = Some i \<Longrightarrow> io_by_token ops e h st = Inr i"
    and inv_sound: "inv st \<Longrightarrow> io_by_token ops e h st = Inr i \<Longrightarrow> ivt st h = Some i"
    and inv_missing: "inv st \<Longrightarrow> up e \<Longrightarrow> ivt st h = None \<Longrightarrow>
        \<exists>err. io_by_token ops e h st = Inl err \<and> errors_is err ErrNotInvited"
    and issue_effect: "inv st \<Longrightarrow> io_create ops e h i st = (Inr (), st') \<Longrightarrow> iv_redeemed i = 0 \<Longrightarrow> iv_user i = [] \<Longrightarrow>
        inv st' \<and> ivt st h = None \<and> ivt st' = (ivt st)(h \<mapsto> i) \<and> acc st' = acc st"
    and issue_failed: "io_create ops e h i st = (Inl err, st') \<Longrightarrow> st' = st"
    and redeem_works: "inv st \<Longrightarrow> up e \<Longrightarrow> room st \<Longrightarrow> fits r \<Longrightarrow> ivt st h = Some i \<Longrightarrow> redeemable i t \<Longrightarrow>
        iv_email i = us_email (ac_user r) \<Longrightarrow> acc st (iv_email i) = None \<Longrightarrow> \<exists>w st'. io_redeem ops e h t r st = (Inr w, st')"
    and redeem_effect: "inv st \<Longrightarrow> \<not> is_zero t \<Longrightarrow> io_redeem ops e h t r st = (Inr w, st') \<Longrightarrow>
        inv st' \<and> us_email w = us_email (ac_user r) \<and> acc st (us_email w) = None
        \<and> acc st' = (acc st)(us_email w \<mapsto> (us_id w, ac_hash r))
        \<and> (\<exists>i. ivt st h = Some i \<and> redeemable i t \<and> iv_email i = us_email w \<and> ivt st' = (ivt st)(h \<mapsto> spent_by t w i))"
    and redeem_refused: "inv st \<Longrightarrow> up e \<Longrightarrow> (case ivt st h of None \<Rightarrow> True | Some i \<Rightarrow> \<not> redeemable i t) \<Longrightarrow>
        \<exists>err. io_redeem ops e h t r st = (Inl err, st) \<and> errors_is err ErrNotInvited"
    and redeem_failed: "io_redeem ops e h t r st = (Inl err, st') \<Longrightarrow> st' = st"
    and spent_effect: "inv st \<Longrightarrow> io_delete_spent ops e t t' st = (Inr n, st') \<Longrightarrow>
        inv st' \<and> acc st' = acc st \<and> (\<forall>h. ivt st' h = (case ivt st h of None \<Rightarrow> None
          | Some i \<Rightarrow> if (if is_zero (iv_redeemed i) then iv_expires i < t else iv_redeemed i < t') then None else Some i))"
    and spent_failed: "io_delete_spent ops e t t' st = (Inl err, st') \<Longrightarrow> st' = st"

section \<open>An invitation makes one account\<close>

datatype invite_call = Issue string | Ask string | Redeem string string string | SweepInvitations

text \<open>A call, with the token of a redemption that made an account, or of an invitation issued.\<close>

datatype invite_event = Quiet | Issued "256 word" | Redeemed "256 word" string

definition invite_do :: "'st invite_service \<Rightarrow> env \<Rightarrow> invite_call \<Rightarrow> 'st \<Rightarrow> invite_event \<times> 'st" where
  "invite_do s e q st = (case q of
     Issue email \<Rightarrow> (case invite_create s e email st of
         (Inr token, st') \<Rightarrow> (Issued (hash_token (is_crypto s) token), st') | (Inl _, st') \<Rightarrow> (Quiet, st'))
   | Ask token \<Rightarrow> (Quiet, st)
   | Redeem token email password \<Rightarrow> (case invite_redeem s e token email password st of
         (Inr w, st') \<Rightarrow> (Redeemed (hash_token (is_crypto s) token) (us_email w), st') | (Inl _, st') \<Rightarrow> (Quiet, st'))
   | SweepInvitations \<Rightarrow> (Quiet, snd (invite_sweep s e st)))"

fun invite_all :: "'st invite_service \<Rightarrow> (env \<times> invite_call) list \<Rightarrow> 'st \<Rightarrow> invite_event list \<times> 'st" where
  "invite_all s [] st = ([], st)"
| "invite_all s ((e, q) # qs) st =
     (let (ev, st1) = invite_do s e q st; (evs, st2) = invite_all s qs st1 in (ev # evs, st2))"

text \<open>The clock has started: no call redeems at the zero time.\<close>

definition clock_runs :: "env \<Rightarrow> bool" where
  "clock_runs e \<longleftrightarrow> (\<forall>k. 0 < clock e k)"

lemma clock_runs_now: "clock_runs e \<Longrightarrow> now (nth_use k e) \<noteq> 0"
  by (auto simp: clock_runs_def now_def nth_use_def later_def dest: spec [of _ "8 * k"])

definition times_redeemed :: "256 word \<Rightarrow> invite_event list \<Rightarrow> nat" where
  "times_redeemed h evs = length (filter (\<lambda>ev. case ev of Redeemed h' _ \<Rightarrow> h' = h | _ \<Rightarrow> False) evs)"

definition times_issued :: "256 word \<Rightarrow> invite_event list \<Rightarrow> nat" where
  "times_issued h evs = length (filter (\<lambda>ev. ev = Issued h) evs)"

lemma times_Cons:
  "times_redeemed h (ev # evs) = (case ev of Redeemed h' _ \<Rightarrow> if h' = h then 1 else 0 | _ \<Rightarrow> 0) + times_redeemed h evs"
  "times_issued h (ev # evs) = (if ev = Issued h then 1 else 0) + times_issued h evs"
  by (simp_all add: times_redeemed_def times_issued_def split: invite_event.splits)

lemma redeemed_emails_empty [simp]: "times_redeemed h [] = 0" "times_issued h [] = 0"
  by (simp_all add: times_redeemed_def times_issued_def)

context invite_store begin

lemma create_Inr:
  assumes "is_store s = ops" "inv st" "invite_create s e email st = (Inr token, st')"
  shows "\<exists>m. normalize_email (is_mail s) email = Inr m \<and> inv st' \<and> acc st' = acc st
    \<and> ivt st (hash_token (is_crypto s) token) = None
    \<and> ivt st' = (ivt st)(hash_token (is_crypto s) token \<mapsto>
        \<lparr>iv_email = m, iv_expires = now e + is_ttl s, iv_redeemed = 0, iv_user = []\<rparr>)"
proof -
  obtain m raw where m: "normalize_email (is_mail s) email = Inr m" "token = b64url_encode raw"
      "io_create ops (nth_use 1 e) (hash_token (is_crypto s) token)
        \<lparr>iv_email = m, iv_expires = now e + is_ttl s, iv_redeemed = 0, iv_user = []\<rparr> st = (Inr (), st')"
    using assms(1,3) by (auto simp: invite_create_def result_iff Let_def split: sum.splits prod.splits)
  with issue_effect [OF assms(2) m(3)] show ?thesis by simp
qed

lemma create_Inl:
  assumes "is_store s = ops" "invite_create s e email st = (Inl err, st')"
  shows "st' = st"
proof -
  have "io_create (is_store s) e' h i st = (Inl err', st') \<Longrightarrow> st' = st" for e' h i err'
    unfolding assms(1) by (rule issue_failed)
  then show ?thesis using assms(2)
    by (auto simp: invite_create_def Let_def split: sum.splits prod.splits)
qed

lemma redeem_Inr:
  assumes "is_store s = ops" "inv st" "clock_runs e" "invite_redeem s e token email password st = (Inr w, st')"
  shows "\<exists>i hash. normalize_email (is_mail s) email = Inr (us_email w) \<and> inv st'
    \<and> ivt st (hash_token (is_crypto s) token) = Some i \<and> redeemable i (now (nth_use 1 e)) \<and> iv_email i = us_email w
    \<and> hash_password (is_crypto s) e password = Inr hash \<and> acc st (us_email w) = None
    \<and> acc st' = (acc st)(us_email w \<mapsto> (us_id w, hash))
    \<and> ivt st' = (ivt st)(hash_token (is_crypto s) token \<mapsto> spent_by (now (nth_use 1 e)) w i)"
proof -
  obtain m hash where m: "normalize_email (is_mail s) email = Inr m" "hash_password (is_crypto s) e password = Inr hash"
      "io_redeem ops (nth_use 2 e) (hash_token (is_crypto s) token) (now (nth_use 1 e))
        \<lparr>ac_user = zero_user\<lparr>us_email := m\<rparr>, ac_hash = hash\<rparr> st = (Inr w, st')"
    using assms(1,4) by (auto simp: invite_redeem_def Let_def split: sum.splits prod.splits if_splits)
  with redeem_effect [OF assms(2) clock_runs_now [OF assms(3)] m(3)] show ?thesis by auto
qed

lemma redeem_Inl:
  assumes "is_store s = ops" "invite_redeem s e token email password st = (Inl err, st')"
  shows "st' = st"
proof -
  have "io_redeem (is_store s) e' h t r st = (Inl err', st') \<Longrightarrow> st' = st" for e' h t r err'
    unfolding assms(1) by (rule redeem_failed)
  then show ?thesis using assms(2)
    by (auto simp: invite_redeem_def Let_def split: sum.splits prod.splits if_splits)
qed

lemma sweep_effect:
  assumes "is_store s = ops" "inv st"
  shows "inv (snd (invite_sweep s e st)) \<and> acc (snd (invite_sweep s e st)) = acc st
    \<and> (\<forall>h i. ivt (snd (invite_sweep s e st)) h = Some i \<longrightarrow> ivt st h = Some i)"
proof -
  obtain r st' where r: "io_delete_spent ops (nth_use 1 e) (now e) (now e - is_ttl s) st = (r, st')" by (metis surj_pair)
  have "inv st' \<and> acc st' = acc st \<and> (\<forall>h i. ivt st' h = Some i \<longrightarrow> ivt st h = Some i)"
  proof (cases r)
    case (Inl err)
    then show ?thesis using spent_failed r assms(2) by blast
  next
    case (Inr n)
    from spent_effect [OF assms(2) r [unfolded Inr]] show ?thesis by (auto split: option.splits if_splits)
  qed
  then show ?thesis using r assms(1) by (simp add: invite_sweep_def)
qed

text \<open>
  What one call does to one token: it is issued, it is redeemed (and was redeemable before and
  is not after), or what is seen of it is unchanged or gone.
\<close>

lemma do_token:
  assumes "is_store s = ops" "inv st" "clock_runs e" "invite_do s e q st = (ev, st')"
  shows "inv st' \<and>
    (case ev of
       Issued h' \<Rightarrow> ivt st h' = None \<and> (\<forall>h. h \<noteq> h' \<longrightarrow> ivt st' h = ivt st h) \<and> acc st' = acc st
     | Redeemed h' m \<Rightarrow> (\<exists>i i' u. ivt st h' = Some i \<and> is_zero (iv_redeemed i) \<and> iv_email i = m
         \<and> ivt st' h' = Some i' \<and> \<not> is_zero (iv_redeemed i') \<and> (\<forall>h. h \<noteq> h' \<longrightarrow> ivt st' h = ivt st h)
         \<and> acc st m = None \<and> acc st' = (acc st)(m \<mapsto> u))
     | Quiet \<Rightarrow> (\<forall>h i. ivt st' h = Some i \<longrightarrow> ivt st h = Some i) \<and> acc st' = acc st)"
proof (cases q)
  case (Issue email)
  obtain r where c: "invite_create s e email st = (r, st')"
    using assms(4) by (auto simp: Issue invite_do_def split: prod.splits sum.splits)
  show ?thesis
  proof (cases r)
    case (Inl err)
    then have "st' = st" "ev = Quiet"
      using create_Inl [OF assms(1) c [unfolded Inl]] assms(4) c by (simp_all add: Issue invite_do_def)
    then show ?thesis using assms(2) by simp
  next
    case (Inr token)
    with create_Inr [OF assms(1,2) c [unfolded Inr]] assms(4) c show ?thesis by (auto simp: Issue invite_do_def)
  qed
next
  case (Ask token)
  then show ?thesis using assms(2,4) by (auto simp: invite_do_def)
next
  case (Redeem token email password)
  obtain r where c: "invite_redeem s e token email password st = (r, st')"
    using assms(4) by (auto simp: Redeem invite_do_def split: prod.splits sum.splits)
  show ?thesis
  proof (cases r)
    case (Inl err)
    then have "st' = st" "ev = Quiet"
      using redeem_Inl [OF assms(1) c [unfolded Inl]] assms(4) c by (simp_all add: Redeem invite_do_def)
    then show ?thesis using assms(2) by simp
  next
    case (Inr w)
    note t0 = clock_runs_now [OF assms(3), of 1]
    from redeem_Inr [OF assms(1-3) c [unfolded Inr]] obtain i hash where x: "inv st'"
        "ivt st (hash_token (is_crypto s) token) = Some i" "is_zero (iv_redeemed i)" "iv_email i = us_email w"
        "acc st (us_email w) = None" "acc st' = (acc st)(us_email w \<mapsto> (us_id w, hash))"
        "ivt st' = (ivt st)(hash_token (is_crypto s) token \<mapsto> spent_by (now (nth_use 1 e)) w i)"
      by (auto simp: redeemable_def)
    have ev: "ev = Redeemed (hash_token (is_crypto s) token) (us_email w)"
      using assms(4) c Inr by (simp add: Redeem invite_do_def)
    have "\<not> is_zero (iv_redeemed (spent_by (now (nth_use 1 e)) w i))" using t0 by (simp add: spent_by_def)
    then show ?thesis using x by (simp add: ev, metis)
  qed
next
  case SweepInvitations
  then show ?thesis using sweep_effect [OF assms(1,2), of e] assms(4) by (auto simp: invite_do_def)
qed

text \<open>
  Over any run: every redemption of a token but one needs an issue of that token in the run, and
  a token that is spent or unknown at the start needs one for each.
\<close>

lemma redeemed_at_most:
  assumes "is_store s = ops" "\<forall>(e, q) \<in> set qs. clock_runs e" "inv st" "invite_all s qs st = (evs, st')"
  shows "times_redeemed h evs \<le> times_issued h evs
     + (case ivt st h of None \<Rightarrow> 0 | Some i \<Rightarrow> if is_zero (iv_redeemed i) then 1 else 0)"
  using assms(2-)
proof (induction qs arbitrary: st evs)
  case Nil
  then show ?case by simp
next
  case (Cons p qs)
  obtain e q where p: "p = (e, q)" by (cases p)
  obtain ev st1 where d: "invite_do s e q st = (ev, st1)" by (metis surj_pair)
  obtain evs' where a: "invite_all s qs st1 = (evs', st')" and evs: "evs = ev # evs'"
    using Cons.prems(3) d by (auto simp: p split: prod.splits)
  let ?left = "\<lambda>st. (case ivt st h of None \<Rightarrow> 0 | Some i \<Rightarrow> if is_zero (iv_redeemed i) then 1 else 0) :: nat"
  have c: "clock_runs e" using Cons.prems(1) p by auto
  note t = do_token [OF assms(1) Cons.prems(2) c d]
  have "times_redeemed h evs' \<le> times_issued h evs' + ?left st1"
    using Cons.IH [OF _ _ a] Cons.prems(1) t by auto
  moreover have "(case ev of Redeemed h' _ \<Rightarrow> if h' = h then 1 else 0 | _ \<Rightarrow> 0) + ?left st1
      \<le> (if ev = Issued h then 1 else 0) + ?left st"
  proof (cases ev)
    case Quiet
    then have "\<And>i. ivt st1 h = Some i \<Longrightarrow> ivt st h = Some i" using t by auto
    then show ?thesis by (cases "ivt st1 h") (simp_all add: Quiet)
  next
    case (Issued h')
    then show ?thesis using t by (cases "h' = h") (auto split: option.splits)
  next
    case (Redeemed h' m)
    then show ?thesis using t by (cases "h' = h") (auto split: option.splits)
  qed
  ultimately show ?case by (simp add: evs times_Cons)
qed

text \<open>Every account that appears in a run was redeemed for its own address.\<close>

lemma accounts_are_invited:
  assumes "is_store s = ops" "\<forall>(e, q) \<in> set qs. clock_runs e" "inv st" "invite_all s qs st = (evs, st')"
    and "acc st m = None" "acc st' m \<noteq> None"
  shows "\<exists>h. Redeemed h m \<in> set evs"
  using assms(2-)
proof (induction qs arbitrary: st evs)
  case (Cons p qs)
  obtain e q where p: "p = (e, q)" by (cases p)
  obtain ev st1 where d: "invite_do s e q st = (ev, st1)" by (metis surj_pair)
  obtain evs' where a: "invite_all s qs st1 = (evs', st')" and evs: "evs = ev # evs'"
    using Cons.prems(3) d by (auto simp: p split: prod.splits)
  have c: "clock_runs e" using Cons.prems(1) p by auto
  note t = do_token [OF assms(1) Cons.prems(2) c d]
  show ?case
  proof (cases "acc st1 m = None")
    case True
    then have "\<exists>h. Redeemed h m \<in> set evs'" using Cons.IH [OF _ _ a] Cons.prems t by auto
    then show ?thesis by (auto simp: evs)
  next
    case False
    then show ?thesis using t Cons.prems(4) by (cases ev) (auto simp: evs split: if_splits)
  qed
qed simp

lemma redeem_ok:
  assumes "is_store s = ops" "inv st" "up e" "up (nth_use 2 e)" "room st" "token \<noteq> []"
    and "ivt st (hash_token (is_crypto s) token) = Some i" "redeemable i (now (nth_use 1 e))"
    and "normalize_email (is_mail s) email = Inr (iv_email i)" "acc st (iv_email i) = None"
    and "hash_password (is_crypto s) e password = Inr hash"
    and "fits \<lparr>ac_user = zero_user\<lparr>us_email := iv_email i\<rparr>, ac_hash = hash\<rparr>" "clock_runs e"
  shows "\<exists>w st'. invite_redeem s e token email password st = (Inr w, st') \<and> us_email w = iv_email i
    \<and> acc st' = (acc st)(iv_email i \<mapsto> (us_id w, hash)) \<and> inv st'
    \<and> ivt st' = (ivt st)(hash_token (is_crypto s) token \<mapsto> spent_by (now (nth_use 1 e)) w i)"
proof -
  let ?r = "\<lparr>ac_user = zero_user\<lparr>us_email := iv_email i\<rparr>, ac_hash = hash\<rparr>"
  obtain w st' where c: "io_redeem ops (nth_use 2 e) (hash_token (is_crypto s) token) (now (nth_use 1 e)) ?r st = (Inr w, st')"
    using redeem_works [OF assms(2,4,5,12,7,8)] assms(10) by auto
  from redeem_effect [OF assms(2) clock_runs_now [OF assms(13)] c] have "us_email w = iv_email i
    \<and> acc st' = (acc st)(us_email w \<mapsto> (us_id w, hash)) \<and> inv st'
    \<and> (\<exists>i. ivt st (hash_token (is_crypto s) token) = Some i
      \<and> ivt st' = (ivt st)(hash_token (is_crypto s) token \<mapsto> spent_by (now (nth_use 1 e)) w i))" by (simp, blast)
  then have "us_email w = iv_email i
    \<and> acc st' = (acc st)(iv_email i \<mapsto> (us_id w, hash)) \<and> inv st'
    \<and> ivt st' = (ivt st)(hash_token (is_crypto s) token \<mapsto> spent_by (now (nth_use 1 e)) w i)"
    unfolding assms(7) by (elim conjE exE) simp
  moreover have "invite_redeem s e token email password st = (Inr w, st')"
    unfolding invite_redeem_def Let_def assms(1)
    using assms(6,8,9,11) inv_found [OF assms(2,3,7)] c by simp
  ultimately show ?thesis by blast
qed

lemma redeem_useless:
  assumes "is_store s = ops" "inv st" "up e"
    and "case ivt st (hash_token (is_crypto s) token) of None \<Rightarrow> True
      | Some i \<Rightarrow> \<not> redeemable i (now (nth_use 1 e)) \<or> normalize_email (is_mail s) email \<noteq> Inr (iv_email i)"
  shows "invite_redeem s e token email password st = (Inl (Sentinel ErrNotInvited), st)"
proof (cases "ivt st (hash_token (is_crypto s) token)")
  case None
  from inv_missing [OF assms(2,3) None] show ?thesis using assms(1) by (auto simp: invite_redeem_def Let_def)
next
  case (Some i)
  from inv_found [OF assms(2,3) Some] show ?thesis using assms(1,4) Some
    by (auto simp: invite_redeem_def Let_def split: sum.splits)
qed

end

end
