(* ===== verification/Web_Page.thy ===== *)
theory Web_Page
  imports Web_Proxies Session_Manager Invite_Service Game_Service
begin

text \<open>
  Requests and responses of the web terminal (httpserver): reading a form, the views the
  templates draw, and the answers every handler gives in the same way.

  A page is the view its template is given; the markup is not modelled. A \<open>Location\<close> or
  \<open>HX-Redirect\<close> is its path and its query, before they are escaped. A request's path is what
  follows its first slash, cut at the slashes and unescaped; it is a clean one: \<open>ServeMux\<close>
  redirects a path with empty, \<open>.\<close> or \<open>..\<close> elements to the path without them before it looks for a route.
\<close>

section \<open>Requests and forms\<close>

datatype form_type = UrlEncoded | OtherType | BadType

record request =
  rq_method :: string
  rq_path :: "string list"
  rq_peer :: peer_info
  rq_query :: string
  rq_type :: form_type
  rq_body :: string
  rq_cookie :: "string option"
  rq_hx :: string
  rq_fetch_site :: string
  rq_origin :: "string option"
  rq_host :: string

definition max_form_bytes :: nat where "max_form_bytes = 16 * 1024"

text \<open>\<open>url.QueryUnescape\<close> and \<open>url.ParseQuery\<close>: the pairs that read, and whether all did.\<close>

fun query_unescape :: "string \<Rightarrow> string option" where
  "query_unescape [] = Some []"
| "query_unescape (c # cs) =
     (if c = CHR ''%'' then
        (case cs of
           h # l # rest \<Rightarrow>
             (case (hex_value h, hex_value l) of
                (Some a, Some b) \<Rightarrow> map_option ((#) (char_of (16 * a + b))) (query_unescape rest)
              | _ \<Rightarrow> None)
         | _ \<Rightarrow> None)
      else map_option ((#) (if c = CHR ''+'' then CHR '' '' else c)) (query_unescape cs))"

definition query_pair :: "string \<Rightarrow> (string \<times> string) option" where
  "query_pair s =
     (let k = before CHR ''='' s; v = drop (Suc (length k)) s in
      if CHR '';'' \<in> set s then None
      else case (query_unescape k, query_unescape v) of (Some k, Some v) \<Rightarrow> Some (k, v) | _ \<Rightarrow> None)"

definition parse_query :: "string \<Rightarrow> (string \<times> string) list \<times> bool" where
  "parse_query s =
     (let ps = map query_pair (filter (\<lambda>p. p \<noteq> []) (split_on CHR ''&'' s)) in
      (map the (filter (\<lambda>p. p \<noteq> None) ps), None \<notin> set ps))"

definition form_get :: "(string \<times> string) list \<Rightarrow> string \<Rightarrow> string" where
  "form_get vs k = (case map_of vs k of Some v \<Rightarrow> v | None \<Rightarrow> [])"

definition query_get :: "request \<Rightarrow> string \<Rightarrow> string" where
  "query_get r k = form_get (fst (parse_query (rq_query r))) k"

text \<open>\<open>parseForm\<close>: the posted pairs. A body past the limit does not read.\<close>

definition parse_form :: "request \<Rightarrow> (string \<times> string) list result" where
  "parse_form r =
     (let bad = Inl (Opaque ''http: malformed form'');
          ok = snd (parse_query (rq_query r)) in
      case rq_type r of
        BadType \<Rightarrow> bad
      | OtherType \<Rightarrow> if ok then Inr [] else bad
      | UrlEncoded \<Rightarrow>
          if max_form_bytes < length (rq_body r) then Inl (Opaque ''http: request body too large'')
          else let (vs, good) = parse_query (rq_body r) in if good \<and> ok then Inr vs else bad)"

definition is_htmx :: "request \<Rightarrow> bool" where
  "is_htmx r \<longleftrightarrow> rq_hx r = ''true''"

section \<open>Views\<close>

record credentials_view =
  cv_email :: string
  cv_error :: string
  cv_min_password :: nat
  cv_invite :: string
  cv_invited :: bool

definition no_credentials :: credentials_view where
  "no_credentials = \<lparr>cv_email = [], cv_error = [], cv_min_password = 0, cv_invite = [], cv_invited = False\<rparr>"

record game_item =
  gi_id :: string
  gi_story :: string
  gi_turn :: int
  gi_halted :: bool

record lobby_view =
  lv_email :: string
  lv_notice :: string
  lv_games :: "game_item list"
  lv_stories :: "(string \<times> string) list"

record save_item =
  si_id :: string
  si_name :: string
  si_turn :: int
  si_created :: time

record status_view =
  vs_available :: bool
  vs_name :: string
  vs_score :: "16 word"
  vs_moves :: "16 word"
  vs_time_game :: bool
  vs_time :: string

record prompt_view =
  pv_id :: string
  pv_mode :: string
  pv_halted :: bool
  pv_max_command :: nat
  pv_max_save_name :: nat
  pv_saves :: "save_item list"

record game_view =
  gv_id :: string
  gv_story :: string
  gv_transcript :: string
  gv_status :: status_view
  gv_notice :: string
  gv_prompt :: prompt_view

text \<open>\<open>terminal.Clock\<close>: the hour a time game reports.\<close>

definition clock_text :: "8 word \<Rightarrow> 8 word \<Rightarrow> string" where
  "clock_text hours minutes =
     (let h = unat hours mod 12; m = nat_digits (unat minutes) in
      nat_digits (if h = 0 then 12 else h) @ '':'' @ (if length m < 2 then ''0'' @ m else m)
        @ (if 12 \<le> unat hours then '' pm'' else '' am''))"

definition stored_status_view :: "status_line \<Rightarrow> status_view" where
  "stored_status_view s = \<lparr>vs_available = sl_available s, vs_name = sl_name s, vs_score = sl_score s,
     vs_moves = sl_moves s, vs_time_game = sl_time_game s,
     vs_time = (if sl_time_game s then clock_text (sl_hours s) (sl_minutes s) else [])\<rparr>"

definition new_status_view :: "z_status \<Rightarrow> status_view" where
  "new_status_view s = stored_status_view (status_of s)"

definition new_prompt_view :: "string \<Rightarrow> string \<Rightarrow> bool \<Rightarrow> prompt_view" where
  "new_prompt_view i mode halted = \<lparr>pv_id = i, pv_mode = mode, pv_halted = halted,
     pv_max_command = max_command_bytes, pv_max_save_name = max_save_name_bytes, pv_saves = []\<rparr>"

definition save_rows :: "save list \<Rightarrow> save_item list" where
  "save_rows saves = map (\<lambda>s. \<lparr>si_id = sv_id s, si_name = sv_name s, si_turn = sv_turn s, si_created = sv_created s\<rparr>) saves"

text \<open>\<open>trimPrompt\<close>: the story's trailing prompt is drawn by the command field.\<close>

definition trim_prompt :: "string \<Rightarrow> string" where
  "trim_prompt t = (if t \<noteq> [] \<and> last t = CHR ''>'' then butlast t else t)"

section \<open>Responses\<close>

type_synonym location = "string \<times> (string \<times> string) list"

datatype page = LoginPage credentials_view | RegisterPage credentials_view | LobbyPage lobby_view | GamePage game_view

datatype fragment = TurnFragment string string | StatusFragment status_view | UpperFragment string | PromptFragment prompt_view

datatype body = NoBody | PageBody page | Fragments "fragment list" | PlainText string
  | StaticFile "string list" | Listing "string list"

record response =
  rs_status :: nat
  rs_location :: "location option"
  rs_hx_redirect :: "location option"
  rs_cookie :: "set_cookie option"
  rs_retry_after :: "int option"
  rs_body :: body

definition answer_plain :: "nat \<Rightarrow> body \<Rightarrow> response" where
  "answer_plain status body = \<lparr>rs_status = status, rs_location = None, rs_hx_redirect = None, rs_cookie = None,
     rs_retry_after = None, rs_body = body\<rparr>"

definition render_page :: "nat \<Rightarrow> page \<Rightarrow> response" where
  "render_page status p = answer_plain status (PageBody p)"

definition render_fragment :: "fragment list \<Rightarrow> response" where
  "render_fragment fs = answer_plain 200 (Fragments fs)"

definition http_error :: "string \<Rightarrow> nat \<Rightarrow> response" where
  "http_error msg status = answer_plain status (PlainText (msg @ [CHR 0x0A]))"

definition not_found :: response where
  "not_found = http_error ''404 page not found'' 404"

definition redirect :: "location \<Rightarrow> response" where
  "redirect to = (answer_plain 303 NoBody)\<lparr>rs_location := Some to\<rparr>"

definition fail :: response where
  "fail = http_error ''Something went wrong.'' 500"

text \<open>What a handler that returns without writing leaves: an empty answer with status 200.\<close>

definition no_answer :: response where
  "no_answer = answer_plain 200 NoBody"

text \<open>A handler that panics: net/http recovers, and closes the connection with no response at all.\<close>

definition aborted :: response where
  "aborted = answer_plain 0 NoBody"

definition send_to :: "request \<Rightarrow> location \<Rightarrow> response" where
  "send_to r to = (if is_htmx r then (answer_plain 200 NoBody)\<lparr>rs_hx_redirect := Some to\<rparr> else redirect to)"

definition redirect_to_login :: "request \<Rightarrow> response" where
  "redirect_to_login r =
     (if is_htmx r then (answer_plain 401 NoBody)\<lparr>rs_hx_redirect := Some (''/login'', [])\<rparr> else redirect (''/login'', []))"

definition game_path :: "string \<Rightarrow> string" where
  "game_path i = ''/games/'' @ i"

definition redraw_game :: "request \<Rightarrow> string \<Rightarrow> response" where
  "redraw_game r i = send_to r (game_path i, [])"

definition redirect_to_saves :: "request \<Rightarrow> string \<Rightarrow> string \<Rightarrow> string \<Rightarrow> response" where
  "redirect_to_saves r i mode notice =
     send_to r (game_path i @ ''/saves'',
       (if notice \<noteq> [] then [(''notice'', notice)] else []) @ (if mode = ''save'' then [(''prompt'', ''save'')] else []))"

definition redirect_to_restart :: "request \<Rightarrow> string \<Rightarrow> response" where
  "redirect_to_restart r i = send_to r (game_path i, [(''prompt'', ''restart'')])"

definition answer_turn :: "request \<Rightarrow> string \<Rightarrow> string \<Rightarrow> string \<Rightarrow> response" where
  "answer_turn r i command message =
     (if \<not> is_htmx r then redirect (game_path i, [(''notice'', message)])
      else render_fragment [TurnFragment command (''['' @ message @ '']'' @ [CHR 0x0A, CHR 0x0A])])"

definition prompt_mode :: "intent \<Rightarrow> string" where
  "prompt_mode x = (case x of IntentSave \<Rightarrow> ''save'' | IntentRestart \<Rightarrow> ''restart'' | _ \<Rightarrow> ''restore'')"

text \<open>\<open>retryAfterSeconds\<close>: Go's division truncates; a wait is never negative.\<close>

definition retry_after_seconds :: "duration \<Rightarrow> int" where
  "retry_after_seconds retry = max 1 ((int64 (retry + second - 1)) div second)"

end
