(* ===== verification/Health_Probe.thy ===== *)
theory Health_Probe
  imports Rate_Limit
begin

text \<open>
  The database health probe (httpserver/health.go). \<open>Run\<close> is one goroutine that waits for a tick,
  a result or the end of its context, and starts another that pings the database and posts its
  result to a channel with room for one. The state is what both see; a step is one turn of
  either, and any interleaving may happen.

  The two failure counters count one per failed ping, every thirty seconds at most, so 64 bits
  are never reached.
\<close>

section \<open>Snapshots\<close>

datatype health_status = HealthUnknown | HealthHealthy | HealthFailing | HealthStale

record health_snapshot =
  hs_status :: health_status
  hs_recorded :: time
  hs_duration :: duration
  hs_last_good :: duration
  hs_consecutive :: nat
  hs_total :: nat
  hs_failed_at :: time
  hs_failed_duration :: duration
  hs_error :: "goerr option"

definition health_probe_interval :: duration where "health_probe_interval = 30 * second"
definition health_probe_timeout :: duration where "health_probe_timeout = minute"
definition health_stale_after :: duration where "health_stale_after = 3 * health_probe_interval"

definition new_probe :: health_snapshot where
  "new_probe = \<lparr>hs_status = HealthUnknown, hs_recorded = 0, hs_duration = 0, hs_last_good = 0, hs_consecutive = 0,
     hs_total = 0, hs_failed_at = 0, hs_failed_duration = 0, hs_error = None\<rparr>"

text \<open>\<open>Snapshot\<close>, at the time \<open>t\<close>.\<close>

definition snapshot_at :: "time \<Rightarrow> health_snapshot \<Rightarrow> health_snapshot" where
  "snapshot_at t h =
     (if \<not> is_zero (hs_recorded h) \<and> health_stale_after < time_sub t (hs_recorded h) then h\<lparr>hs_status := HealthStale\<rparr> else h)"

definition health_ok :: "time \<Rightarrow> health_snapshot \<Rightarrow> bool" where
  "health_ok t h \<longleftrightarrow> hs_status (snapshot_at t h) = HealthHealthy"

record probe_result =
  pr_finished :: time
  pr_duration :: duration
  pr_error :: "goerr option"

definition record_result :: "probe_result \<Rightarrow> health_snapshot \<Rightarrow> health_snapshot" where
  "record_result r previous =
     (let next = previous\<lparr>hs_recorded := pr_finished r, hs_duration := pr_duration r, hs_error := None\<rparr> in
      case pr_error r of
        None \<Rightarrow> next\<lparr>hs_status := HealthHealthy, hs_consecutive := 0, hs_last_good := pr_duration r\<rparr>
      | Some err \<Rightarrow> next\<lparr>hs_status := HealthFailing, hs_consecutive := hs_consecutive previous + 1,
          hs_total := hs_total previous + 1, hs_failed_at := pr_finished r, hs_failed_duration := pr_duration r,
          hs_error := Some err\<rparr>)"

section \<open>The loop\<close>

text \<open>
  \<open>pb_pings\<close>: when each ping now running was started. \<open>pb_log\<close>: the transitions logged, the
  latest first. \<open>Draining\<close> is the wait for the last result after the context ended.
\<close>

datatype phase = Looping | Draining | Returned

record probe =
  pb_state :: health_snapshot
  pb_phase :: phase
  pb_in_flight :: bool
  pb_pings :: "time list"
  pb_results :: "probe_result list"
  pb_logged :: health_status
  pb_log :: "(health_status \<times> health_status) list"
  pb_ended :: bool

definition start_ping :: "time \<Rightarrow> probe \<Rightarrow> probe" where
  "start_ping t p = p\<lparr>pb_in_flight := True, pb_pings := t # pb_pings p\<rparr>"

definition log_transition :: "health_status \<Rightarrow> probe \<Rightarrow> probe" where
  "log_transition st p =
     (if st \<noteq> pb_logged p then p\<lparr>pb_log := (pb_logged p, st) # pb_log p, pb_logged := st\<rparr> else p)"

definition probe_start :: "time \<Rightarrow> probe" where
  "probe_start t = start_ping t \<lparr>pb_state = new_probe, pb_phase = Looping, pb_in_flight = False, pb_pings = [],
     pb_results = [], pb_logged = HealthUnknown, pb_log = [], pb_ended = False\<rparr>"

text \<open>
  The steps: a tick, the goroutine posting a result, the loop taking it, the end of the context,
  the loop seeing the end, and the last result drained. The last argument is what is recorded.
\<close>

inductive probe_step :: "probe \<Rightarrow> probe \<Rightarrow> probe_result option \<Rightarrow> bool" where
  tick: "pb_phase p = Looping \<Longrightarrow> q = log_transition (hs_status (snapshot_at t (pb_state p))) p \<Longrightarrow>
    probe_step p (if pb_in_flight q then q else start_ping t' q) None"
| post: "pb_pings p = t # ts \<Longrightarrow> pb_results p = [] \<Longrightarrow>
    probe_step p (p\<lparr>pb_pings := ts, pb_results := [\<lparr>pr_finished = t', pr_duration = time_sub t' t, pr_error = err\<rparr>]\<rparr>) None"
| take_ended: "pb_phase p = Looping \<Longrightarrow> pb_results p = r # rs \<Longrightarrow> pb_ended p \<Longrightarrow>
    probe_step p (p\<lparr>pb_in_flight := False, pb_results := rs, pb_phase := Returned\<rparr>) None"
| take_result: "pb_phase p = Looping \<Longrightarrow> pb_results p = r # rs \<Longrightarrow> \<not> pb_ended p \<Longrightarrow>
    probe_step p (log_transition (hs_status (record_result r (pb_state p)))
      (p\<lparr>pb_in_flight := False, pb_results := rs, pb_state := record_result r (pb_state p)\<rparr>)) (Some r)"
| ctx_ends: "probe_step p (p\<lparr>pb_ended := True\<rparr>) None"
| see_end: "pb_phase p = Looping \<Longrightarrow> pb_ended p \<Longrightarrow>
    probe_step p (p\<lparr>pb_phase := (if pb_in_flight p then Draining else Returned)\<rparr>) None"
| drain: "pb_phase p = Draining \<Longrightarrow> pb_results p = r # rs \<Longrightarrow>
    probe_step p (p\<lparr>pb_results := rs, pb_phase := Returned\<rparr>) None"

text \<open>A run, with the results recorded, the latest first.\<close>

inductive probe_run :: "probe \<Rightarrow> probe_result list \<Rightarrow> bool" where
  begin_run: "probe_run (probe_start t) []"
| step_run: "probe_run p rs \<Longrightarrow> probe_step p q r \<Longrightarrow> probe_run q (case r of None \<Rightarrow> rs | Some x \<Rightarrow> x # rs)"

section \<open>What every run keeps\<close>

definition is_failure :: "probe_result \<Rightarrow> bool" where
  "is_failure r \<longleftrightarrow> pr_error r \<noteq> None"

text \<open>The snapshot published is the one the recorded results make.\<close>

definition told :: "probe_result list \<Rightarrow> health_snapshot" where
  "told rs = foldr record_result rs new_probe"

lemma told_simps [simp]: "told [] = new_probe" "told (r # rs) = record_result r (told rs)"
  by (simp_all add: told_def)

lemma record_result_simps [simp]:
  "hs_recorded (record_result r h) = pr_finished r"
  "hs_status (record_result r h) = (if is_failure r then HealthFailing else HealthHealthy)"
  "hs_consecutive (record_result r h) = (if is_failure r then hs_consecutive h + 1 else 0)"
  "hs_total (record_result r h) = hs_total h + (if is_failure r then 1 else 0)"
  "hs_error (record_result r h) = pr_error r"
  by (auto simp: record_result_def Let_def is_failure_def split: option.splits)

lemma told_counts:
  "hs_total (told rs) = length (filter is_failure rs)" "hs_consecutive (told rs) = length (takeWhile is_failure rs)"
  by (induction rs) (simp_all add: new_probe_def)

lemma log_transition_simps [simp]:
  "pb_state (log_transition st p) = pb_state p" "pb_phase (log_transition st p) = pb_phase p"
  "pb_in_flight (log_transition st p) = pb_in_flight p" "pb_pings (log_transition st p) = pb_pings p"
  "pb_results (log_transition st p) = pb_results p" "pb_ended (log_transition st p) = pb_ended p"
  by (simp_all add: log_transition_def)

lemma start_ping_simps [simp]:
  "pb_state (start_ping t p) = pb_state p" "pb_phase (start_ping t p) = pb_phase p" "pb_in_flight (start_ping t p)"
  "pb_pings (start_ping t p) = t # pb_pings p" "pb_results (start_ping t p) = pb_results p"
  "pb_logged (start_ping t p) = pb_logged p" "pb_log (start_ping t p) = pb_log p"
  by (simp_all add: start_ping_def)

text \<open>
  One ping or one unread result while one is in flight, and none otherwise; so a post never
  waits, and nothing is left running when the loop has returned.
\<close>

definition flight_ok :: "probe \<Rightarrow> bool" where
  "flight_ok p \<longleftrightarrow> (case pb_phase p of
      Looping \<Rightarrow> length (pb_pings p) + length (pb_results p) = (if pb_in_flight p then 1 else 0)
    | Draining \<Rightarrow> length (pb_pings p) + length (pb_results p) = 1
    | Returned \<Rightarrow> pb_pings p = [] \<and> pb_results p = [])"

lemma step_flight: "probe_step p q r \<Longrightarrow> flight_ok p \<Longrightarrow> flight_ok q"
  by (induction rule: probe_step.induct) (auto simp: flight_ok_def split: phase.splits if_splits)

lemma run_flight: "probe_run p rs \<Longrightarrow> flight_ok p"
proof (induction rule: probe_run.induct)
  case (begin_run t)
  then show ?case by (simp add: probe_start_def flight_ok_def)
next
  case (step_run p rs q r)
  then show ?case using step_flight by blast
qed

lemma step_state: "probe_step p q r \<Longrightarrow> pb_state q = (case r of None \<Rightarrow> pb_state p | Some x \<Rightarrow> record_result x (pb_state p))"
  by (induction rule: probe_step.induct) auto

lemma run_state: "probe_run p rs \<Longrightarrow> pb_state p = told rs"
proof (induction rule: probe_run.induct)
  case (begin_run t)
  then show ?case by (simp add: probe_start_def)
next
  case (step_run p rs q r)
  then show ?case using step_state [OF step_run.hyps(2)] by (simp split: option.splits)
qed

text \<open>The log is a chain from \<open>HealthUnknown\<close> to what was last logged, with no step in place.\<close>

fun log_chain :: "(health_status \<times> health_status) list \<Rightarrow> health_status \<Rightarrow> bool" where
  "log_chain [] st \<longleftrightarrow> st = HealthUnknown"
| "log_chain ((a, b) # l) st \<longleftrightarrow> b = st \<and> a \<noteq> b \<and> log_chain l a"

lemma log_chain_transition: "log_chain (pb_log p) (pb_logged p) \<Longrightarrow>
    log_chain (pb_log (log_transition st p)) (pb_logged (log_transition st p))"
  by (auto simp: log_transition_def)

lemma step_log:
  "probe_step p q r \<Longrightarrow> log_chain (pb_log p) (pb_logged p) \<Longrightarrow> log_chain (pb_log q) (pb_logged q)"
  by (induction rule: probe_step.induct) (auto simp: log_chain_transition)

lemma run_log: "probe_run p rs \<Longrightarrow> log_chain (pb_log p) (pb_logged p)"
  by (induction rule: probe_run.induct) (auto simp: step_log probe_start_def)

text \<open>While a ping runs there is a step that ends it; once it is posted and the context has ended, the loop can return.\<close>

lemma ended_can_return:
  assumes "flight_ok p" "pb_ended p" "pb_phase p \<noteq> Returned"
  shows "\<exists>q r. probe_step p q r \<and> (pb_phase q = Returned \<or> pb_pings q = [] \<and> pb_results q \<noteq> [] \<and> pb_phase q = pb_phase p)"
proof (cases "pb_pings p")
  case (Cons t ts)
  then have "pb_results p = []" "ts = []" using assms(1,3) by (auto simp: flight_ok_def split: phase.splits if_splits)
  from probe_step.post [OF Cons this(1)] this(2) show ?thesis by fastforce
next
  case Nil
  show ?thesis
  proof (cases "pb_results p")
    case (Cons r rs)
    then show ?thesis
      using probe_step.take_ended [OF _ Cons assms(2)] probe_step.drain [OF _ Cons] assms(3) by (cases "pb_phase p") fastforce+
  next
    case Nil': Nil
    then have "pb_phase p = Looping" "\<not> pb_in_flight p"
      using Nil assms(1,3) by (auto simp: flight_ok_def split: phase.splits if_splits)
    with probe_step.see_end [OF this(1) assms(2)] show ?thesis by fastforce
  qed
qed

end
