(* ===== verification/Web_Handlers.thy ===== *)
theory Web_Handlers
  imports Web_Page Health_Probe
begin

text \<open>
  The handlers of the web terminal (httpserver/auth.go, game.go, saves.go, server.go): each
  takes a request and the server's state and gives the response and the new state.

  The state is the store the services share, the two limiters, the decoy hash of package auth,
  and the snapshot the health probe last published. The \<open>k\<close>-th service a handler
  calls sees the environment \<open>stage k\<close>. A handler that spends from a limiter is \<open>None\<close> when the
  limiter's eviction loop does not end.
\<close>

record ('story, 'm, 'st) server =
  srv_games :: "('story, 'm, 'st) service"
  srv_accounts :: "'st auth_service"
  srv_sessions :: "'st manager"
  srv_invites :: "'st invite_service"
  srv_library :: "'story library"
  srv_trusted :: "addr list"
  srv_visit :: visit

record 'st web =
  wb_store :: 'st
  wb_logins :: attempt_limit
  wb_registers :: attempt_limit
  wb_decoy :: decoy
  wb_health :: health_snapshot

definition stage :: "nat \<Rightarrow> env \<Rightarrow> env" where
  "stage k e = later (64 * k) e"

abbreviation keeping :: "'st web \<Rightarrow> response \<times> 'st \<Rightarrow> response \<times> 'st web" where
  "keeping w rs \<equiv> (fst rs, w\<lparr>wb_store := snd rs\<rparr>)"

section \<open>Logging in and registering\<close>

definition not_invited :: string where
  "not_invited = ''That invitation cannot be used. It may have expired or already been used, or it may have been issued for a different address.''"

definition signed_in :: "('story, 'm, 'st) server \<Rightarrow> env \<Rightarrow> request \<Rightarrow> 'st \<Rightarrow> string result \<times> 'st" where
  "signed_in s e r st = manager_user_id (srv_sessions s) e (rq_cookie r) st"

definition show_login :: "('story, 'm, 'st) server \<Rightarrow> env \<Rightarrow> request \<Rightarrow> 'st web \<Rightarrow> response \<times> 'st web" where
  "show_login s e r w = keeping w
     (case signed_in s e r (wb_store w) of
        (Inr _, st) \<Rightarrow> (redirect (''/'', []), st)
      | (Inl _, st) \<Rightarrow> (render_page 200 (LoginPage no_credentials), st))"

definition too_many_attempts :: "(credentials_view \<Rightarrow> page) \<Rightarrow> duration \<Rightarrow> credentials_view \<Rightarrow> response" where
  "too_many_attempts page retry view =
     (render_page 429 (page (view\<lparr>cv_error := ''Too many attempts. Please wait a moment and try again.''\<rparr>)))
       \<lparr>rs_retry_after := Some (retry_after_seconds retry)\<rparr>"

definition try_attempt ::
  "('story, 'm, 'st) server \<Rightarrow> env \<Rightarrow> request \<Rightarrow> string \<Rightarrow> attempt_limit \<Rightarrow> ((duration \<times> bool) \<times> attempt_limit) option" where
  "try_attempt s e r email a =
     attempt (srv_visit s) (as_mail (srv_accounts s)) (srv_trusted s) (now e) (now (later 1 e)) (rq_peer r) email a"

text \<open>\<open>s.sessions.Start\<close> and the redirect home.\<close>

definition start_session :: "('story, 'm, 'st) server \<Rightarrow> env \<Rightarrow> user \<Rightarrow> 'st \<Rightarrow> response \<times> 'st" where
  "start_session s e account st =
     (case manager_start (srv_sessions s) e (us_id account) st of
        (Inl _, st') \<Rightarrow> (fail, st')
      | (Inr ck, st') \<Rightarrow> ((redirect (''/'', []))\<lparr>rs_cookie := Some ck\<rparr>, st'))"

definition log_in :: "('story, 'm, 'st) server \<Rightarrow> env \<Rightarrow> request \<Rightarrow> 'st web \<Rightarrow> (response \<times> 'st web) option" where
  "log_in s e r w =
     (case parse_form r of
        Inl _ \<Rightarrow> Some (render_page 400 (LoginPage (no_credentials\<lparr>cv_error := ''That request could not be read.''\<rparr>)), w)
      | Inr form \<Rightarrow>
          let email = form_get form ''email'' in
          (case try_attempt s e r email (wb_logins w) of
             None \<Rightarrow> None
           | Some ((retry, ok), a) \<Rightarrow>
               let w = w\<lparr>wb_logins := a\<rparr> in
               if \<not> ok then Some (too_many_attempts LoginPage retry (no_credentials\<lparr>cv_email := email\<rparr>), w)
               else (case auth_authenticate (srv_accounts s) (wb_decoy w) (stage 1 e) email (form_get form ''password'') (wb_store w) of
                  (None, c) \<Rightarrow> Some (aborted, w\<lparr>wb_decoy := c\<rparr>)
                | (Some (Inl _, _), c) \<Rightarrow> Some (render_page 401 (LoginPage (no_credentials\<lparr>cv_email := email,
                       cv_error := ''That email and password do not match an account.''\<rparr>)), w\<lparr>wb_decoy := c\<rparr>)
                | (Some (Inr account, _), c) \<Rightarrow>
                    Some (keeping (w\<lparr>wb_decoy := c\<rparr>) (start_session s (stage 2 e) account (wb_store w))))))"

definition show_register :: "('story, 'm, 'st) server \<Rightarrow> env \<Rightarrow> request \<Rightarrow> 'st web \<Rightarrow> response \<times> 'st web" where
  "show_register s e r w = keeping w
     (case signed_in s e r (wb_store w) of
        (Inr _, st) \<Rightarrow> (redirect (''/'', []), st)
      | (Inl _, st) \<Rightarrow>
          let token = query_get r ''invite'' in
          ((case invite_invited (srv_invites s) (stage 1 e) token st of
              Inl _ \<Rightarrow> render_page 403 (RegisterPage (no_credentials\<lparr>cv_min_password := min_password_length, cv_error := not_invited\<rparr>))
            | Inr i \<Rightarrow> render_page 200 (RegisterPage \<lparr>cv_email = iv_email i, cv_error = [], cv_min_password = min_password_length,
                 cv_invite = token, cv_invited = True\<rparr>)), st))"

definition register :: "('story, 'm, 'st) server \<Rightarrow> env \<Rightarrow> request \<Rightarrow> 'st web \<Rightarrow> (response \<times> 'st web) option" where
  "register s e r w =
     (let view = no_credentials\<lparr>cv_min_password := min_password_length\<rparr> in
      case parse_form r of
        Inl _ \<Rightarrow> Some (render_page 400 (RegisterPage (view\<lparr>cv_error := ''That request could not be read.''\<rparr>)), w)
      | Inr form \<Rightarrow>
          let email = form_get form ''email''; token = form_get form ''invite'';
              view = view\<lparr>cv_email := email, cv_invite := token, cv_invited := True\<rparr> in
          (case try_attempt s e r email (wb_registers w) of
             None \<Rightarrow> None
           | Some ((retry, ok), a) \<Rightarrow>
               let w = w\<lparr>wb_registers := a\<rparr> in
               if \<not> ok then Some (too_many_attempts RegisterPage retry view, w)
               else (case invite_redeem (srv_invites s) (stage 1 e) token email (form_get form ''password'') (wb_store w) of
                  (Inl err, st) \<Rightarrow> Some (keeping w
                    ((if errors_is err ErrNotInvited
                      then render_page 403 (RegisterPage (no_credentials\<lparr>cv_min_password := min_password_length, cv_error := not_invited\<rparr>))
                      else if errors_is err ErrEmailTaken
                      then render_page 400 (RegisterPage (view\<lparr>cv_error := ''There is already an account for that address.''\<rparr>))
                      else if errors_is err ErrWeakPassword
                      then render_page 400 (RegisterPage (view\<lparr>cv_error := ''That password is not long enough.''\<rparr>))
                      else fail), st))
                | (Inr account, st) \<Rightarrow> Some (keeping w (start_session s (stage 2 e) account st)))))"

definition log_out :: "('story, 'm, 'st) server \<Rightarrow> env \<Rightarrow> request \<Rightarrow> 'st web \<Rightarrow> response \<times> 'st web" where
  "log_out s e r w =
     (case manager_end (srv_sessions s) e (rq_cookie r) (wb_store w) of
        ((_, ck), st) \<Rightarrow> ((redirect (''/login'', []))\<lparr>rs_cookie := Some ck\<rparr>, w\<lparr>wb_store := st\<rparr>))"

section \<open>The lobby and the game page\<close>

definition story_title :: "('story, 'm, 'st) server \<Rightarrow> string \<Rightarrow> story_key \<Rightarrow> string" where
  "story_title s unknown key = (case lib_by_key (srv_library s) key of Some en \<Rightarrow> en_title en | None \<Rightarrow> unknown)"

definition show_lobby :: "('story, 'm, 'st) server \<Rightarrow> env \<Rightarrow> request \<Rightarrow> user \<Rightarrow> 'st \<Rightarrow> response" where
  "show_lobby s e r player st =
     (case service_games (srv_games s) e (us_id player) st of
        Inl _ \<Rightarrow> fail
      | Inr summaries \<Rightarrow> render_page 200 (LobbyPage
          \<lparr>lv_email = us_email player, lv_notice = query_get r ''notice'',
           lv_games = map (\<lambda>y. \<lparr>gi_id = y_id y, gi_story = story_title s ''unknown story'' (y_key y), gi_turn = y_turn y,
             gi_halted = y_halted y\<rparr>) summaries,
           lv_stories = map (\<lambda>en. (en_id en, en_title en)) (lib_all (srv_library s))\<rparr>))"

definition new_game :: "('story, 'm, 'st) server \<Rightarrow> env \<Rightarrow> request \<Rightarrow> user \<Rightarrow> 'st \<Rightarrow> response \<times> 'st" where
  "new_game s e r player st =
     (case parse_form r of
        Inl _ \<Rightarrow> (http_error ''That request could not be read.'' 400, st)
      | Inr form \<Rightarrow>
         (case service_new_game (srv_games s) e (us_id player) (form_get form ''story'') st of
            (Inl err, st') \<Rightarrow>
              (if errors_is err ErrStoryUnavailable then http_error ''This server does not carry that story.'' 404 else fail, st')
          | (Inr (g, _), st') \<Rightarrow> (redirect (game_path (s_id g), []), st')))"

definition draw_game :: "('story, 'm, 'st) server \<Rightarrow> env \<Rightarrow> request \<Rightarrow> user \<Rightarrow> string \<Rightarrow> string \<Rightarrow> 'st \<Rightarrow> response" where
  "draw_game s e r player i mode st =
     (case service_session (srv_games s) e (us_id player) i st of
        Inl err \<Rightarrow> if errors_is err ErrSessionNotFound then not_found else fail
      | Inr g \<Rightarrow>
          let prompt = new_prompt_view (s_id g) mode (s_halted g);
              page = (\<lambda>prompt. render_page 200 (GamePage
                \<lparr>gv_id = s_id g, gv_story = story_title s ''Zork'' (s_key g), gv_transcript = trim_prompt (s_transcript g),
                 gv_status = stored_status_view (s_status g), gv_notice = query_get r ''notice'', gv_prompt = prompt\<rparr>)) in
          if mode = ''save'' \<or> mode = ''restore'' \<or> s_halted g
          then (case service_saves (srv_games s) (stage 1 e) (us_id player) (s_id g) st of
                  Inl _ \<Rightarrow> fail
                | Inr saves \<Rightarrow> page (prompt\<lparr>pv_saves := save_rows saves\<rparr>))
          else page prompt)"

definition show_game :: "('story, 'm, 'st) server \<Rightarrow> env \<Rightarrow> request \<Rightarrow> user \<Rightarrow> string \<Rightarrow> 'st \<Rightarrow> response" where
  "show_game s e r player i st =
     (let p = query_get r ''prompt'' in
      draw_game s e r player i (if p = ''restart'' \<or> p = ''delete'' then p else []) st)"

definition show_saves :: "('story, 'm, 'st) server \<Rightarrow> env \<Rightarrow> request \<Rightarrow> user \<Rightarrow> string \<Rightarrow> 'st \<Rightarrow> response" where
  "show_saves s e r player i st =
     draw_game s e r player i (if query_get r ''prompt'' = ''save'' then ''save'' else ''restore'') st"

section \<open>Playing\<close>

text \<open>\<open>turnFailed\<close>; \<open>no_answer\<close> when the client has gone.\<close>

definition turn_failed :: "request \<Rightarrow> string \<Rightarrow> string \<Rightarrow> goerr \<Rightarrow> response" where
  "turn_failed r i command err =
     (if errors_is err ErrSessionNotFound then not_found
      else if errors_is err ErrGameOver then answer_turn r i command ''The story has ended.''
      else if errors_is err ErrVersionConflict
      then answer_turn r i command ''This game moved on somewhere else. Reload to catch up.''
      else if errors_is err ErrStoryUnavailable then answer_turn r i command ''This server cannot run that story.''
      else case classify (Some err) of
        FaultCanceled \<Rightarrow> no_answer
      | FaultTimeout \<Rightarrow> answer_turn r i command ''That took too long. Try it again.''
      | FaultInvalidState \<Rightarrow> answer_turn r i command ''This game cannot be resumed.''
      | _ \<Rightarrow> answer_turn r i command ''Something went wrong playing that turn. Nothing was lost.'')"

definition ask_about :: "('story, 'm, 'st) server \<Rightarrow> env \<Rightarrow> request \<Rightarrow> user \<Rightarrow> string \<Rightarrow> string \<Rightarrow> string \<Rightarrow> 'st \<Rightarrow> response" where
  "ask_about s e r player i command mode st =
     (if \<not> is_htmx r then (if mode = ''restart'' then redirect_to_restart r i else redirect_to_saves r i mode [])
      else
        let prompt = new_prompt_view i mode False;
            answer = (\<lambda>prompt. render_fragment [TurnFragment command [], PromptFragment prompt]) in
        if mode = ''restart'' then answer prompt
        else case service_saves (srv_games s) e (us_id player) i st of
          Inl _ \<Rightarrow> fail
        | Inr saves \<Rightarrow> answer (prompt\<lparr>pv_saves := save_rows saves\<rparr>))"

text \<open>A command is the first line of what was posted.\<close>

definition command_of :: "string \<Rightarrow> string" where
  "command_of line = trim_space (before (CHR 0x0A) line)"

definition played_answer :: "('story, 'm, 'st) server \<Rightarrow> env \<Rightarrow> request \<Rightarrow> user \<Rightarrow> string \<Rightarrow> string \<Rightarrow> turn \<Rightarrow> 'st \<Rightarrow> response" where
  "played_answer s e r player i command t st =
     (if t_asked t then ask_about s e r player i command (prompt_mode (t_intent t)) st
      else if t_intent t = IntentSave then answer_turn r i command (turn_notice (svc_unicode (srv_games s)) t)
      else if t_intent t = IntentRestore then redraw_game r i
      else if is_htmx r
      then render_fragment [TurnFragment command (trim_prompt (z_output (t_result t))),
             StatusFragment (new_status_view (z_line (t_result t))), UpperFragment (z_upper (t_result t))]
      else redirect (game_path i, []))"

definition play_turn_page :: "('story, 'm, 'st) server \<Rightarrow> env \<Rightarrow> request \<Rightarrow> user \<Rightarrow> string \<Rightarrow> 'st \<Rightarrow> response \<times> 'st" where
  "play_turn_page s e r player i st =
     (case parse_form r of
        Inl _ \<Rightarrow> (answer_turn r i [] ''That request could not be read.'', st)
      | Inr form \<Rightarrow>
          let command = command_of (form_get form ''command'') in
          if max_command_bytes < length command then (answer_turn r i command ''That command is too long.'', st)
          else (case service_play (srv_games s) e (us_id player) i command st of
             (Inl err, st') \<Rightarrow> (turn_failed r i command err, st')
           | (Inr t, st') \<Rightarrow> (played_answer s (stage 1 e) r player i command t st', st')))"

definition restart_game :: "('story, 'm, 'st) server \<Rightarrow> env \<Rightarrow> request \<Rightarrow> user \<Rightarrow> string \<Rightarrow> 'st \<Rightarrow> response \<times> 'st" where
  "restart_game s e r player i st =
     (case service_restart (srv_games s) e (us_id player) i st of
        (Inl err, st') \<Rightarrow> (turn_failed r i ''restart'' err, st')
      | (Inr _, st') \<Rightarrow> (redraw_game r i, st'))"

definition delete_game :: "('story, 'm, 'st) server \<Rightarrow> env \<Rightarrow> request \<Rightarrow> user \<Rightarrow> string \<Rightarrow> 'st \<Rightarrow> response \<times> 'st" where
  "delete_game s e r player i st =
     (case service_delete (srv_games s) e (us_id player) i st of
        (Inl err, st') \<Rightarrow> (if errors_is err ErrSessionNotFound then not_found else fail, st')
      | (Inr _, st') \<Rightarrow> (send_to r (''/'', [(''notice'', ''That game is gone, and the saves it held with it.'')]), st'))"

section \<open>Saves\<close>

definition save_failed :: "request \<Rightarrow> string \<Rightarrow> string \<Rightarrow> goerr \<Rightarrow> response" where
  "save_failed r i mode err =
     (if errors_is err ErrSessionNotFound then not_found
      else if errors_is err ErrSaveNotFound then redirect_to_saves r i mode ''There is no save by that name.''
      else if errors_is err ErrInvalidSaveName
      then redirect_to_saves r i mode (''A save name has to be something readable, and no longer than ''
             @ nat_digits max_save_name_bytes @ '' characters.'')
      else if errors_is err ErrTooManySaves
      then redirect_to_saves r i mode (''This game already holds '' @ nat_digits max_saves_per_game @ '' saves. Delete one first.'')
      else if errors_is err ErrGameOver then redirect_to_saves r i mode ''The story has ended; there is nothing to save.''
      else if errors_is err ErrVersionConflict
      then redirect_to_saves r i mode ''This game moved on somewhere else. Reload to catch up.''
      else if errors_is err ErrSaveMismatch then redirect_to_saves r i mode ''That save does not belong to this story.''
      else fail)"

definition create_save_page :: "('story, 'm, 'st) server \<Rightarrow> env \<Rightarrow> request \<Rightarrow> user \<Rightarrow> string \<Rightarrow> 'st \<Rightarrow> response \<times> 'st" where
  "create_save_page s e r player i st =
     (case parse_form r of
        Inl _ \<Rightarrow> (save_failed r i ''save'' (Opaque ''that request could not be read''), st)
      | Inr form \<Rightarrow>
         (case service_save (srv_games s) e (us_id player) i (form_get form ''name'') st of
            (Inl err, st') \<Rightarrow> (save_failed r i ''save'' err, st')
          | (Inr _, st') \<Rightarrow> (redraw_game r i, st')))"

definition restore_save_page ::
  "('story, 'm, 'st) server \<Rightarrow> env \<Rightarrow> request \<Rightarrow> user \<Rightarrow> string \<Rightarrow> string \<Rightarrow> 'st \<Rightarrow> response \<times> 'st" where
  "restore_save_page s e r player i k st =
     (case service_restore (srv_games s) e (us_id player) i k st of
        (Inl err, st') \<Rightarrow> (save_failed r i ''restore'' err, st')
      | (Inr _, st') \<Rightarrow> (redraw_game r i, st'))"

definition delete_save_page ::
  "('story, 'm, 'st) server \<Rightarrow> env \<Rightarrow> request \<Rightarrow> user \<Rightarrow> string \<Rightarrow> string \<Rightarrow> 'st \<Rightarrow> response \<times> 'st" where
  "delete_save_page s e r player i k st =
     (case service_delete_save (srv_games s) e (us_id player) i k st of
        (Inl err, st') \<Rightarrow> (save_failed r i ''restore'' err, st')
      | (Inr deleted, st') \<Rightarrow>
          (redirect_to_saves r i ''restore'' (''Deleted '' @ quote (svc_unicode (srv_games s)) (sv_name deleted) @ ''.''), st'))"

end
