(* ===== verification/Web_Server.thy ===== *)
theory Web_Server
  imports Web_Handlers
begin

text \<open>
  The routes of the web terminal and the protections around them (httpserver/server.go, and the
  health answer of health.go): which handler a request reaches, the check that it comes from
  this site, and the check that it carries a session.
\<close>

section \<open>Construction\<close>

text \<open>
  \<open>New\<close>, with the state the server begins in: the store of its services, fresh limiters, and what
  its probe has published. The templates, which \<open>New\<close> parses too, are part of the binary.
\<close>

definition server_new ::
  "('story, 'm, 'st) service option \<Rightarrow> 'st auth_service option \<Rightarrow> 'st manager option \<Rightarrow> 'st invite_service option
     \<Rightarrow> 'story library option \<Rightarrow> health_snapshot option \<Rightarrow> visit
     \<Rightarrow> (('story, 'm, 'st) server \<Rightarrow> ('story, 'm, 'st) server) list \<Rightarrow> 'st
     \<Rightarrow> (('story, 'm, 'st) server \<times> 'st web) result" where
  "server_new games accounts sessions invites library probe visit opts st =
     (case games of None \<Rightarrow> Inl (Opaque ''httpserver: nil game service'')
      | Some g \<Rightarrow> case accounts of None \<Rightarrow> Inl (Opaque ''httpserver: nil auth service'')
      | Some a \<Rightarrow> case sessions of None \<Rightarrow> Inl (Opaque ''httpserver: nil session manager'')
      | Some m \<Rightarrow> case invites of None \<Rightarrow> Inl (Opaque ''httpserver: nil invitation service'')
      | Some i \<Rightarrow> case library of None \<Rightarrow> Inl (Opaque ''httpserver: nil library'')
      | Some l \<Rightarrow> case probe of None \<Rightarrow> Inl (Opaque ''httpserver: nil health probe'')
      | Some h \<Rightarrow> Inr
         (fold (\<lambda>f s. f s) opts
            \<lparr>srv_games = g, srv_accounts = a, srv_sessions = m, srv_invites = i, srv_library = l,
             srv_trusted = [], srv_visit = visit\<rparr>,
          \<lparr>wb_store = st, wb_logins = login_limit, wb_registers = register_limit, wb_decoy = DecoyUnmade, wb_health = h\<rparr>))"

definition with_trusted_proxies :: "addr list \<Rightarrow> ('story, 'm, 'st) server \<Rightarrow> ('story, 'm, 'st) server" where
  "with_trusted_proxies as s = s\<lparr>srv_trusted := as\<rparr>"

section \<open>Routes\<close>

text \<open>The handlers behind \<open>requireUser\<close>.\<close>

datatype game_route =
    Lobby | NewGame | ShowGame string | PlayTurn string | RestartGame string | DeleteGamePage string
  | ShowSaves string | CreateSavePage string | RestoreSavePage string string | DeleteSavePage string string

datatype route =
    Static "string list" | Health | ShowLogin | PostLogin | ShowRegister | PostRegister | PostLogout
  | Game game_route

text \<open>\<open>GET\<close> patterns take HEAD requests too.\<close>

definition getting :: "string \<Rightarrow> bool" where
  "getting m \<longleftrightarrow> m = ''GET'' \<or> m = ''HEAD''"

definition get_route :: "string list \<Rightarrow> route option" where
  "get_route path = (case path of
     [] \<Rightarrow> Some (Game Lobby)
   | [a] \<Rightarrow> if a = ''healthz'' then Some Health else if a = ''login'' then Some ShowLogin
       else if a = ''register'' then Some ShowRegister else None
   | a # i # rest \<Rightarrow>
       if a = ''static'' then Some (Static (i # rest))
       else if a = ''games'' \<and> i \<noteq> [] \<and> rest = [] then Some (Game (ShowGame i))
       else if a = ''games'' \<and> i \<noteq> [] \<and> rest = [''saves''] then Some (Game (ShowSaves i))
       else None)"

definition post_route :: "string list \<Rightarrow> route option" where
  "post_route path = (case path of
     [a] \<Rightarrow> if a = ''login'' then Some PostLogin else if a = ''register'' then Some PostRegister
       else if a = ''logout'' then Some PostLogout else if a = ''games'' then Some (Game NewGame) else None
   | [a, i, b] \<Rightarrow>
       if a \<noteq> ''games'' \<or> i = [] then None
       else if b = ''input'' then Some (Game (PlayTurn i)) else if b = ''restart'' then Some (Game (RestartGame i))
       else if b = ''delete'' then Some (Game (DeleteGamePage i)) else if b = ''saves'' then Some (Game (CreateSavePage i))
       else None
   | [a, i, b, k, c] \<Rightarrow>
       if a \<noteq> ''games'' \<or> i = [] \<or> b \<noteq> ''saves'' \<or> k = [] then None
       else if c = ''restore'' then Some (Game (RestoreSavePage i k))
       else if c = ''delete'' then Some (Game (DeleteSavePage i k)) else None
   | _ \<Rightarrow> None)"

definition route_of :: "request \<Rightarrow> route option" where
  "route_of r =
     (if getting (rq_method r) then get_route (rq_path r)
      else if rq_method r = ''POST'' then post_route (rq_path r) else None)"

text \<open>
  A path some other method serves is 405, any other 404; the root of the static files without
  its slash is redirected to the one with it.
\<close>

definition unrouted :: "request \<Rightarrow> response" where
  "unrouted r =
     (if getting (rq_method r) \<and> rq_path r = [''static'']
      then (answer_plain 307 NoBody)\<lparr>rs_location := Some (''/static/'', [])\<rparr>
      else if get_route (rq_path r) \<noteq> None \<or> post_route (rq_path r) \<noteq> None
      then http_error ''Method Not Allowed'' 405 else not_found)"

section \<open>Protections\<close>

text \<open>
  \<open>http.NewCrossOriginProtection\<close>: what the browser says of the site a request comes from, or
  the host of its Origin where it says nothing (\<open>rq_origin\<close>, empty when it does not parse).
\<close>

definition cross_origin :: "request \<Rightarrow> bool" where
  "cross_origin r \<longleftrightarrow>
     \<not> (getting (rq_method r) \<or> rq_method r = ''OPTIONS'')
     \<and> (if rq_fetch_site r = ''same-origin'' \<or> rq_fetch_site r = ''none'' then False
        else if rq_fetch_site r \<noteq> [] then True
        else case rq_origin r of None \<Rightarrow> False | Some h \<Rightarrow> h \<noteq> rq_host r)"

definition cross_origin_refusal :: "request \<Rightarrow> response" where
  "cross_origin_refusal r = http_error
     (if rq_fetch_site r \<noteq> [] then ''cross-origin request detected from Sec-Fetch-Site header''
      else ''cross-origin request detected, and/or browser is out of date: Sec-Fetch-Site is missing, and Origin does not match Host'') 403"

text \<open>The handler behind the session: what it does to the store, and its answer.\<close>

definition game_handler ::
  "('story, 'm, 'st) server \<Rightarrow> env \<Rightarrow> request \<Rightarrow> user \<Rightarrow> game_route \<Rightarrow> 'st \<Rightarrow> response \<times> 'st" where
  "game_handler s e r player g st = (case g of
     Lobby \<Rightarrow> (show_lobby s e r player st, st)
   | NewGame \<Rightarrow> new_game s e r player st
   | ShowGame i \<Rightarrow> (show_game s e r player i st, st)
   | PlayTurn i \<Rightarrow> play_turn_page s e r player i st
   | RestartGame i \<Rightarrow> restart_game s e r player i st
   | DeleteGamePage i \<Rightarrow> delete_game s e r player i st
   | ShowSaves i \<Rightarrow> (show_saves s e r player i st, st)
   | CreateSavePage i \<Rightarrow> create_save_page s e r player i st
   | RestoreSavePage i k \<Rightarrow> restore_save_page s e r player i k st
   | DeleteSavePage i k \<Rightarrow> delete_save_page s e r player i k st)"

definition require_user ::
  "('story, 'm, 'st) server \<Rightarrow> env \<Rightarrow> request \<Rightarrow> (env \<Rightarrow> user \<Rightarrow> 'st \<Rightarrow> response \<times> 'st) \<Rightarrow> 'st \<Rightarrow> response \<times> 'st" where
  "require_user s e r h st =
     (case signed_in s e r st of
        (Inl _, st1) \<Rightarrow> (redirect_to_login r, st1)
      | (Inr i, st1) \<Rightarrow>
         (case auth_user (srv_accounts s) (stage 1 e) i st1 of
            Inl _ \<Rightarrow>
              (case manager_end (srv_sessions s) (stage 2 e) (rq_cookie r) st1 of
                 ((_, ck), st2) \<Rightarrow> ((redirect_to_login r)\<lparr>rs_cookie := Some ck\<rparr>, st2))
          | Inr account \<Rightarrow> h (stage 3 e) account st1))"

definition health :: "time \<Rightarrow> health_snapshot \<Rightarrow> response" where
  "health t h =
     (if health_ok t h then answer_plain 200 (PlainText (''ok'' @ [CHR 0x0A])) else http_error ''unavailable'' 503)"

text \<open>
  \<open>http.FileServerFS\<close> over the embedded files of web/static: a file, a listing of a directory that
  is asked for with its slash, and a redirect to the slash without it.
\<close>

definition static_files :: "string list list" where
  "static_files = [[''terminal.css''], [''terminal.js''], [''vendor'', ''LICENSE.htmx''], [''vendor'', ''README.md''],
     [''vendor'', ''htmx.min.js''], [''vendor'', ''alpine.min.js''], [''vendor'', ''LICENSE.alpine'']]"

definition serve_static :: "string list \<Rightarrow> response" where
  "serve_static path =
     (if last path = ''index.html'' then (answer_plain 301 NoBody)\<lparr>rs_location := Some (''./'', [])\<rparr>
      else if path \<in> set static_files then answer_plain 200 (StaticFile path)
      else if path = [[]] \<or> path = [''vendor'', []] then answer_plain 200 (Listing path)
      else if path = [''vendor''] then (answer_plain 301 NoBody)\<lparr>rs_location := Some (''vendor/'', [])\<rparr>
      else if last path = [] \<and> butlast path \<in> set static_files
      then (answer_plain 301 NoBody)\<lparr>rs_location := Some (''../'' @ last (butlast path), [])\<rparr>
      else not_found)"

text \<open>\<open>Handler\<close>: one request, served.\<close>

definition serve :: "('story, 'm, 'st) server \<Rightarrow> env \<Rightarrow> request \<Rightarrow> 'st web \<Rightarrow> (response \<times> 'st web) option" where
  "serve s e r w =
     (if cross_origin r then Some (cross_origin_refusal r, w)
      else case route_of r of
        None \<Rightarrow> Some (unrouted r, w)
      | Some (Static path) \<Rightarrow> Some (serve_static path, w)
      | Some Health \<Rightarrow> Some (health (now e) (wb_health w), w)
      | Some ShowLogin \<Rightarrow> Some (show_login s e r w)
      | Some PostLogin \<Rightarrow> log_in s e r w
      | Some ShowRegister \<Rightarrow> Some (show_register s e r w)
      | Some PostRegister \<Rightarrow> register s e r w
      | Some PostLogout \<Rightarrow> Some (log_out s e r w)
      | Some (Game g) \<Rightarrow>
          Some (keeping w (require_user s e r (\<lambda>e player. game_handler s e r player g) (wb_store w))))"

text \<open>The log line of a request: its method, its path without the query, and the status.\<close>

definition log_line :: "request \<Rightarrow> response \<Rightarrow> (string \<times> string list \<times> nat) option" where
  "log_line r a = (if rq_path r = [''healthz''] then None else Some (rq_method r, rq_path r, rs_status a))"

end
