(* ===== verification/Db_Accounts.thy ===== *)
theory Db_Accounts
  imports Db_Tables Invite_Service
begin

text \<open>
  The accounts' side of the database (internal/database/users.go, authsessions.go and
  invitations.go): one definition per method, each statement in the order the code runs it, and
  the interpretations of \<open>account_store\<close>, \<open>token_store\<close> and \<open>invite_store\<close> on them.

  A token hash is the 32 bytes of a SHA-256, so \<open>CHECK (length(token_hash) = 32)\<close> always holds.
\<close>

section \<open>Rows by a column\<close>

text \<open>\<open>SELECT ... WHERE column = ?\<close> on a column with a UNIQUE index.\<close>

definition row_by :: "('r \<Rightarrow> 'v) \<Rightarrow> 'v \<Rightarrow> (int \<times> 'r) list \<Rightarrow> (int \<times> 'r) option" where
  "row_by f v t = map_of (map (\<lambda>p. (f (snd p), p)) t) v"

abbreviation column :: "('r \<Rightarrow> 'v) \<Rightarrow> (int \<times> 'r) list \<Rightarrow> 'v list" where
  "column f t \<equiv> map (\<lambda>p. f (snd p)) t"

lemma row_by_Cons [simp]: "row_by f v (p # t) = (if f (snd p) = v then Some p else row_by f v t)"
  by (simp add: row_by_def)

lemma row_by_Nil [simp]: "row_by f v [] = None"
  by (simp add: row_by_def)

lemma row_by_None: "row_by f v t = None \<longleftrightarrow> v \<notin> set (column f t)"
  by (induction t) auto

lemma row_by_Some: "row_by f v t = Some p \<Longrightarrow> p \<in> set t \<and> f (snd p) = v"
  by (induction t) (auto split: if_splits)

lemma row_by_mem: "distinct (column f t) \<Longrightarrow> p \<in> set t \<Longrightarrow> row_by f (f (snd p)) t = Some p"
  by (induction t) (auto simp: image_iff)

lemma row_by_filter:
  assumes "distinct (column f t)"
  shows "row_by f v (filter P t) = (case row_by f v t of None \<Rightarrow> None | Some p \<Rightarrow> if P p then Some p else None)"
  using assms
proof (induction t)
  case (Cons p t)
  have "row_by f (f (snd p)) t = None" using Cons.prems by (simp add: row_by_None)
  then show ?case using Cons by (auto split: option.splits)
qed simp

lemma row_by_map:
  assumes "\<And>p. f (snd (g p)) = f (snd p)"
  shows "row_by f v (map g t) = map_option g (row_by f v t)"
  by (induction t) (simp_all add: assms)

lemma column_filter: "distinct (column f t) \<Longrightarrow> distinct (column f (filter P t))"
  by (induction t) auto

section \<open>Users\<close>

definition user_row_of :: "time \<Rightarrow> account \<Rightarrow> user_row" where
  "user_row_of t r = \<lparr>u_email = us_email (ac_user r), u_password = ac_hash r, u_created = t, u_updated = t\<rparr>"

definition check_user :: "user_row \<Rightarrow> bool" where
  "check_user r \<longleftrightarrow> check_text (u_email r) \<and> check_text (u_password r)"

text \<open>
  \<open>INSERT INTO users\<close>, with the two answers the code gives to a failed one: a broken UNIQUE
  index is \<open>ErrEmailTaken\<close>.
\<close>

definition insert_user :: "string \<Rightarrow> env \<Rightarrow> nat \<Rightarrow> time \<Rightarrow> account \<Rightarrow> db \<Rightarrow> (int \<times> db) result" where
  "insert_user what e j t r d =
     wrap_r what
       (bind_r (db_use e j) (\<lambda>_.
          case next_rowid (d_users d) of
            None \<Rightarrow> Inl disk_full
          | Some k \<Rightarrow>
              let row = user_row_of t r in
              if \<not> check_user row then Inl (constraint_failed ''CHECK'')
              else if row_by u_email (u_email row) (d_users d) \<noteq> None then Inl (Sentinel ErrEmailTaken)
              else Inr (k, d\<lparr>d_users := (k, row) # d_users d\<rparr>)))"

definition users_create :: "env \<Rightarrow> account \<Rightarrow> db \<Rightarrow> user result \<times> db" where
  "users_create e r d =
     (case bind_r (db_conn e 0) (\<lambda>_. insert_user ''database: create user'' e 1 (now e) r d) of
        Inl err \<Rightarrow> (Inl err, d)
      | Inr (k, d') \<Rightarrow> (Inr \<lparr>us_id = id_of k, us_email = us_email (ac_user r)\<rparr>, d'))"

definition users_by_email :: "unicode \<Rightarrow> env \<Rightarrow> string \<Rightarrow> db \<Rightarrow> account result" where
  "users_by_email u e email d =
     bind_r (db_conn e 0) (\<lambda>_.
     bind_r (wrap_r (''database: user '' @ quote u email @ '': load'') (db_use e 1)) (\<lambda>_.
       case row_by u_email email (d_users d) of
         Some (k, r) \<Rightarrow> Inr \<lparr>ac_user = \<lparr>us_id = id_of k, us_email = u_email r\<rparr>, ac_hash = u_password r\<rparr>
       | None \<Rightarrow> Inl (Wrap (''database: user '' @ quote u email) (Sentinel ErrUserNotFound))))"

definition users_by_id :: "unicode \<Rightarrow> env \<Rightarrow> string \<Rightarrow> db \<Rightarrow> user result" where
  "users_by_id u e i d =
     bind_r (user_row_id u i) (\<lambda>k.
     bind_r (db_conn e 0) (\<lambda>_.
     bind_r (wrap_r (''database: user '' @ i @ '': load'') (db_use e 1)) (\<lambda>_.
       case map_of (d_users d) k of
         Some r \<Rightarrow> Inr \<lparr>us_id = id_of k, us_email = u_email r\<rparr>
       | None \<Rightarrow> Inl (Wrap (''database: user '' @ i) (Sentinel ErrUserNotFound)))))"

definition user_ops :: "unicode \<Rightarrow> db auth_ops" where
  "user_ops u = \<lparr>ao_create = users_create, ao_by_email = users_by_email u, ao_by_id = users_by_id u\<rparr>"

section \<open>Browser sessions\<close>

definition logins_create :: "unicode \<Rightarrow> env \<Rightarrow> 256 word \<Rightarrow> login \<Rightarrow> db \<Rightarrow> unit result \<times> db" where
  "logins_create u e h s d =
     (case bind_r (wrap_r ''database: create session'' (user_row_id u (lg_user s))) (\<lambda>owner.
             bind_r (db_conn e 0) (\<lambda>_.
             wrap_r ''database: create session'' (bind_r (db_use e 1) (\<lambda>_.
               case next_rowid (d_auth d) of
                 None \<Rightarrow> Inl disk_full
               | Some k \<Rightarrow>
                   if row_by a_token h (d_auth d) \<noteq> None then Inl (constraint_failed ''UNIQUE'')
                   else if map_of (d_users d) owner = None then Inl (constraint_failed ''FOREIGN KEY'')
                   else Inr (k, \<lparr>a_token = h, a_user = owner, a_created = now e, a_expires = lg_expires s\<rparr>))))) of
        Inl err \<Rightarrow> (Inl err, d)
      | Inr (k, row) \<Rightarrow> (Inr (), d\<lparr>d_auth := (k, row) # d_auth d\<rparr>))"

definition logins_by_token :: "env \<Rightarrow> 256 word \<Rightarrow> db \<Rightarrow> login result" where
  "logins_by_token e h d =
     bind_r (db_conn e 0) (\<lambda>_.
     bind_r (wrap_r ''database: session lookup'' (db_use e 1)) (\<lambda>_.
       case row_by a_token h (d_auth d) of
         Some (_, r) \<Rightarrow> Inr \<lparr>lg_user = id_of (a_user r), lg_expires = a_expires r\<rparr>
       | None \<Rightarrow> Inl (Sentinel ErrNoSession)))"

definition logins_delete :: "env \<Rightarrow> 256 word \<Rightarrow> db \<Rightarrow> unit result \<times> db" where
  "logins_delete e h d =
     (case bind_r (db_conn e 0) (\<lambda>_. wrap_r ''database: delete session'' (db_use e 1)) of
        Inl err \<Rightarrow> (Inl err, d)
      | Inr _ \<Rightarrow> (Inr (), d\<lparr>d_auth := filter (\<lambda>p. a_token (snd p) \<noteq> h) (d_auth d)\<rparr>))"

definition logins_delete_expired :: "env \<Rightarrow> time \<Rightarrow> db \<Rightarrow> nat result \<times> db" where
  "logins_delete_expired e cutoff d =
     (case bind_r (db_conn e 0) (\<lambda>_. wrap_r ''database: delete expired sessions'' (db_use e 1)) of
        Inl err \<Rightarrow> (Inl err, d)
      | Inr _ \<Rightarrow> (Inr (length (filter (\<lambda>p. a_expires (snd p) < cutoff) (d_auth d))),
                d\<lparr>d_auth := filter (\<lambda>p. \<not> a_expires (snd p) < cutoff) (d_auth d)\<rparr>))"

definition login_ops :: "unicode \<Rightarrow> db token_ops" where
  "login_ops u = \<lparr>to_create = logins_create u, to_by_token = logins_by_token, to_delete = logins_delete,
     to_delete_expired = logins_delete_expired\<rparr>"

section \<open>Invitations\<close>

text \<open>NULL columns read as the zero time and as no identifier.\<close>

definition read_invitation :: "invite_row \<Rightarrow> invitation" where
  "read_invitation r = \<lparr>iv_email = i_email r, iv_expires = i_expires r,
     iv_redeemed = (case i_redeemed r of None \<Rightarrow> 0 | Some t \<Rightarrow> t),
     iv_user = (case i_user r of None \<Rightarrow> [] | Some k \<Rightarrow> if k = 0 then [] else id_of k)\<rparr>"

definition invites_create :: "env \<Rightarrow> 256 word \<Rightarrow> invitation \<Rightarrow> db \<Rightarrow> unit result \<times> db" where
  "invites_create e h i d =
     (case bind_r (db_conn e 0) (\<lambda>_.
             wrap_r ''database: create invitation'' (bind_r (db_use e 1) (\<lambda>_.
               case next_rowid (d_invites d) of
                 None \<Rightarrow> Inl disk_full
               | Some k \<Rightarrow>
                   if \<not> check_text (iv_email i) then Inl (constraint_failed ''CHECK'')
                   else if row_by i_token h (d_invites d) \<noteq> None then Inl (constraint_failed ''UNIQUE'')
                   else Inr k))) of
        Inl err \<Rightarrow> (Inl err, d)
      | Inr k \<Rightarrow> (Inr (), d\<lparr>d_invites := (k, \<lparr>i_token = h, i_email = iv_email i, i_created = now e,
                  i_expires = iv_expires i, i_redeemed = None, i_user = None\<rparr>) # d_invites d\<rparr>))"

definition invites_by_token :: "env \<Rightarrow> 256 word \<Rightarrow> db \<Rightarrow> invitation result" where
  "invites_by_token e h d =
     bind_r (db_conn e 0) (\<lambda>_.
     bind_r (wrap_r ''database: invitation lookup'' (db_use e 1)) (\<lambda>_.
       case row_by i_token h (d_invites d) of
         Some (_, r) \<Rightarrow> Inr (read_invitation r)
       | None \<Rightarrow> Inl (Sentinel ErrNotInvited)))"

text \<open>\<open>UPDATE invitations SET ... WHERE id = ? AND redeemed_at IS NULL\<close>, and \<open>conn.Changes()\<close>.\<close>

definition unspent_row :: "int \<Rightarrow> int \<times> invite_row \<Rightarrow> bool" where
  "unspent_row k p \<longleftrightarrow> fst p = k \<and> i_redeemed (snd p) = None"

definition spend_row :: "int \<Rightarrow> time \<Rightarrow> int \<Rightarrow> int \<times> invite_row \<Rightarrow> int \<times> invite_row" where
  "spend_row k t owner p = (if unspent_row k p then (fst p, (snd p)\<lparr>i_redeemed := Some t, i_user := Some owner\<rparr>) else p)"

text \<open>The body of Redeem inside the transaction: the account made, and the tables to commit.\<close>

definition redeem_body :: "env \<Rightarrow> 256 word \<Rightarrow> time \<Rightarrow> account \<Rightarrow> db \<Rightarrow> (user \<times> db) result" where
  "redeem_body e h t r d =
     bind_r (wrap_r ''database: redeem invitation'' (db_use e 2)) (\<lambda>_.
       case row_by i_token h (d_invites d) of
         None \<Rightarrow> Inl (Sentinel ErrNotInvited)
       | Some (k, row) \<Rightarrow>
           let stored = read_invitation row in
           if \<not> is_zero (iv_redeemed stored) \<or> \<not> t < iv_expires stored \<or> iv_email stored \<noteq> us_email (ac_user r)
           then Inl (Sentinel ErrNotInvited)
           else
             bind_r (insert_user ''database: redeem invitation'' e 3 (now e) r d) (\<lambda>(owner, d1).
             bind_r (wrap_r ''database: redeem invitation'' (db_use e 4)) (\<lambda>_.
               if length (filter (unspent_row k) (d_invites d1)) \<noteq> 1
               then Inl (Wrap (''database: redeem invitation '' @ format_int k) (Sentinel ErrNotInvited))
               else Inr (\<lparr>us_id = id_of owner, us_email = us_email (ac_user r)\<rparr>,
                      d1\<lparr>d_invites := map (spend_row k t owner) (d_invites d1)\<rparr>))))"

text \<open>The results are named: a COMMIT that fails is rolled back and is what the caller gets.\<close>

definition invites_redeem :: "env \<Rightarrow> 256 word \<Rightarrow> time \<Rightarrow> account \<Rightarrow> db \<Rightarrow> user result \<times> db" where
  "invites_redeem e h t r d =
     (case bind_r (db_conn e 0) (\<lambda>_.
             bind_r (wrap_r ''database: redeem invitation'' (db_use e 1)) (\<lambda>_.
             bind_r (redeem_body e h t r d) (\<lambda>x.
             bind_r (db_use e 5) (\<lambda>_. Inr x)))) of
        Inl err \<Rightarrow> (Inl err, d)
      | Inr (w, d') \<Rightarrow> (Inr w, d'))"

definition spent_row :: "time \<Rightarrow> time \<Rightarrow> int \<times> invite_row \<Rightarrow> bool" where
  "spent_row expired_before redeemed_before p \<longleftrightarrow>
     (case i_redeemed (snd p) of None \<Rightarrow> i_expires (snd p) < expired_before | Some t \<Rightarrow> t < redeemed_before)"

definition invites_delete_spent :: "env \<Rightarrow> time \<Rightarrow> time \<Rightarrow> db \<Rightarrow> nat result \<times> db" where
  "invites_delete_spent e expired_before redeemed_before d =
     (case bind_r (db_conn e 0) (\<lambda>_. wrap_r ''database: delete spent invitations'' (db_use e 1)) of
        Inl err \<Rightarrow> (Inl err, d)
      | Inr _ \<Rightarrow> (Inr (length (filter (spent_row expired_before redeemed_before) (d_invites d))),
                d\<lparr>d_invites := filter (\<lambda>p. \<not> spent_row expired_before redeemed_before p) (d_invites d)\<rparr>))"

definition invite_db_ops :: "db invite_ops" where
  "invite_db_ops = \<lparr>io_create = invites_create, io_by_token = invites_by_token, io_redeem = invites_redeem,
     io_delete_spent = invites_delete_spent\<rparr>"

end
