(* ===== verification/Db_Account_Laws.thy ===== *)
theory Db_Account_Laws
  imports Db_Store Db_Accounts
begin

text \<open>
  The database keeps the promises of \<open>auth.Store\<close>, \<open>session.Store\<close> and \<open>invite.Store\<close>: the
  invariant of its three account tables, what is seen of them, what each method does to it, and
  the interpretations.
\<close>

section \<open>What is seen\<close>

definition seen_account :: "int \<times> user_row \<Rightarrow> string \<times> string" where
  "seen_account p = (id_of (fst p), u_password (snd p))"

definition seen_login :: "int \<times> auth_row \<Rightarrow> login" where
  "seen_login p = \<lparr>lg_user = id_of (a_user (snd p)), lg_expires = a_expires (snd p)\<rparr>"

definition seen_invite :: "int \<times> invite_row \<Rightarrow> invitation" where
  "seen_invite p = read_invitation (snd p)"

definition db_acc :: "db \<Rightarrow> string \<Rightarrow> (string \<times> string) option" where
  "db_acc d m = map_option seen_account (row_by u_email m (d_users d))"

definition db_tok :: "db \<Rightarrow> 256 word \<Rightarrow> login option" where
  "db_tok d h = map_option seen_login (row_by a_token h (d_auth d))"

definition db_ivt :: "db \<Rightarrow> 256 word \<Rightarrow> invitation option" where
  "db_ivt d h = map_option seen_invite (row_by i_token h (d_invites d))"

lemma not_Some_pair: "(\<forall>a b. x \<noteq> Some (a, b)) \<longleftrightarrow> x = None"
  by (cases x) auto

section \<open>The invariant\<close>

definition table_ok :: "(int \<times> 'r) list \<Rightarrow> ('r \<Rightarrow> 'v) \<Rightarrow> (int \<times> 'r \<Rightarrow> bool) \<Rightarrow> bool" where
  "table_ok t f ok \<longleftrightarrow> distinct (keys t) \<and> distinct (column f t) \<and> list_all (\<lambda>p. rowid_ok (fst p) \<and> ok p) t"

definition is_user :: "(int \<times> user_row) list \<Rightarrow> int \<Rightarrow> bool" where
  "is_user us k \<longleftrightarrow> rowid_ok k \<and> k \<in> set (keys us)"

definition invite_ok :: "(int \<times> user_row) list \<Rightarrow> int \<times> invite_row \<Rightarrow> bool" where
  "invite_ok us p \<longleftrightarrow> (case (i_redeemed (snd p), i_user (snd p)) of
     (None, None) \<Rightarrow> True | (Some t, Some k) \<Rightarrow> \<not> is_zero t \<and> is_user us k | _ \<Rightarrow> False)"

definition acct_inv :: "db \<Rightarrow> bool" where
  "acct_inv d \<longleftrightarrow> table_ok (d_users d) u_email (\<lambda>_. True)
     \<and> table_ok (d_auth d) a_token (\<lambda>p. is_user (d_users d) (a_user (snd p)))
     \<and> table_ok (d_invites d) i_token (invite_ok (d_users d))"

lemma acct_inv_empty: "acct_inv empty_db"
  by (simp add: acct_inv_def table_ok_def empty_db_def)

lemma table_ok_Nil [simp]: "table_ok [] f ok" by (simp add: table_ok_def)

lemma table_ok_insert:
  assumes "table_ok t f ok" "next_rowid t = Some k" "row_by f (f r) t = None" "ok (k, r)"
  shows "table_ok ((k, r) # t) f ok"
  using assms next_rowid_fresh [OF assms(2)] by (auto simp: table_ok_def row_by_None)

lemma table_ok_filter: "table_ok t f ok \<Longrightarrow> table_ok (filter P t) f ok"
  by (simp add: table_ok_def distinct_keys_filter column_filter) (simp add: list_all_iff)

lemma table_ok_mono: "table_ok t f ok \<Longrightarrow> (\<And>p. ok p \<Longrightarrow> ok' p) \<Longrightarrow> table_ok t f ok'"
  by (auto simp: table_ok_def list_all_iff)

lemma table_ok_map:
  assumes "table_ok t f ok" "\<And>p. fst (g p) = fst p" "\<And>p. f (snd (g p)) = f (snd p)"
    and "\<And>p. p \<in> set t \<Longrightarrow> ok p \<Longrightarrow> ok' (g p)"
  shows "table_ok (map g t) f ok'"
  using assms by (auto simp: table_ok_def list_all_iff comp_def)

lemma table_row:
  assumes "table_ok t f ok" "row_by f v t = Some p"
  shows "map_of t (fst p) = Some (snd p)" "f (snd p) = v" "rowid_ok (fst p)" "ok p"
proof -
  have p: "p \<in> set t" "f (snd p) = v" using row_by_Some [OF assms(2)] by auto
  then show "map_of t (fst p) = Some (snd p)" "f (snd p) = v" "rowid_ok (fst p)" "ok p"
    using assms(1) mem_map_of [of t "fst p" "snd p"] by (auto simp: table_ok_def list_all_iff)
qed

lemma is_user_more: "is_user us k \<Longrightarrow> is_user (p # us) k"
  by (simp add: is_user_def)

lemma invite_ok_more: "invite_ok us p \<Longrightarrow> invite_ok (q # us) p"
  by (auto simp: invite_ok_def is_user_more split: option.splits)

lemma is_user_known: "db_known d user \<longleftrightarrow> (\<exists>k. user = id_of k \<and> is_user (d_users d) k)"
  by (auto simp: db_known_def is_user_def canon_Some map_of_eq_None_iff)

text \<open>Uses of the connection, and room for one more row.\<close>

definition acct_room :: "db \<Rightarrow> bool" where
  "acct_room d \<longleftrightarrow> next_rowid (d_users d) \<noteq> None \<and> next_rowid (d_auth d) \<noteq> None \<and> next_rowid (d_invites d) \<noteq> None"

lemma db_up_use [simp]: "db_up e \<Longrightarrow> k < 8 \<Longrightarrow> db_use e k = Inr ()"
  by (simp add: db_upD)

lemma db_up_conn [simp]: "db_up e \<Longrightarrow> db_conn e 0 = Inr ()"
  by (simp add: db_upD)

section \<open>Users\<close>

definition user_fits :: "account \<Rightarrow> bool" where
  "user_fits r \<longleftrightarrow> check_text (us_email (ac_user r)) \<and> check_text (ac_hash r)"

lemma user_row_of_simps [simp]: "u_email (user_row_of t r) = us_email (ac_user r)" "u_password (user_row_of t r) = ac_hash r"
  by (simp_all add: user_row_of_def)

lemma db_acc_None: "db_acc d m = None \<longleftrightarrow> row_by u_email m (d_users d) = None"
  by (simp add: db_acc_def)

lemma insert_user_Inr:
  assumes "acct_inv d" "insert_user what e j t r d = Inr (k, d')"
  shows "next_rowid (d_users d) = Some k \<and> db_acc d (us_email (ac_user r)) = None
    \<and> d' = d\<lparr>d_users := (k, user_row_of t r) # d_users d\<rparr>"
  using assms(2) by (auto simp: insert_user_def result_iff Let_def db_acc_None not_Some_pair split: option.splits if_splits)

lemma insert_user_up:
  assumes "db_use e j = Inr ()" "acct_room d" "user_fits r"
  shows "db_acc d (us_email (ac_user r)) = None \<Longrightarrow> \<exists>k d'. insert_user what e j t r d = Inr (k, d')"
    and "db_acc d (us_email (ac_user r)) \<noteq> None \<Longrightarrow> insert_user what e j t r d = Inl (Wrap what (Sentinel ErrEmailTaken))"
  using assms by (auto simp: insert_user_def Let_def acct_room_def db_acc_None check_user_def user_fits_def)

text \<open>What one more account does to the tables.\<close>

lemma one_more_user:
  fixes t :: time
  assumes "acct_inv d" "next_rowid (d_users d) = Some k" "db_acc d (us_email (ac_user r)) = None"
    and d'_def: "d' = d\<lparr>d_users := (k, user_row_of t r) # d_users d\<rparr>"
  shows "acct_inv d'" "db_acc d' = (db_acc d)(us_email (ac_user r) \<mapsto> (id_of k, ac_hash r))"
    "is_user (d_users d') k" "\<forall>m h. db_acc d m \<noteq> Some (id_of k, h)"
proof -
  have u: "table_ok (d_users d) u_email (\<lambda>_. True)" using assms(1) by (simp add: acct_inv_def)
  note f = next_rowid_fresh [OF assms(2)]
  show "acct_inv d'"
    using assms(1) table_ok_insert [OF u assms(2), of "user_row_of t r"] assms(3)
    by (auto simp: acct_inv_def d'_def db_acc_None is_user_more invite_ok_more elim!: table_ok_mono)
  show "db_acc d' = (db_acc d)(us_email (ac_user r) \<mapsto> (id_of k, ac_hash r))"
    by (rule ext) (simp add: db_acc_def d'_def seen_account_def)
  show "is_user (d_users d') k" using f by (simp add: is_user_def d'_def)
  show "\<forall>m h. db_acc d m \<noteq> Some (id_of k, h)"
  proof (intro allI notI)
    fix m h assume "db_acc d m = Some (id_of k, h)"
    then obtain p where p: "row_by u_email m (d_users d) = Some p" "fst p = k"
      by (auto simp: db_acc_def seen_account_def)
    from table_row(1) [OF u p(1)] p(2) f show False by (simp add: map_of_eq_None_iff [symmetric])
  qed
qed

lemma user_ops_simps [simp]: "ao_create (user_ops u) = users_create" "ao_by_email (user_ops u) = users_by_email u"
  "ao_by_id (user_ops u) = users_by_id u"
  by (simp_all add: user_ops_def)

lemma users_create_Inr:
  assumes "users_create e r d = (Inr w, d')"
  shows "\<exists>k. insert_user ''database: create user'' e 1 (now e) r d = Inr (k, d') \<and> w = \<lparr>us_id = id_of k, us_email = us_email (ac_user r)\<rparr>"
  using assms by (auto simp: users_create_def result_iff split: sum.splits)

lemma users_create_Inl: "users_create e r d = (Inl err, d') \<Longrightarrow> d' = d"
  by (auto simp: users_create_def split: sum.splits)

interpretation users: account_store "user_ops u" db_up acct_room user_fits acct_inv db_acc
proof unfold_locales
  fix st e m i h
  assume a: "acct_inv st" "db_up e" "db_acc st m = Some (i, h)"
  then obtain p where p: "row_by u_email m (d_users st) = Some p" "i = id_of (fst p)" "h = u_password (snd p)"
    by (auto simp: db_acc_def seen_account_def)
  have t: "table_ok (d_users st) u_email (\<lambda>_. True)" using a(1) by (simp add: acct_inv_def)
  note r = table_row [OF t p(1)]
  show "ao_by_email (user_ops u) e m st = Inr \<lparr>ac_user = \<lparr>us_id = i, us_email = m\<rparr>, ac_hash = h\<rparr>"
    using a(2) p r(2) by (simp add: users_by_email_def split_beta)
  show "ao_by_id (user_ops u) e i st = Inr \<lparr>us_id = i, us_email = m\<rparr>"
    using a(2) p r by (simp add: users_by_id_def)
next
  fix st e m r
  assume "ao_by_email (user_ops u) e m st = Inr r"
  then show "us_email (ac_user r) = m \<and> db_acc st m = Some (us_id (ac_user r), ac_hash r)"
    using row_by_Some [of u_email m "d_users st"]
    by (auto simp: users_by_email_def result_iff db_acc_def seen_account_def split: option.splits)
next
  fix st e m
  assume "db_up e" "db_acc st m = None"
  then show "\<exists>err. ao_by_email (user_ops u) e m st = Inl err \<and> errors_is err ErrUserNotFound"
    by (simp add: users_by_email_def db_acc_None)
next
  fix st e and r :: account
  assume "db_up e" "acct_room st" "db_acc st (us_email (ac_user r)) = None" "user_fits r"
  then obtain k d' where "insert_user ''database: create user'' e 1 (now e) r st = Inr (k, d')"
    using insert_user_up(1) [of e 1 st r "''database: create user''" "now e"] by auto
  then show "\<exists>w st'. ao_create (user_ops u) e r st = (Inr w, st')" using \<open>db_up e\<close>
    by (simp add: users_create_def)
next
  fix st e r w st'
  assume a: "acct_inv st" "ao_create (user_ops u) e r st = (Inr w, st')"
  then obtain k where k: "insert_user ''database: create user'' e 1 (now e) r st = Inr (k, st')"
      "w = \<lparr>us_id = id_of k, us_email = us_email (ac_user r)\<rparr>" using users_create_Inr [of e r st w st'] by auto
  note i = insert_user_Inr [OF a(1) k(1)]
  note m = one_more_user [OF a(1), of k r st' "now e"]
  show "acct_inv st' \<and> us_email w = us_email (ac_user r) \<and> db_acc st (us_email w) = None
        \<and> db_acc st' = (db_acc st)(us_email w \<mapsto> (us_id w, ac_hash r)) \<and> (\<forall>m h. db_acc st m \<noteq> Some (us_id w, h))"
    using m i k(2) by simp
next
  fix st e r
  assume "db_up e" "acct_room st" "db_acc st (us_email (ac_user r)) \<noteq> None" "user_fits r"
  then show "\<exists>err. ao_create (user_ops u) e r st = (Inl err, st) \<and> errors_is err ErrEmailTaken"
    using insert_user_up(2) [of e 1 st r] by (simp add: users_create_def)
next
  fix st e r err st'
  assume "ao_create (user_ops u) e r st = (Inl err, st')"
  then show "st' = st" using users_create_Inl by simp
qed

section \<open>Browser sessions\<close>

lemma login_ops_simps [simp]: "to_create (login_ops u) = logins_create u" "to_by_token (login_ops u) = logins_by_token"
  "to_delete (login_ops u) = logins_delete" "to_delete_expired (login_ops u) = logins_delete_expired"
  by (simp_all add: login_ops_def)

lemma db_tok_None: "db_tok d h = None \<longleftrightarrow> row_by a_token h (d_auth d) = None"
  by (simp add: db_tok_def)

lemma logins_create_Inr:
  assumes "logins_create u e h s d = (Inr (), d')" "db_known d (lg_user s)"
  shows "\<exists>k owner. next_rowid (d_auth d) = Some k \<and> lg_user s = id_of owner \<and> is_user (d_users d) owner
    \<and> row_by a_token h (d_auth d) = None
    \<and> d' = d\<lparr>d_auth := (k, \<lparr>a_token = h, a_user = owner, a_created = now e, a_expires = lg_expires s\<rparr>) # d_auth d\<rparr>"
proof -
  obtain owner where o: "lg_user s = id_of owner" "is_user (d_users d) owner"
    using assms(2) unfolding is_user_known by blast
  then have "user_row_id u (lg_user s) = Inr owner" by (simp add: is_user_def)
  then show ?thesis using assms(1) o
    by (auto simp: logins_create_def bind_r_Inr wrap_r_Inr not_Some_pair split: sum.splits option.splits if_splits)
qed

lemma logins_create_inv:
  assumes "acct_inv d"
  shows "acct_inv (snd (logins_create u e h s d))"
proof (cases "fst (logins_create u e h s d)")
  case (Inl err)
  then show ?thesis using assms by (auto simp: logins_create_def split: sum.splits)
next
  case (Inr x)
  then obtain k owner where k: "next_rowid (d_auth d) = Some k" "rowid_ok owner" "map_of (d_users d) owner \<noteq> None"
      "row_by a_token h (d_auth d) = None"
      "snd (logins_create u e h s d) =
        d\<lparr>d_auth := (k, \<lparr>a_token = h, a_user = owner, a_created = now e, a_expires = lg_expires s\<rparr>) # d_auth d\<rparr>"
    by (auto simp: logins_create_def result_iff not_Some_pair split: sum.splits option.splits if_splits)
  then have o: "is_user (d_users d) owner" by (simp add: is_user_def map_of_eq_None_iff)
  have t: "table_ok (d_auth d) a_token (\<lambda>p. is_user (d_users d) (a_user (snd p)))" using assms by (simp add: acct_inv_def)
  show ?thesis unfolding k(5)
    using table_ok_insert [OF t k(1), of "\<lparr>a_token = h, a_user = owner, a_created = now e, a_expires = lg_expires s\<rparr>"] k(4) o assms
    by (simp add: acct_inv_def)
qed

lemma logins_Inl:
  "logins_create u e h s d = (Inl err, d') \<Longrightarrow> d' = d" "logins_delete e h d = (Inl err, d') \<Longrightarrow> d' = d"
  "logins_delete_expired e t d = (Inl err, d') \<Longrightarrow> d' = d"
  by (auto simp: logins_create_def logins_delete_def logins_delete_expired_def split: sum.splits)

lemma one_more_login:
  assumes "acct_inv d" "next_rowid (d_auth d) = Some k" "row_by a_token (a_token r) (d_auth d) = None" "is_user (d_users d) (a_user r)"
  shows "acct_inv (d\<lparr>d_auth := (k, r) # d_auth d\<rparr>)"
    "db_tok (d\<lparr>d_auth := (k, r) # d_auth d\<rparr>) = (db_tok d)(a_token r \<mapsto> \<lparr>lg_user = id_of (a_user r), lg_expires = a_expires r\<rparr>)"
  using assms by (auto simp: acct_inv_def db_tok_def seen_login_def fun_eq_iff intro!: table_ok_insert)

lemma fewer_logins:
  assumes "acct_inv d"
  shows "acct_inv (d\<lparr>d_auth := filter P (d_auth d)\<rparr>)"
    "db_tok (d\<lparr>d_auth := filter P (d_auth d)\<rparr>) h = (case row_by a_token h (d_auth d) of None \<Rightarrow> None
       | Some p \<Rightarrow> if P p then Some (seen_login p) else None)"
proof -
  have t: "table_ok (d_auth d) a_token (\<lambda>p. is_user (d_users d) (a_user (snd p)))" using assms by (simp add: acct_inv_def)
  then have dc: "distinct (column a_token (d_auth d))" by (simp add: table_ok_def)
  show "acct_inv (d\<lparr>d_auth := filter P (d_auth d)\<rparr>)" using assms table_ok_filter [OF t] by (simp add: acct_inv_def)
  show "db_tok (d\<lparr>d_auth := filter P (d_auth d)\<rparr>) h = (case row_by a_token h (d_auth d) of None \<Rightarrow> None
       | Some p \<Rightarrow> if P p then Some (seen_login p) else None)"
    by (simp add: db_tok_def row_by_filter [OF dc] split: option.splits)
qed

lemma known_frame [simp]: "db_known (d\<lparr>d_auth := x\<rparr>) = db_known d" "db_known (d\<lparr>d_invites := y\<rparr>) = db_known d"
  by (simp_all add: db_known_def fun_eq_iff)

interpretation logins: token_store "login_ops u" db_up acct_room db_known acct_inv db_tok
proof unfold_locales
  fix st e h and s :: login
  assume "db_up e" "db_tok st h = Some s"
  then show "to_by_token (login_ops u) e h st = Inr s"
    by (auto simp: db_tok_def seen_login_def logins_by_token_def)
next
  fix st e h and s :: login
  assume "to_by_token (login_ops u) e h st = Inr s"
  then show "db_tok st h = Some s"
    by (auto simp: db_tok_def seen_login_def logins_by_token_def result_iff split: option.splits)
next
  fix st e h
  assume "db_up e" "db_tok st h = None"
  then show "\<exists>err. to_by_token (login_ops u) e h st = Inl err \<and> errors_is err ErrNoSession"
    by (simp add: logins_by_token_def db_tok_None)
next
  fix st e and s :: login and h
  assume a: "db_up e" "acct_room st" "db_known st (lg_user s)" "db_tok st h = None"
  then obtain owner where "lg_user s = id_of owner" "is_user (d_users st) owner" unfolding is_user_known by blast
  then have "user_row_id u (lg_user s) = Inr owner" "map_of (d_users st) owner \<noteq> None"
    by (simp_all add: is_user_def map_of_eq_None_iff)
  with a show "\<exists>st'. to_create (login_ops u) e h s st = (Inr (), st')"
    by (auto simp: logins_create_def acct_room_def db_tok_None)
next
  fix st and s :: login and e h st'
  assume a: "acct_inv st" "db_known st (lg_user s)" "to_create (login_ops u) e h s st = (Inr (), st')"
  then obtain k owner where k: "next_rowid (d_auth st) = Some k" "lg_user s = id_of owner" "is_user (d_users st) owner"
     "row_by a_token h (d_auth st) = None"
     "st' = st\<lparr>d_auth := (k, \<lparr>a_token = h, a_user = owner, a_created = now e, a_expires = lg_expires s\<rparr>) # d_auth st\<rparr>"
    using logins_create_Inr [of u e h s st st'] by auto
  let ?r = "\<lparr>a_token = h, a_user = owner, a_created = now e, a_expires = lg_expires s\<rparr>"
  have "\<lparr>lg_user = id_of owner, lg_expires = lg_expires s\<rparr> = s" unfolding k(2) [symmetric] by simp
  then show "acct_inv st' \<and> db_known st' = db_known st \<and> db_tok st h = None \<and> db_tok st' = (db_tok st)(h \<mapsto> s)"
    unfolding db_tok_None k(5) using one_more_login [OF a(1) k(1), of ?r] k(3,4) by simp
next
  fix e h and s :: login and st err st'
  assume "to_create (login_ops u) e h s st = (Inl err, st')"
  then show "st' = st" using logins_Inl(1) by simp
next
  fix st e h
  assume "db_up e"
  then show "\<exists>st'. to_delete (login_ops u) e h st = (Inr (), st')" by (simp add: logins_delete_def)
next
  fix st e h st'
  assume a: "acct_inv st" "to_delete (login_ops u) e h st = (Inr (), st')"
  then have st': "st' = st\<lparr>d_auth := filter (\<lambda>p. a_token (snd p) \<noteq> h) (d_auth st)\<rparr>"
    by (auto simp: logins_delete_def split: sum.splits)
  have "db_tok st' = (db_tok st)(h := None)"
    unfolding st' by (rule ext, subst fewer_logins(2) [OF a(1)])
      (auto simp: db_tok_def dest: row_by_Some split: option.splits)
  then show "acct_inv st' \<and> db_known st' = db_known st \<and> db_tok st' = (db_tok st)(h := None)"
    using fewer_logins(1) [OF a(1)] by (simp add: st')
next
  fix e h st err st'
  assume "to_delete (login_ops u) e h st = (Inl err, st')"
  then show "st' = st" using logins_Inl(2) by simp
next
  fix st e t n st'
  assume a: "acct_inv st" "to_delete_expired (login_ops u) e t st = (Inr n, st')"
  then have st': "st' = st\<lparr>d_auth := filter (\<lambda>p. \<not> a_expires (snd p) < t) (d_auth st)\<rparr>"
    by (auto simp: logins_delete_expired_def split: sum.splits)
  have "db_tok st' = (\<lambda>h. case db_tok st h of None \<Rightarrow> None | Some s \<Rightarrow> if lg_expires s < t then None else Some s)"
    unfolding st' by (rule ext, subst fewer_logins(2) [OF a(1)])
      (auto simp: db_tok_def seen_login_def split: option.splits)
  then show "acct_inv st' \<and> db_known st' = db_known st
        \<and> db_tok st' = (\<lambda>h. case db_tok st h of None \<Rightarrow> None | Some s \<Rightarrow> if lg_expires s < t then None else Some s)"
    using fewer_logins(1) [OF a(1)] by (simp add: st')
next
  fix e t st err st'
  assume "to_delete_expired (login_ops u) e t st = (Inl err, st')"
  then show "st' = st" using logins_Inl(3) by simp
qed

section \<open>Invitations\<close>

lemma invite_db_ops_simps [simp]: "io_create invite_db_ops = invites_create" "io_by_token invite_db_ops = invites_by_token"
  "io_redeem invite_db_ops = invites_redeem" "io_delete_spent invite_db_ops = invites_delete_spent"
  by (simp_all add: invite_db_ops_def)

lemma db_ivt_None: "db_ivt d h = None \<longleftrightarrow> row_by i_token h (d_invites d) = None"
  by (simp add: db_ivt_def)

lemma invites_Inl:
  "invites_create e h i d = (Inl err, d') \<Longrightarrow> d' = d" "invites_redeem e h t r d = (Inl err, d') \<Longrightarrow> d' = d"
  "invites_delete_spent e t t' d = (Inl err, d') \<Longrightarrow> d' = d"
  by (auto simp: invites_create_def invites_redeem_def invites_delete_spent_def split: sum.splits)

lemma invites_create_inv:
  assumes "acct_inv d"
  shows "acct_inv (snd (invites_create e h i d))"
proof (cases "fst (invites_create e h i d)")
  case (Inl err)
  then show ?thesis using assms by (auto simp: invites_create_def split: sum.splits)
next
  case (Inr x)
  then obtain k where k: "next_rowid (d_invites d) = Some k" "row_by i_token h (d_invites d) = None"
      "snd (invites_create e h i d) = d\<lparr>d_invites := (k, \<lparr>i_token = h, i_email = iv_email i, i_created = now e,
                  i_expires = iv_expires i, i_redeemed = None, i_user = None\<rparr>) # d_invites d\<rparr>"
    by (auto simp: invites_create_def result_iff not_Some_pair split: sum.splits option.splits if_splits)
  have "table_ok (d_invites d) i_token (invite_ok (d_users d))" using assms by (simp add: acct_inv_def)
  from table_ok_insert [OF this k(1)] k(2) assms show ?thesis by (simp add: acct_inv_def k(3) invite_ok_def)
qed

lemma invites_create_Inr:
  assumes "acct_inv d" "invites_create e h i d = (Inr (), d')" "iv_redeemed i = 0" "iv_user i = []"
  shows "acct_inv d' \<and> db_ivt d h = None \<and> db_ivt d' = (db_ivt d)(h \<mapsto> i) \<and> db_acc d' = db_acc d"
proof -
  obtain k where k: "next_rowid (d_invites d) = Some k" "row_by i_token h (d_invites d) = None"
      "d' = d\<lparr>d_invites := (k, \<lparr>i_token = h, i_email = iv_email i, i_created = now e,
                  i_expires = iv_expires i, i_redeemed = None, i_user = None\<rparr>) # d_invites d\<rparr>"
    using assms(2) by (auto simp: invites_create_def result_iff not_Some_pair split: sum.splits option.splits if_splits)
  let ?r = "\<lparr>i_token = h, i_email = iv_email i, i_created = now e, i_expires = iv_expires i, i_redeemed = None, i_user = None\<rparr>"
  have "table_ok (d_invites d) i_token (invite_ok (d_users d))" using assms(1) by (simp add: acct_inv_def)
  from table_ok_insert [OF this k(1), of ?r] k(2) assms(1) have "acct_inv d'"
    by (simp add: acct_inv_def k(3) invite_ok_def)
  moreover have "read_invitation ?r = i" using assms(3,4) by (simp add: read_invitation_def)
  then have "db_ivt d' = (db_ivt d)(h \<mapsto> i)" by (auto simp: db_ivt_def k(3) seen_invite_def fun_eq_iff)
  ultimately show ?thesis using k(2) by (simp add: db_ivt_None k(3) db_acc_def fun_eq_iff)
qed

lemma spend_row_simps [simp]: "fst (spend_row k t w p) = fst p" "i_token (snd (spend_row k t w p)) = i_token (snd p)"
  by (simp_all add: spend_row_def)

text \<open>Spending an invitation and making its account are one step.\<close>

lemma redeem_body_Inr:
  assumes "acct_inv d" "\<not> is_zero t" "redeem_body e h t r d = Inr (w, d')"
  shows "acct_inv d' \<and> us_email w = us_email (ac_user r) \<and> db_acc d (us_email w) = None
        \<and> db_acc d' = (db_acc d)(us_email w \<mapsto> (us_id w, ac_hash r))
        \<and> (\<exists>i. db_ivt d h = Some i \<and> redeemable i t \<and> iv_email i = us_email w \<and> db_ivt d' = (db_ivt d)(h \<mapsto> spent_by t w i))"
proof -
  obtain k row owner d1 where x: "row_by i_token h (d_invites d) = Some (k, row)"
      "is_zero (iv_redeemed (read_invitation row))" "t < iv_expires (read_invitation row)"
      "iv_email (read_invitation row) = us_email (ac_user r)"
      "insert_user ''database: redeem invitation'' e 3 (now e) r d = Inr (owner, d1)"
      "w = \<lparr>us_id = id_of owner, us_email = us_email (ac_user r)\<rparr>"
      "d' = d1\<lparr>d_invites := map (spend_row k t owner) (d_invites d1)\<rparr>"
    using assms(3) by (auto simp: redeem_body_def result_iff Let_def split: option.splits if_splits)
  note iu = insert_user_Inr [OF assms(1) x(5)]
  then have d1: "d1 = d\<lparr>d_users := (owner, user_row_of (now e) r) # d_users d\<rparr>" by simp
  note mu = one_more_user [OF assms(1) iu [THEN conjunct1] iu [THEN conjunct2, THEN conjunct1] d1]
  have ti: "table_ok (d_invites d) i_token (invite_ok (d_users d))" using assms(1) by (simp add: acct_inv_def)
  note row = table_row [OF ti x(1), simplified]
  have un: "unspent_row k (k, row)" "i_redeemed row = None"
    using row(4) x(2) by (auto simp: unspent_row_def invite_ok_def read_invitation_def split: option.splits)
  have only: "p = (k, row)" if "p \<in> set (d_invites d)" "fst p = k" for p
    using ti row(1) mem_map_of [of "d_invites d" k "snd p"] that by (cases p) (auto simp: table_ok_def)
  have "invite_ok (d_users d1) (spend_row k t owner p)" if "invite_ok (d_users d1) p" for p
    using that mu(3) assms(2) by (cases "unspent_row k p") (simp_all add: spend_row_def invite_ok_def)
  then have "acct_inv d'" using mu(1) by (simp add: acct_inv_def x(7)) (blast intro: table_ok_map spend_row_simps)
  moreover have "db_ivt d' = (db_ivt d)(h \<mapsto> spent_by t w (read_invitation row))"
  proof
    fix h'
    have r: "row_by i_token h' (d_invites d') = map_option (spend_row k t owner) (row_by i_token h' (d_invites d))"
      using row_by_map [of i_token "spend_row k t owner" h' "d_invites d"] by (simp add: x(7) d1)
    show "db_ivt d' h' = ((db_ivt d)(h \<mapsto> spent_by t w (read_invitation row))) h'"
    proof (cases "h' = h")
      case True
      have "owner \<noteq> 0" using mu(3) by (auto simp: is_user_def rowid_ok_def)
      then show ?thesis using x(1,6) un r True
        by (simp add: db_ivt_def seen_invite_def spend_row_def spent_by_def read_invitation_def)
    next
      case False
      have "spend_row k t owner p = p" if "row_by i_token h' (d_invites d) = Some p" for p
        using only [of p] row_by_Some [OF that] row(2) False by (cases p) (auto simp: spend_row_def unspent_row_def)
      then show ?thesis using r False by (cases "row_by i_token h' (d_invites d)") (simp_all add: db_ivt_def)
    qed
  qed
  moreover have "db_acc d' = db_acc d1" by (simp add: db_acc_def x(7) fun_eq_iff)
  ultimately show ?thesis using mu(2) iu x
    by (simp add: db_ivt_def seen_invite_def redeemable_def)
qed

lemma one_row: "distinct (keys t) \<Longrightarrow> map_of t k = Some r \<Longrightarrow> length (filter (\<lambda>p. fst p = k) t) = 1"
proof (induction t)
  case (Cons p t)
  show ?case
  proof (cases "fst p = k")
    case True
    then have "filter (\<lambda>p. fst p = k) t = []" using Cons.prems(1) by (force simp: filter_empty_conv image_iff)
    then show ?thesis using True by simp
  qed (use Cons in auto)
qed simp

lemma invites_redeem_Inr:
  "invites_redeem e h t r d = (Inr w, d') \<Longrightarrow> redeem_body e h t r d = Inr (w, d')"
  by (auto simp: invites_redeem_def result_iff split: sum.splits)

lemma redeem_body_up:
  assumes "acct_inv d" "db_up e" "acct_room d" "user_fits r" "db_ivt d h = Some i" "redeemable i t"
    and "iv_email i = us_email (ac_user r)" "db_acc d (iv_email i) = None"
  shows "\<exists>w d'. redeem_body e h t r d = Inr (w, d')"
proof -
  obtain k row where p: "row_by i_token h (d_invites d) = Some (k, row)" "i = read_invitation row"
    using assms(5) by (auto simp: db_ivt_def seen_invite_def)
  have ti: "table_ok (d_invites d) i_token (invite_ok (d_users d))" using assms(1) by (simp add: acct_inv_def)
  note row = table_row [OF ti p(1), simplified]
  have un: "i_redeemed row = None"
    using row(4) assms(6) p(2) by (auto simp: invite_ok_def read_invitation_def redeemable_def split: option.splits)
  have "db_use e 3 = Inr ()" using assms(2) by simp
  from insert_user_up(1) [OF this assms(3,4)] assms(7,8) obtain owner d1
    where iu: "insert_user ''database: redeem invitation'' e 3 (now e) r d = Inr (owner, d1)" by metis
  have dk: "distinct (keys (d_invites d))" using ti by (simp add: table_ok_def)
  have d1: "d_invites d1 = d_invites d" using insert_user_Inr [OF assms(1) iu] by simp
  have "filter (unspent_row k) (d_invites d) = filter (\<lambda>p. fst p = k) (d_invites d)"
    using row(1) un mem_map_of [OF dk] by (intro filter_cong refl) (auto simp: unspent_row_def)
  also have "length \<dots> = 1" using one_row [OF dk row(1)] .
  finally have "length (filter (unspent_row k) (d_invites d1)) = 1" by (simp add: d1)
  then show ?thesis
    using assms(2,6,7) p iu by (simp add: redeem_body_def Let_def redeemable_def)
qed

interpretation invites: invite_store invite_db_ops db_up acct_room user_fits acct_inv db_acc db_ivt
proof unfold_locales
  fix st e h i
  assume "db_up e" "db_ivt st h = Some i"
  then show "io_by_token invite_db_ops e h st = Inr i"
    by (auto simp: invites_by_token_def db_ivt_def seen_invite_def)
next
  fix st e h i
  assume "io_by_token invite_db_ops e h st = Inr i"
  then show "db_ivt st h = Some i"
    by (auto simp: invites_by_token_def db_ivt_def seen_invite_def result_iff split: option.splits)
next
  fix st e h
  assume "db_up e" "db_ivt st h = None"
  then show "\<exists>err. io_by_token invite_db_ops e h st = Inl err \<and> errors_is err ErrNotInvited"
    by (simp add: invites_by_token_def db_ivt_None)
next
  fix st e h and i :: invitation and st'
  assume "acct_inv st" "io_create invite_db_ops e h i st = (Inr (), st')" "iv_redeemed i = 0" "iv_user i = []"
  then show "acct_inv st' \<and> db_ivt st h = None \<and> db_ivt st' = (db_ivt st)(h \<mapsto> i) \<and> db_acc st' = db_acc st"
    using invites_create_Inr by simp
next
  fix e h i st err st'
  assume "io_create invite_db_ops e h i st = (Inl err, st')"
  then show "st' = st" using invites_Inl(1) by simp
next
  fix st e and r :: account and h and i :: invitation and t
  assume a: "acct_inv st" "db_up e" "acct_room st" "user_fits r" "db_ivt st h = Some i" "redeemable i t"
    "iv_email i = us_email (ac_user r)" "db_acc st (iv_email i) = None"
  from redeem_body_up [OF this] obtain w st' where "redeem_body e h t r st = Inr (w, st')" by blast
  then show "\<exists>w st'. io_redeem invite_db_ops e h t r st = (Inr w, st')"
    using a(2) by (simp add: invites_redeem_def)
next
  fix st t e h r w st'
  assume a: "acct_inv st" "\<not> is_zero t" "io_redeem invite_db_ops e h t r st = (Inr w, st')"
  then have "redeem_body e h t r st = Inr (w, st')" using invites_redeem_Inr by simp
  from redeem_body_Inr [OF a(1,2) this]
  show "acct_inv st' \<and> us_email w = us_email (ac_user r) \<and> db_acc st (us_email w) = None
        \<and> db_acc st' = (db_acc st)(us_email w \<mapsto> (us_id w, ac_hash r))
        \<and> (\<exists>i. db_ivt st h = Some i \<and> redeemable i t \<and> iv_email i = us_email w \<and> db_ivt st' = (db_ivt st)(h \<mapsto> spent_by t w i))" .
next
  fix st e h t r
  assume "db_up e" "case db_ivt st h of None \<Rightarrow> True | Some i \<Rightarrow> \<not> redeemable i t"
  then show "\<exists>err. io_redeem invite_db_ops e h t r st = (Inl err, st) \<and> errors_is err ErrNotInvited"
    by (auto simp: invites_redeem_def redeem_body_def db_ivt_def seen_invite_def redeemable_def split: option.splits)
next
  fix e h t r st err st'
  assume "io_redeem invite_db_ops e h t r st = (Inl err, st')"
  then show "st' = st" using invites_Inl(2) by simp
next
  fix st e t t' n st'
  assume a: "acct_inv st" "io_delete_spent invite_db_ops e t t' st = (Inr n, st')"
  then have st': "st' = st\<lparr>d_invites := filter (\<lambda>p. \<not> spent_row t t' p) (d_invites st)\<rparr>"
    by (auto simp: invites_delete_spent_def split: sum.splits)
  have ti: "table_ok (d_invites st) i_token (invite_ok (d_users st))" using a(1) by (simp add: acct_inv_def)
  then have dc: "distinct (column i_token (d_invites st))" by (simp add: table_ok_def)
  have "db_ivt st' h = (case db_ivt st h of None \<Rightarrow> None | Some i \<Rightarrow>
      if (if is_zero (iv_redeemed i) then iv_expires i < t else iv_redeemed i < t') then None else Some i)" for h
  proof (cases "row_by i_token h (d_invites st)")
    case None
    then show ?thesis by (simp add: st' db_ivt_def row_by_filter [OF dc])
  next
    case (Some p)
    from table_row(4) [OF ti Some] have "invite_ok (d_users st) p" .
    then consider "i_redeemed (snd p) = None" | x where "i_redeemed (snd p) = Some x" "\<not> is_zero x"
      by (auto simp: invite_ok_def split: option.splits)
    then show ?thesis
      by cases (simp_all add: Some st' db_ivt_def row_by_filter [OF dc] seen_invite_def spent_row_def read_invitation_def)
  qed
  moreover have "acct_inv st'" using a(1) table_ok_filter [OF ti] by (simp add: acct_inv_def st')
  moreover have "db_acc st' = db_acc st" by (simp add: st' db_acc_def fun_eq_iff)
  ultimately show "acct_inv st' \<and> db_acc st' = db_acc st \<and> (\<forall>h. db_ivt st' h = (case db_ivt st h of None \<Rightarrow> None
          | Some i \<Rightarrow> if (if is_zero (iv_redeemed i) then iv_expires i < t else iv_redeemed i < t') then None else Some i))"
    by simp
next
  fix e t t' st err st'
  assume "io_delete_spent invite_db_ops e t t' st = (Inl err, st')"
  then show "st' = st" using invites_Inl(3) by simp
qed

end
