(* ===== verification/Db_Whole.thy ===== *)
theory Db_Whole
  imports Db_Store_Laws Db_Account_Laws
begin

text \<open>
  The database as a whole: every call that writes, by any of its four stores, keeps the
  constraints of all five tables, and the two halves (accounts and games) do not touch each
  other.
\<close>

section \<open>The calls that write\<close>

datatype game_call =
    CreateGame Game_Types.session
  | UpdateGame Game_Types.session
  | DeleteGame string string
  | CreateSave snapshot
  | DeleteSave string string string

datatype account_call =
    CreateUser account
  | CreateLogin "256 word" login
  | DeleteLogin "256 word"
  | DeleteExpiredLogins time
  | CreateInvite "256 word" invitation
  | RedeemInvite "256 word" time account
  | DeleteSpentInvites time time

fun game_write :: "unicode \<Rightarrow> env \<Rightarrow> game_call \<Rightarrow> db \<Rightarrow> db" where
  "game_write u e (CreateGame s) d = snd (games_create u e s d)"
| "game_write u e (UpdateGame s) d = snd (games_update u e s d)"
| "game_write u e (DeleteGame user i) d = snd (games_delete u e user i d)"
| "game_write u e (CreateSave n) d = snd (games_create_save u e n d)"
| "game_write u e (DeleteSave user i k) d = snd (games_delete_save u e user i k d)"

fun account_write :: "unicode \<Rightarrow> env \<Rightarrow> account_call \<Rightarrow> db \<Rightarrow> db" where
  "account_write u e (CreateUser r) d = snd (users_create e r d)"
| "account_write u e (CreateLogin h s) d = snd (logins_create u e h s d)"
| "account_write u e (DeleteLogin h) d = snd (logins_delete e h d)"
| "account_write u e (DeleteExpiredLogins t) d = snd (logins_delete_expired e t d)"
| "account_write u e (CreateInvite h i) d = snd (invites_create e h i d)"
| "account_write u e (RedeemInvite h t r) d = snd (invites_redeem e h t r d)"
| "account_write u e (DeleteSpentInvites t t') d = snd (invites_delete_spent e t t' d)"

type_synonym db_call = "game_call + account_call"

definition db_write :: "unicode \<Rightarrow> env \<Rightarrow> db_call \<Rightarrow> db \<Rightarrow> db" where
  "db_write u e c d = (case c of Inl g \<Rightarrow> game_write u e g d | Inr a \<Rightarrow> account_write u e a d)"

fun db_writes :: "unicode \<Rightarrow> (env \<times> db_call) list \<Rightarrow> db \<Rightarrow> db" where
  "db_writes u [] d = d"
| "db_writes u ((e, c) # cs) d = db_writes u cs (db_write u e c d)"

text \<open>
  What the services see to before they call: save names are clean, and the clock has started.
\<close>

fun call_ok :: "db_call \<Rightarrow> bool" where
  "call_ok (Inl (CreateSave n)) \<longleftrightarrow> clean_name (n_name n)"
| "call_ok (Inr (RedeemInvite h t r)) \<longleftrightarrow> \<not> is_zero t"
| "call_ok _ \<longleftrightarrow> True"

definition whole_inv :: "db \<Rightarrow> bool" where
  "whole_inv d \<longleftrightarrow> db_inv d \<and> acct_inv d"

section \<open>The games' half\<close>

definition same_accounts :: "db \<Rightarrow> db \<Rightarrow> bool" where
  "same_accounts d d' \<longleftrightarrow> d_users d' = d_users d \<and> d_auth d' = d_auth d \<and> d_invites d' = d_invites d"

lemma same_accounts_refl [simp]: "same_accounts d d" by (simp add: same_accounts_def)

lemma same_accounts_inv: "same_accounts d d' \<Longrightarrow> acct_inv d' \<longleftrightarrow> acct_inv d"
  by (simp add: same_accounts_def acct_inv_def)

lemma same_accounts_seen: "same_accounts d d' \<Longrightarrow> db_acc d' = db_acc d \<and> db_tok d' = db_tok d \<and> db_ivt d' = db_ivt d"
  by (simp add: same_accounts_def db_acc_def db_tok_def db_ivt_def fun_eq_iff)

lemma create_game_whole:
  assumes "db_inv d"
  shows "db_inv (snd (games_create u e s d))" "same_accounts d (snd (games_create u e s d))"
proof -
  obtain r d' where c: "games_create u e s d = (r, d')" by force
  have "db_inv d' \<and> same_accounts d d'"
    using games_create_cases [OF c]
  proof (elim disjE exE conjE)
    fix owner k
    let ?g = "game_row_of owner (now e) s"
    assume o: "user_row_id u (s_user s) = Inr owner" "next_rowid (d_games d) = Some k" "check_game ?g"
      "map_of (d_users d) owner \<noteq> None" "d' = d\<lparr>d_games := (k, ?g) # d_games d\<rparr>"
    have f: "k \<notin> set (keys (d_games d))" "rowid_ok k" using next_rowid_fresh [OF o(2)] by auto
    have "game_ok d k ?g" using o f by (auto simp: game_ok_def game_row_of_def result_iff)
    from db_inv_games_put [OF assms this o(5)] f assms show ?thesis
      by (simp add: o(5) same_accounts_def db_inv_def)
  qed (use assms in simp)
  then show "db_inv (snd (games_create u e s d))" "same_accounts d (snd (games_create u e s d))" by (simp_all add: c)
qed

lemma update_game_whole:
  assumes "db_inv d"
  shows "db_inv (snd (games_update u e s d))" "same_accounts d (snd (games_update u e s d))"
proof -
  obtain r d' where c: "games_update u e s d = (r, d')" by force
  have "db_inv d' \<and> same_accounts d d'"
  proof (cases r)
    case (Inl err)
    then show ?thesis using games_update_fail [of u e s d err d'] c assms by simp
  next
    case (Inr s')
    from games_update_Inr [OF c [unfolded Inr]] obtain k g where k: "map_of (d_games d) k = Some g"
        "d' = d\<lparr>d_games := AList.update k (updated_row (now e) s g) (d_games d)\<rparr>"
        "check_game (updated_row (now e) s g)" by blast
    have "game_ok d k (updated_row (now e) s g)"
      using db_inv_game [OF assms k(1)] k(3) by (simp add: game_ok_def updated_row_def)
    from db_inv_games_put [OF assms this k(2)] assms show ?thesis
      by (simp add: db_inv_def distinct_update update_conv' k(2) same_accounts_def)
  qed
  then show "db_inv (snd (games_update u e s d))" "same_accounts d (snd (games_update u e s d))" by (simp_all add: c)
qed

lemma delete_game_whole:
  assumes "db_inv d"
  shows "db_inv (snd (games_delete u e user i d))" "same_accounts d (snd (games_delete u e user i d))"
proof -
  obtain r d' where c: "games_delete u e user i d = (r, d')" by force
  have "db_inv d' \<and> same_accounts d d'"
  proof (cases "d' = d")
    case True
    then show ?thesis using assms by simp
  next
    case False
    from db_delete_did [OF assms c False] obtain k g where k: "d' = drop_game k d" "rowid_ok k" "map_of (d_games d) k = Some g" by blast
    show ?thesis using drop_game_view [OF assms k(2)] by (simp add: k(1) same_accounts_def drop_game_def)
  qed
  then show "db_inv (snd (games_delete u e user i d))" "same_accounts d (snd (games_delete u e user i d))" by (simp_all add: c)
qed

lemma write_save_accounts: "write_save u e owner game n d = Inr (k, r, j, d') \<Longrightarrow> same_accounts d d'"
  by (auto simp: write_save_def replace_save_def insert_save_def result_iff Let_def same_accounts_def
      split: option.splits if_splits)

lemma create_save_whole:
  assumes "db_inv d" "clean_name (n_name n)"
  shows "db_inv (snd (games_create_save u e n d))" "same_accounts d (snd (games_create_save u e n d))"
proof -
  obtain r d' where c: "games_create_save u e n d = (r, d')" by force
  have "db_inv d' \<and> same_accounts d d'"
  proof (cases r)
    case (Inl err)
    then show ?thesis using games_create_save_fail [of u e n d err d'] c assms by simp
  next
    case (Inr p)
    then obtain sv b where "r = Inr (sv, b)" by (cases p) auto
    from games_create_save_Inr [OF c [unfolded this]] obtain owner game k j d1 where
      w: "row_id u (n_game n) = Inr game" "\<not> no_bytes (n_state n)"
        "write_save u e owner game (n\<lparr>n_created := now e\<rparr>) d = Inr (k, b, j, d1)" "d' = (if ctx_err e j = None then d1 else d)"
      by blast
    have "rowid_ok game" using w(1) by (simp add: result_iff)
    then show ?thesis using write_save_Inr [OF assms(1) w(3)] write_save_accounts [OF w(3)] w(2,4) assms by simp
  qed
  then show "db_inv (snd (games_create_save u e n d))" "same_accounts d (snd (games_create_save u e n d))" by (simp_all add: c)
qed

lemma delete_save_accounts: "same_accounts d (snd (games_delete_save u e user i k d))"
proof -
  obtain r d' where c: "games_delete_save u e user i k d = (r, d')" by force
  show ?thesis
    using games_delete_save_fail [of u e user i k d _ d'] games_delete_save_Inr [of u e user i k d _ d'] c
    by (cases r) (auto simp: same_accounts_def)
qed

lemma game_write_whole:
  assumes "db_inv d" "call_ok (Inl c)"
  shows "db_inv (game_write u e c d)" "same_accounts d (game_write u e c d)"
  using assms create_game_whole [OF assms(1)] update_game_whole [OF assms(1)] delete_game_whole [OF assms(1)]
    create_save_whole [OF assms(1)] db_delete_save_inv [OF assms(1)] delete_save_accounts
  by (cases c; simp)+

section \<open>The accounts' half\<close>

text \<open>No account call takes a user away, or touches a game.\<close>

definition same_games :: "db \<Rightarrow> db \<Rightarrow> bool" where
  "same_games d d' \<longleftrightarrow> d_games d' = d_games d \<and> d_saves d' = d_saves d
     \<and> (\<forall>k. map_of (d_users d) k \<noteq> None \<longrightarrow> map_of (d_users d') k \<noteq> None)"

lemma same_games_refl [simp]: "same_games d d" by (simp add: same_games_def)

lemma same_games_inv: "same_games d d' \<Longrightarrow> db_inv d \<Longrightarrow> db_inv d'"
  unfolding db_inv_def game_ok_def save_ok_def same_games_def by metis

lemma same_games_seen: "same_games d d' \<Longrightarrow> db_sess d' = db_sess d \<and> db_shelf d' = db_shelf d"
proof -
  assume "same_games d d'"
  then have g: "d_games d' = d_games d" "d_saves d' = d_saves d" by (simp_all add: same_games_def)
  show ?thesis unfolding fun_eq_iff db_sess_def db_shelf_def g by simp
qed

lemma insert_user_games: "insert_user what e j t r d = Inr (k, d') \<Longrightarrow> same_games d d'"
  by (auto simp: insert_user_def result_iff Let_def same_games_def split: option.splits if_splits)

lemma redeem_games: "redeem_body e h t r d = Inr (w, d') \<Longrightarrow> same_games d d'"
  by (auto simp: redeem_body_def bind_r_Inr Let_def split: option.splits if_splits prod.splits dest!: insert_user_games)
    (auto simp: same_games_def)

lemma account_write_games: "same_games d (account_write u e c d)"
proof (cases c)
  case (CreateUser r)
  obtain x d' where "users_create e r d = (x, d')" by force
  then show ?thesis using users_create_Inr [of e r d _ d'] users_create_Inl [of e r d _ d']
    by (cases x) (auto simp: CreateUser dest: insert_user_games)
next
  case (RedeemInvite h t r)
  obtain x d' where "invites_redeem e h t r d = (x, d')" by force
  then show ?thesis using invites_redeem_Inr [of e h t r d _ d'] invites_Inl(2) [of e h t r d _ d']
    by (cases x) (auto simp: RedeemInvite dest: redeem_games)
qed (auto simp: same_games_def logins_create_def logins_delete_def logins_delete_expired_def invites_create_def
    invites_delete_spent_def split: sum.splits)

lemma account_write_inv:
  assumes "acct_inv d" "call_ok (Inr c)"
  shows "acct_inv (account_write u e c d)"
proof (cases c)
  case (CreateUser r)
  obtain x d' where x: "users_create e r d = (x, d')" by force
  then show ?thesis using users.create_effect [OF assms(1), of u e r _ d'] users_create_Inl [of e r d _ d'] assms(1)
    by (cases x) (auto simp: CreateUser)
next
  case (CreateLogin h s)
  then show ?thesis using logins_create_inv [OF assms(1)] by simp
next
  case (DeleteLogin h)
  obtain x d' where x: "logins_delete e h d = (x, d')" by force
  then show ?thesis using logins.delete_effect [OF assms(1), of u e h d'] logins_Inl(2) [of e h d _ d'] assms(1)
    by (cases x) (auto simp: DeleteLogin)
next
  case (DeleteExpiredLogins t)
  obtain x d' where x: "logins_delete_expired e t d = (x, d')" by force
  then show ?thesis using logins.sweep_effect [OF assms(1), of u e t _ d'] logins_Inl(3) [of e t d _ d'] assms(1)
    by (cases x) (auto simp: DeleteExpiredLogins)
next
  case (CreateInvite h i)
  then show ?thesis using invites_create_inv [OF assms(1)] by simp
next
  case (RedeemInvite h t r)
  obtain x d' where x: "invites_redeem e h t r d = (x, d')" by force
  then show ?thesis using invites.redeem_effect [OF assms(1), of t e h r _ d'] invites_Inl(2) [of e h t r d _ d'] assms
    by (cases x) (auto simp: RedeemInvite)
next
  case (DeleteSpentInvites t t')
  obtain x d' where x: "invites_delete_spent e t t' d = (x, d')" by force
  then show ?thesis using invites.spent_effect [OF assms(1), of e t t' _ d'] invites_Inl(3) [of e t t' d _ d'] assms(1)
    by (cases x) (auto simp: DeleteSpentInvites)
qed

section \<open>Both halves\<close>

lemma db_write_inv:
  assumes "whole_inv d" "call_ok c"
  shows "whole_inv (db_write u e c d)"
proof (cases c)
  case (Inl g)
  have d: "db_inv d" "acct_inv d" using assms(1) by (simp_all add: whole_inv_def)
  note w = game_write_whole [OF d(1) assms(2) [unfolded Inl], of u e]
  show ?thesis using w(1) same_accounts_inv [OF w(2)] d(2) by (simp add: Inl db_write_def whole_inv_def)
next
  case (Inr a)
  then show ?thesis using assms account_write_inv [of d a u e] same_games_inv [OF account_write_games [of d u e a]]
    by (simp add: db_write_def whole_inv_def)
qed

lemma db_writes_inv: "whole_inv d \<Longrightarrow> \<forall>(e, c) \<in> set cs. call_ok c \<Longrightarrow> whole_inv (db_writes u cs d)"
  by (induction u cs d rule: db_writes.induct) (auto simp: db_write_inv)

lemma whole_inv_empty: "whole_inv empty_db"
  using db_inv_empty [of "[]"] acct_inv_empty by (simp add: whole_inv_def empty_db_def)

end
