(* ===== verification/Rate_Limit_Laws.thy ===== *)
theory Rate_Limit_Laws
  imports Rate_Limit "HOL-Library.Sublist"
begin

text \<open>
  What the limiter promises. A reference limiter never forgets a key: it is the token bucket
  and nothing else. The limiter answers as the reference does while its map is not over its
  cap, because a swept bucket is a full one; and the reference lets a key through at most
  \<open>burst\<close> times plus once per refill, up to the rounding of \<open>float64\<close>.
\<close>

section \<open>The reference\<close>

definition ref_allow :: "limiter \<Rightarrow> time \<Rightarrow> string \<Rightarrow> (string \<rightharpoonup> bucket) \<Rightarrow> bool \<times> (string \<rightharpoonup> bucket)" where
  "ref_allow l t key m =
     (let tokens = (case m key of Some b \<Rightarrow> refilled l b t | None \<Rightarrow> lm_burst l) in
      if tokens < 1 then (False, m(key \<mapsto> \<lparr>bk_tokens = tokens, bk_seen = t\<rparr>))
      else (True, m(key \<mapsto> \<lparr>bk_tokens = fl (tokens - 1), bk_seen = t\<rparr>)))"

fun ref_all :: "limiter \<Rightarrow> (time \<times> string) list \<Rightarrow> (string \<rightharpoonup> bucket) \<Rightarrow> bool list" where
  "ref_all l [] m = []"
| "ref_all l ((t, key) # qs) m = (let (ok, m') = ref_allow l t key m in ok # ref_all l qs m')"

lemma settings_simps [simp]:
  "refilled (l\<lparr>lm_buckets := x\<rparr>) = refilled l" "refilled (l\<lparr>lm_buckets := x, lm_swept := s\<rparr>) = refilled l"
  "bucket_ok (l\<lparr>lm_buckets := x\<rparr>) = bucket_ok l" "bucket_ok (l\<lparr>lm_buckets := x, lm_swept := s\<rparr>) = bucket_ok l"
  by (simp_all add: refilled_def bucket_ok_def fun_eq_iff Let_def)

lemma ref_allow_cong:
  assumes "lm_burst l = lm_burst k" "lm_refill l = lm_refill k"
  shows "ref_allow l = ref_allow k"
  unfolding ref_allow_def refilled_cong [OF assms] assms(1) by (rule refl)

lemma ref_all_cong:
  assumes "lm_burst l = lm_burst k" "lm_refill l = lm_refill k"
  shows "ref_all l qs m = ref_all k qs m"
proof (induction qs arbitrary: m)
  case (Cons p ps)
  with ref_allow_cong [OF assms] show ?case by (cases p) simp
qed simp

section \<open>Forgetting full buckets changes no answer\<close>

text \<open>A bucket that is full at one time is full at every later one.\<close>

lemma full_stays:
  assumes "settings_ok l" "bucket_ok l b" "refilled l b t = lm_burst l" "t \<le> t'"
  shows "refilled l b t' = lm_burst l"
proof -
  obtain n where n: "lm_burst l = of_int n" "1 \<le> n" "n \<le> 2 ^ 53" using assms(1) by (auto simp: settings_ok_def)
  have r: "0 < (of_int (lm_refill l) :: rat)" "fl (of_int (lm_refill l)) = of_int (lm_refill l)"
    using assms(1) by (simp_all add: settings_ok_def fl_of_int)
  have b: "0 \<le> bk_tokens b" "bk_tokens b \<le> lm_burst l" using assms(2) by (simp_all add: bucket_ok_def)
  let ?e = "time_sub t (bk_seen b)" and ?e' = "time_sub t' (bk_seen b)"
  let ?g = "\<lambda>k. fl (bk_tokens b + fl (fl (of_int k) / of_int (lm_refill l)))"
  have le: "?e \<le> ?e'" using assms(4) by (auto simp: time_sub_def)
  show ?thesis
  proof (cases "?e' \<le> 0")
    case True
    then show ?thesis using le assms(3) by (simp add: refilled_def)
  next
    case False
    have "lm_burst l \<le> ?g ?e'"
    proof (cases "?e \<le> 0")
      case True
      then have "bk_tokens b = of_int n" using assms(3) n by (simp add: refilled_def)
      then have "of_int n \<le> bk_tokens b + fl (fl (of_int ?e') / of_int (lm_refill l))"
        using False r(1) by (simp add: fl_nonneg)
      from fl_mono [OF _ this] show ?thesis using n by (simp add: fl_of_int)
    next
      case pos: False
      have "?g ?e \<le> ?g ?e'"
        using pos le r(1) b(1) by (intro fl_mono add_left_mono add_nonneg_nonneg fl_nonneg divide_right_mono
            divide_nonneg_pos) (simp_all add: fl_nonneg)
      moreover have "lm_burst l \<le> ?g ?e" using assms(3) pos r(2) by (simp add: refilled_def Let_def min_def split: if_splits)
      ultimately show ?thesis by simp
    qed
    then show ?thesis using False r(2) by (simp add: refilled_def Let_def)
  qed
qed

text \<open>How the map stands to the reference's at time \<open>t\<close>: an entry is there, or it was a full one.\<close>

definition forgets_full :: "limiter \<Rightarrow> time \<Rightarrow> (string \<rightharpoonup> bucket) \<Rightarrow> bool" where
  "forgets_full l t m \<longleftrightarrow> (\<forall>k. map_of (lm_buckets l) k = m k \<or> map_of (lm_buckets l) k = None
     \<and> (\<exists>b. m k = Some b \<and> bucket_ok l b \<and> refilled l b t = lm_burst l))"

lemma forgets_full_later:
  assumes "settings_ok l" "forgets_full l t m" "t \<le> t'"
  shows "forgets_full l t' m"
  using assms full_stays [OF assms(1)] unfolding forgets_full_def by metis

lemma forgets_full_put:
  "forgets_full l t m \<Longrightarrow>
    forgets_full (l\<lparr>lm_buckets := AList.update k b (lm_buckets l)\<rparr>) t (m(k \<mapsto> b))"
  by (simp add: forgets_full_def update_conv')

lemma prune_forgets_full:
  assumes "limiter_inv l" "forgets_full l t m" "distinct (keys b)" "set b \<subseteq> set (lm_buckets l)"
    and "\<forall>p \<in> set (lm_buckets l). p \<in> set b \<or> refilled l (snd p) t = lm_burst l"
  shows "forgets_full (l\<lparr>lm_buckets := b, lm_swept := s\<rparr>) t m"
proof -
  have d: "distinct (keys (lm_buckets l))" "\<And>p. p \<in> set (lm_buckets l) \<Longrightarrow> bucket_ok l (snd p)"
    using assms(1) by (simp_all add: limiter_inv_def)
  have "map_of b k = m k \<or> map_of b k = None \<and> (\<exists>c. m k = Some c \<and> bucket_ok l c \<and> refilled l c t = lm_burst l)" for k
  proof (cases "map_of (lm_buckets l) k")
    case None
    then have "map_of b k = None" using assms(4) by (auto simp: map_of_eq_None_iff)
    then show ?thesis using assms(2) None unfolding forgets_full_def by metis
  next
    case (Some c)
    then have c: "(k, c) \<in> set (lm_buckets l)" "m k = Some c"
      using map_of_SomeD assms(2) unfolding forgets_full_def by (fastforce, metis option.distinct(1))
    have "map_of b k = Some c \<or> map_of b k = None"
      using Some assms(3,4) d(1) by (metis mem_map_of not_None_eq subsetD)
    moreover have "(k, c) \<in> set b \<Longrightarrow> map_of b k = Some c" using assms(3) by simp
    ultimately show ?thesis using c assms(5) d(2) by fastforce
  qed
  then show ?thesis by (simp add: forgets_full_def)
qed

lemma spend_ref:
  assumes "forgets_full l t m" "spend key t x l = ((w, ok), l')"
    and "x = (case m key of Some b \<Rightarrow> refilled l b t | None \<Rightarrow> lm_burst l)"
  shows "\<exists>m'. ref_allow l t key m = (ok, m') \<and> forgets_full l' t m' \<and> lm_burst l' = lm_burst l
    \<and> lm_refill l' = lm_refill l \<and> lm_max l' = lm_max l
    \<and> set (keys (lm_buckets l')) = insert key (set (keys (lm_buckets l)))"
proof -
  define b where "b = \<lparr>bk_tokens = (if ok then fl (x - 1) else x), bk_seen = t\<rparr>"
  have l': "l' = l\<lparr>lm_buckets := AList.update key b (lm_buckets l)\<rparr>" and r: "ref_allow l t key m = (ok, m(key \<mapsto> b))"
    using assms(2,3) by (auto simp: spend_def ref_allow_def b_def Let_def split: if_splits)
  have "set (keys (AList.update key b (lm_buckets l))) = insert key (set (keys (lm_buckets l)))"
    using dom_update [of key b "lm_buckets l"] by simp
  then show ?thesis using r forgets_full_put [OF assms(1), of key b] by (simp add: l')
qed

text \<open>One call, when there is room for its key or it is in the map already.\<close>

lemma allow_ref:
  assumes "fair_visit visit" "limiter_inv l" "forgets_full l t m"
    and "key \<in> set (keys (lm_buckets l)) \<or> int (length (lm_buckets l)) < lm_max l"
  shows "\<exists>w ok l' m'. allow visit t key l = Some ((w, ok), l') \<and> limiter_inv l'
    \<and> ref_allow l t key m = (ok, m') \<and> forgets_full l' t m'
    \<and> lm_burst l' = lm_burst l \<and> lm_refill l' = lm_refill l \<and> lm_max l' = lm_max l
    \<and> set (keys (lm_buckets l')) \<subseteq> insert key (set (keys (lm_buckets l)))"
proof (cases "map_of (lm_buckets l) key")
  case (Some b)
  then have m: "m key = Some b" using assms(3) unfolding forgets_full_def by (metis option.distinct(1))
  obtain w ok l' where s: "spend key t (refilled l b t) l = ((w, ok), l')" by (metis surj_pair)
  have a: "allow visit t key l = Some ((w, ok), l')" using Some s by (simp add: allow_def)
  have "limiter_inv l'" using allow_inv [OF assms(1,2), of t key] a by auto
  with a spend_ref [OF assms(3) s] m show ?thesis by auto
next
  case None
  then have room: "int (length (lm_buckets l)) < lm_max l" using assms(4) by (auto simp: map_of_eq_None_iff)
  obtain b s where p: "prune visit t l = Some (l\<lparr>lm_buckets := b, lm_swept := s\<rparr>)"
      "limiter_inv (l\<lparr>lm_buckets := b, lm_swept := s\<rparr>)" "set b \<subseteq> set (lm_buckets l)"
      "\<forall>p \<in> set (lm_buckets l). p \<in> set b \<or> refilled l (snd p) t = lm_burst l"
    using prune_inv [OF assms(1,2), of t] room by metis
  let ?l = "l\<lparr>lm_buckets := b, lm_swept := s\<rparr>"
  have f: "forgets_full ?l t m"
    using prune_forgets_full [OF assms(2,3) _ p(3,4)] p(2) by (simp add: limiter_inv_def)
  have tokens: "lm_burst ?l = (case m key of Some c \<Rightarrow> refilled ?l c t | None \<Rightarrow> lm_burst ?l)"
  proof (cases "m key")
    case (Some c)
    then have "refilled l c t = lm_burst l"
      using spec [OF assms(3) [unfolded forgets_full_def], of key] None by simp
    then show ?thesis by (simp add: Some)
  qed simp
  obtain w ok l' where sp: "spend key t (lm_burst ?l) ?l = ((w, ok), l')" by (metis surj_pair)
  have a: "allow visit t key l = Some ((w, ok), l')" using None p(1) sp by (simp add: allow_def)
  have i: "limiter_inv l'" using allow_inv [OF assms(1,2), of t key] a by auto
  have "ref_allow ?l = ref_allow l" by (rule ref_allow_cong) simp_all
  moreover have "insert key (set (keys b)) \<subseteq> insert key (set (keys (lm_buckets l)))" using p(3) by auto
  moreover obtain m' where "ref_allow ?l t key m = (ok, m')" "forgets_full l' t m'" "lm_burst l' = lm_burst l"
      "lm_refill l' = lm_refill l" "lm_max l' = lm_max l" "set (keys (lm_buckets l')) = insert key (set (keys b))"
    using spend_ref [OF f sp tokens] by auto
  ultimately show ?thesis using a i by (intro exI [of _ w] exI [of _ ok] exI [of _ l'] exI [of _ m']) simp
qed

lemma allow_all_ref:
  assumes "fair_visit visit" "limiter_inv l" "forgets_full l t m" "sorted (t # map fst qs)"
    and "finite K" "set (keys (lm_buckets l)) \<subseteq> K" "snd ` set qs \<subseteq> K" "int (card K) \<le> lm_max l"
  shows "\<exists>l'. allow_all visit qs l = Some (ref_all l qs m, l')"
  using assms(2-4,6-8)
proof (induction qs arbitrary: l m t)
  case (Cons q qs)
  obtain t' key where q: "q = (t', key)" by (cases q)
  have f: "forgets_full l t' m"
    using forgets_full_later [of l t m t'] Cons.prems by (simp add: q limiter_inv_def)
  have "key \<in> K" using Cons.prems(5) by (simp add: q)
  have room: "key \<in> set (keys (lm_buckets l)) \<or> int (length (lm_buckets l)) < lm_max l"
  proof (rule disjCI)
    assume "\<not> int (length (lm_buckets l)) < lm_max l"
    then have "card K \<le> card (set (keys (lm_buckets l)))"
      using Cons.prems(1,6) distinct_card [of "keys (lm_buckets l)"] by (simp add: limiter_inv_def)
    then have "set (keys (lm_buckets l)) = K" using card_seteq [OF assms(5) Cons.prems(4)] by simp
    with \<open>key \<in> K\<close> show "key \<in> set (keys (lm_buckets l))" by simp
  qed
  obtain w ok l' m' where a: "allow visit t' key l = Some ((w, ok), l')" "limiter_inv l'"
      "ref_allow l t' key m = (ok, m')" "forgets_full l' t' m'"
      "lm_burst l' = lm_burst l" "lm_refill l' = lm_refill l" "lm_max l' = lm_max l"
      "set (keys (lm_buckets l')) \<subseteq> insert key (set (keys (lm_buckets l)))"
    using allow_ref [OF assms(1) Cons.prems(1) f room] by blast
  have "ref_all l' qs m' = ref_all l qs m'" by (rule ref_all_cong [OF a(5,6)])
  moreover have "\<exists>l''. allow_all visit qs l' = Some (ref_all l' qs m', l'')"
  proof (rule Cons.IH [OF a(2,4)])
    show "set (keys (lm_buckets l')) \<subseteq> K" using a(8) Cons.prems(4) \<open>key \<in> K\<close> by blast
  qed (use Cons.prems a(7) in \<open>auto simp: q\<close>)
  ultimately show ?case using a(1,3) by (auto simp: q)
qed simp

section \<open>The rate\<close>

definition drift :: rat where "drift = (1 + unit_round) ^ 3"

lemma drift_step: "(b + q * (1 + u) ^ 2) * (1 + u) = b + b * u + q * (1 + u) ^ 3" for b q u :: rat
  by (simp add: power2_eq_square power3_eq_cube algebra_simps)

text \<open>What one call of a key adds to its bucket, counting a call let through as a token.\<close>

lemma refilled_gain:
  assumes "settings_ok l" "bucket_ok l b" "bk_seen b \<le> t"
  shows "refilled l b t \<le> bk_tokens b + of_int (t - bk_seen b) / of_int (lm_refill l) * drift + lm_burst l * unit_round"
proof -
  have r: "0 < (of_int (lm_refill l) :: rat)" "fl (of_int (lm_refill l)) = of_int (lm_refill l)"
    using assms(1) by (simp_all add: settings_ok_def fl_of_int)
  have b: "0 \<le> bk_tokens b" "bk_tokens b \<le> lm_burst l" using assms(2) by (simp_all add: bucket_ok_def)
  have u: "0 \<le> unit_round" by (simp add: unit_round_def)
  let ?e = "time_sub t (bk_seen b)" and ?q = "\<lambda>k. of_int k / of_int (lm_refill l) :: rat"
  have e: "?e \<le> t - bk_seen b" using assms(3) by (simp add: time_sub_def)
  have gain: "0 \<le> ?q (t - bk_seen b) * drift" using assms(3) r(1) u by (simp add: drift_def)
  have bu: "0 \<le> lm_burst l * unit_round" using b u by simp
  show ?thesis
  proof (cases "?e \<le> 0")
    case True
    then show ?thesis using gain bu by (simp add: refilled_def)
  next
    case False
    let ?x = "fl (of_int ?e)" let ?y = "fl (?x / of_int (lm_refill l))"
    have x: "0 \<le> ?x" "?x \<le> of_int ?e * (1 + unit_round)" using False fl_upper [of "of_int ?e"] fl_nonneg by auto
    have "?x / of_int (lm_refill l) \<le> of_int ?e * (1 + unit_round) / of_int (lm_refill l)"
      using x r(1) by (intro divide_right_mono) simp_all
    then have xr: "?x / of_int (lm_refill l) \<le> ?q ?e * (1 + unit_round)" by simp
    have "?y \<le> ?x / of_int (lm_refill l) * (1 + unit_round)" using x r(1) by (intro fl_upper) simp
    also have "\<dots> \<le> ?q ?e * (1 + unit_round) * (1 + unit_round)" using xr u by (intro mult_right_mono) simp_all
    finally have y: "?y \<le> ?q ?e * (1 + unit_round) ^ 2" by (simp add: power2_eq_square mult.assoc)
    have y0: "0 \<le> ?y" using x r(1) by (simp add: fl_nonneg)
    have "refilled l b t \<le> fl (bk_tokens b + ?y)" using False r(2) by (simp add: refilled_def Let_def)
    also have "\<dots> \<le> (bk_tokens b + ?y) * (1 + unit_round)" using y0 b by (intro fl_upper) simp
    also have "\<dots> \<le> (bk_tokens b + ?q ?e * (1 + unit_round) ^ 2) * (1 + unit_round)"
      using y u by (intro mult_right_mono) simp_all
    also have "\<dots> = bk_tokens b + bk_tokens b * unit_round + ?q ?e * drift"
      by (simp only: drift_step drift_def)
    also have "bk_tokens b * unit_round \<le> lm_burst l * unit_round" using b u by (intro mult_right_mono) simp_all
    also have "?q ?e * drift \<le> ?q (t - bk_seen b) * drift"
      using e r(1) u by (intro mult_right_mono divide_right_mono) (simp_all add: drift_def)
    finally show ?thesis by simp
  qed
qed

lemma spent_gain:
  assumes "settings_ok l" "1 \<le> x" "x \<le> lm_burst l"
  shows "fl (x - 1) + 1 \<le> x + lm_burst l * unit_round \<and> 0 \<le> fl (x - 1) \<and> fl (x - 1) \<le> lm_burst l"
proof -
  obtain n where n: "lm_burst l = of_int n" "1 \<le> n" "n \<le> 2 ^ 53" using assms(1) by (auto simp: settings_ok_def)
  have u: "0 \<le> unit_round" by (simp add: unit_round_def)
  have "fl (x - 1) \<le> (x - 1) * (1 + unit_round)" using assms(2) by (intro fl_upper) simp
  moreover have "(x - 1) * unit_round \<le> lm_burst l * unit_round" using assms(3) u by (intro mult_right_mono) simp_all
  moreover have "fl (x - 1) \<le> lm_burst l" using fl_le_int [of "x - 1" n] assms n by simp
  ultimately show ?thesis using assms(2) by (simp add: fl_nonneg algebra_simps)
qed

definition passed :: "string \<Rightarrow> (time \<times> string) list \<Rightarrow> bool list \<Rightarrow> nat" where
  "passed key qs oks = length (filter (\<lambda>(q, ok). snd q = key \<and> ok) (zip qs oks))"

definition asked :: "string \<Rightarrow> (time \<times> string) list \<Rightarrow> nat" where
  "asked key qs = length (filter (\<lambda>q. snd q = key) qs)"

lemma passed_Cons: "passed key ((t, k) # qs) (ok # oks) = (if k = key \<and> ok then 1 else 0) + passed key qs oks"
  by (simp add: passed_def)

lemma asked_Cons: "asked key ((t, k) # qs) = (if k = key then 1 else 0) + asked key qs"
  by (simp add: asked_def)

text \<open>The bound for a key with a bucket, in a window that ends at \<open>T\<close>.\<close>

lemma ref_rate_seen:
  assumes "settings_ok l" "m key = Some b" "bucket_ok l b" "sorted (bk_seen b # map fst qs)" "\<forall>q \<in> set qs. fst q \<le> T"
    "bk_seen b \<le> T"
  shows "of_nat (passed key qs (ref_all l qs m)) \<le> bk_tokens b
     + of_int (T - bk_seen b) / of_int (lm_refill l) * drift + 2 * of_nat (asked key qs) * lm_burst l * unit_round"
  using assms(2-)
proof (induction qs arbitrary: m b)
  case Nil
  have "0 \<le> drift" "0 < (of_int (lm_refill l) :: rat)" using assms(1) by (simp_all add: drift_def unit_round_def settings_ok_def)
  then have "0 \<le> of_int (T - bk_seen b) / of_int (lm_refill l) * drift" using Nil.prems(5) by simp
  then show ?case using Nil.prems(2) by (simp add: passed_def asked_def bucket_ok_def)
next
  case (Cons q qs)
  obtain t k where q: "q = (t, k)" by (cases q)
  obtain ok m' where r: "ref_allow l t k m = (ok, m')" by (cases "ref_allow l t k m")
  have t: "bk_seen b \<le> t" "t \<le> T" "sorted (t # map fst qs)" using Cons.prems(3,4) by (auto simp: q)
  show ?case
  proof (cases "k = key")
    case False
    then have m': "m' key = Some b" using r Cons.prems(1) by (auto simp: ref_allow_def Let_def split: if_splits)
    have "sorted (bk_seen b # map fst qs)" using t by auto
    from Cons.IH [where b = b and m = m', OF m' Cons.prems(2) this] Cons.prems(4,5) False r show ?thesis
      by (simp add: q passed_Cons asked_Cons)
  next
    case True
    define x where "x = refilled l b t"
    have x: "0 \<le> x" "x \<le> lm_burst l" unfolding x_def using refilled_bounds [OF assms(1) Cons.prems(2)] by auto
    define b' where "b' = \<lparr>bk_tokens = (if ok then fl (x - 1) else x), bk_seen = t\<rparr>"
    have ok: "ok \<longleftrightarrow> 1 \<le> x" "m' key = Some b'"
      using r Cons.prems(1) True by (auto simp: ref_allow_def Let_def x_def b'_def split: if_splits)
    have "0 \<le> lm_burst l * unit_round" using x by (simp add: unit_round_def)
    then have one: "(if ok then 1 else 0) + bk_tokens b' \<le> x + lm_burst l * unit_round" "bucket_ok l b'"
      using spent_gain [OF assms(1), of x] ok(1) x by (auto simp: b'_def bucket_ok_def add.commute)
    have gain: "x \<le> bk_tokens b + of_int (t - bk_seen b) / of_int (lm_refill l) * drift + lm_burst l * unit_round"
      unfolding x_def by (rule refilled_gain [OF assms(1) Cons.prems(2) t(1)])
    have "of_nat (passed key qs (ref_all l qs m')) \<le> bk_tokens b'
        + of_int (T - t) / of_int (lm_refill l) * drift + 2 * of_nat (asked key qs) * lm_burst l * unit_round"
      using Cons.IH [where b = b' and m = m', OF ok(2) one(2)] Cons.prems(4) t by (simp add: b'_def)
    moreover have "of_int (T - t) / of_int (lm_refill l) * drift + of_int (t - bk_seen b) / of_int (lm_refill l) * drift
        = (of_int (T - bk_seen b) / of_int (lm_refill l) * drift :: rat)"
      by (simp add: add_divide_distrib [symmetric] distrib_right [symmetric])
    moreover have "passed key (q # qs) (ref_all l (q # qs) m)
        = (if ok then 1 else 0) + passed key qs (ref_all l qs m')" "asked key (q # qs) = 1 + asked key qs"
      using r True by (simp_all add: q passed_Cons asked_Cons)
    ultimately show ?thesis using one(1) gain by (simp add: algebra_simps split: if_splits)
  qed
qed

text \<open>
  And for any key, in a window that starts at \<open>t\<close>, whatever went before: no bucket holds more
  than the burst.
\<close>

lemma ref_rate:
  assumes "settings_ok l" "\<And>b. m key = Some b \<Longrightarrow> bucket_ok l b" "sorted (t # map fst qs)" "\<forall>q \<in> set qs. fst q \<le> T" "t \<le> T"
  shows "of_nat (passed key qs (ref_all l qs m)) \<le> lm_burst l
     + of_int (T - t) / of_int (lm_refill l) * drift + 2 * of_nat (asked key qs) * lm_burst l * unit_round"
  using assms(2-)
proof (induction qs arbitrary: m t)
  case Nil
  have "0 \<le> drift" "0 < (of_int (lm_refill l) :: rat)" "0 \<le> lm_burst l"
    using assms(1) by (auto simp: drift_def unit_round_def settings_ok_def)
  then have "0 \<le> of_int (T - t) / of_int (lm_refill l) * drift" using Nil.prems(4) by simp
  then show ?case using \<open>0 \<le> lm_burst l\<close> by (simp add: passed_def asked_def)
next
  case (Cons q qs)
  obtain t' k where q: "q = (t', k)" by (cases q)
  obtain ok m' where r: "ref_allow l t' k m = (ok, m')" by (cases "ref_allow l t' k m")
  have t: "t \<le> t'" "t' \<le> T" "sorted (t' # map fst qs)" using Cons.prems(2,3) by (auto simp: q)
  have "0 \<le> drift" "0 < (of_int (lm_refill l) :: rat)" using assms(1) by (simp_all add: drift_def unit_round_def settings_ok_def)
  then have later: "of_int (T - t') / of_int (lm_refill l) * drift \<le> (of_int (T - t) / of_int (lm_refill l) * drift :: rat)"
    using t(1) by (intro mult_right_mono divide_right_mono) simp_all
  show ?case
  proof (cases "k = key")
    case False
    then have m': "m' key = m key" using r by (auto simp: ref_allow_def Let_def split: if_splits)
    have "of_nat (passed key qs (ref_all l qs m')) \<le> lm_burst l
        + of_int (T - t') / of_int (lm_refill l) * drift + 2 * of_nat (asked key qs) * lm_burst l * unit_round"
      by (rule Cons.IH) (use Cons.prems t m' in \<open>auto simp: q\<close>)
    with later r False show ?thesis by (simp add: q passed_Cons asked_Cons)
  next
    case True
    define x where "x = (case m key of Some b \<Rightarrow> refilled l b t' | None \<Rightarrow> lm_burst l)"
    have burst: "0 \<le> lm_burst l" using assms(1) by (auto simp: settings_ok_def)
    have x: "0 \<le> x" "x \<le> lm_burst l" unfolding x_def
      using refilled_bounds [OF assms(1) Cons.prems(1)] burst by (auto split: option.split)
    define b where "b = \<lparr>bk_tokens = (if ok then fl (x - 1) else x), bk_seen = t'\<rparr>"
    have ok: "ok \<longleftrightarrow> 1 \<le> x" "m' key = Some b"
      using r True by (auto simp: ref_allow_def Let_def x_def b_def split: if_splits)
    have u: "0 \<le> lm_burst l * unit_round" using burst by (simp add: unit_round_def)
    have one: "(if ok then 1 else 0) + bk_tokens b \<le> lm_burst l + lm_burst l * unit_round" "bucket_ok l b"
      using spent_gain [OF assms(1), of x] ok(1) x u by (auto simp: b_def bucket_ok_def add.commute)
    have "of_nat (passed key qs (ref_all l qs m')) \<le> bk_tokens b
        + of_int (T - t') / of_int (lm_refill l) * drift + 2 * of_nat (asked key qs) * lm_burst l * unit_round"
      using ref_rate_seen [OF assms(1) _ one(2), of m' key qs T] ok(2) Cons.prems(3) t by (simp add: b_def)
    moreover have "passed key (q # qs) (ref_all l (q # qs) m)
        = (if ok then 1 else 0) + passed key qs (ref_all l qs m')" "asked key (q # qs) = 1 + asked key qs"
      using r True by (simp_all add: q passed_Cons asked_Cons)
    ultimately show ?thesis using one(1) later u by (simp add: algebra_simps split: if_splits)
  qed
qed

text \<open>
  The same of the limiter, from any state it can be in, in a window in which no more keys are in
  play, those it holds a bucket of counted, than it tracks.
\<close>

lemma window_rate:
  assumes "fair_visit visit" "limiter_inv l" "sorted (t # map fst qs)" "\<forall>q \<in> set qs. fst q \<le> T" "t \<le> T"
    and "int (card (set (keys (lm_buckets l)) \<union> snd ` set qs)) \<le> lm_max l" "allow_all visit qs l = Some (oks, l')"
  shows "of_nat (passed key qs oks) \<le> lm_burst l
     + of_int (T - t) / of_int (lm_refill l) * drift + 2 * of_nat (asked key qs) * lm_burst l * unit_round"
proof -
  let ?m = "map_of (lm_buckets l)" and ?K = "set (keys (lm_buckets l)) \<union> snd ` set qs"
  have "forgets_full l t ?m" by (simp add: forgets_full_def)
  from allow_all_ref [OF assms(1,2) this assms(3), of ?K] assms(6,7) have "oks = ref_all l qs ?m" by simp
  moreover have "settings_ok l" "\<And>b. ?m key = Some b \<Longrightarrow> bucket_ok l b"
    using assms(2) map_of_SomeD by (fastforce simp: limiter_inv_def)+
  ultimately show ?thesis using ref_rate [of l ?m key t qs T] assms(3-5) by simp
qed

text \<open>The settings stay.\<close>

lemma spend_settings: "lm_burst (snd (spend key t x l)) = lm_burst l \<and> lm_refill (snd (spend key t x l)) = lm_refill l
    \<and> lm_max (snd (spend key t x l)) = lm_max l"
  by (simp add: spend_def)

lemma prune_settings: "prune visit t l = Some l' \<Longrightarrow> lm_burst l' = lm_burst l \<and> lm_refill l' = lm_refill l \<and> lm_max l' = lm_max l"
  by (auto simp: prune_def Let_def split: if_splits)

lemma allow_settings:
  assumes "allow visit t key l = Some (r, l')"
  shows "lm_burst l' = lm_burst l \<and> lm_refill l' = lm_refill l \<and> lm_max l' = lm_max l"
proof (cases "map_of (lm_buckets l) key")
  case (Some b)
  then show ?thesis using assms spend_settings [of key t "refilled l b t" l] by (simp add: allow_def)
next
  case None
  then obtain l1 where "prune visit t l = Some l1" "spend key t (lm_burst l1) l1 = (r, l')"
    using assms by (auto simp: allow_def)
  then show ?thesis using prune_settings [of visit t l l1] spend_settings [of key t "lm_burst l1" l1] by simp
qed

section \<open>Attempts\<close>

text \<open>A run of attempts: when each is counted at either end, and the two keys it falls in.\<close>

type_synonym timed_attempt = "(time \<times> string) \<times> (time \<times> string)"

fun attempt_all :: "visit \<Rightarrow> timed_attempt list \<Rightarrow> attempt_limit \<Rightarrow> (bool list \<times> attempt_limit) option" where
  "attempt_all visit [] a = Some ([], a)"
| "attempt_all visit (q # qs) a =
     (case attempt_allow visit (fst (fst q)) (fst (snd q)) (snd (fst q)) (snd (snd q)) a of
        None \<Rightarrow> None
      | Some ((_, ok), a') \<Rightarrow> map_option (\<lambda>(oks, a''). (ok # oks, a'')) (attempt_all visit qs a'))"

text \<open>What is let through: the attempts of one address, or from one source.\<close>

definition let_through :: "(timed_attempt \<Rightarrow> bool) \<Rightarrow> timed_attempt list \<Rightarrow> bool list \<Rightarrow> nat" where
  "let_through P qs oks = length (filter (\<lambda>(q, ok). P q \<and> ok) (zip qs oks))"

lemma let_through_simps [simp]:
  "let_through P [] oks = 0" "let_through P (q # qs) (ok # oks) = (if P q \<and> ok then 1 else 0) + let_through P qs oks"
  by (simp_all add: let_through_def)

lemma passed_simps [simp]: "passed key [] oks = 0"
    "passed key (q # qs) (ok # oks) = (if snd q = key \<and> ok then 1 else 0) + passed key qs oks"
  by (simp_all add: passed_def)

text \<open>The two limiters behind a run: the addresses' one is asked only what the sources' one let through.\<close>

lemma attempt_all_split:
  assumes "attempt_all visit qs a = Some (oks, a')"
  shows "\<exists>soks s' ms moks m'. allow_all visit (map fst qs) (al_source a) = Some (soks, s') \<and> length soks = length qs
    \<and> allow_all visit ms (al_email a) = Some (moks, m') \<and> subseq ms (map snd qs)
    \<and> let_through (\<lambda>q. snd (fst q) = key) qs oks \<le> passed key (map fst qs) soks
    \<and> let_through (\<lambda>q. snd (snd q) = key) qs oks = passed key ms moks"
  using assms
proof (induction qs arbitrary: a oks)
  case Nil
  then show ?case by (auto intro!: exI [of _ "[] :: (time \<times> string) list"])
next
  case (Cons q qs)
  obtain t src t' em where q: "q = ((t, src), (t', em))" by (metis surj_pair)
  obtain r ok a1 oks1 where a1: "attempt_allow visit t t' src em a = Some ((r, ok), a1)"
      "attempt_all visit qs a1 = Some (oks1, a')" "oks = ok # oks1"
    using Cons.prems by (auto simp: q split: option.splits prod.splits)
  obtain soks s' ms moks m' where ih: "allow_all visit (map fst qs) (al_source a1) = Some (soks, s')" "length soks = length qs"
      "allow_all visit ms (al_email a1) = Some (moks, m')" "subseq ms (map snd qs)"
      "let_through (\<lambda>q. snd (fst q) = key) qs oks1 \<le> passed key (map fst qs) soks"
      "let_through (\<lambda>q. snd (snd q) = key) qs oks1 = passed key ms moks"
    using Cons.IH [OF a1(2)] by blast
  obtain w sok s1 where s1: "allow visit t src (al_source a) = Some ((w, sok), s1)" "al_source a1 = s1"
    using a1(1) by (auto simp: attempt_allow_def split: option.splits prod.splits if_splits)
  show ?case
  proof (cases sok)
    case False
    then have e: "a1 = a\<lparr>al_source := s1\<rparr>" "\<not> ok" using a1(1) s1 by (auto simp: attempt_allow_def)
    have "al_email a1 = al_email a" unfolding e(1) by simp
    then show ?thesis using ih s1 False a1(3) e(2)
      by (intro exI [of _ "False # soks"] exI [of _ s'] exI [of _ ms] exI [of _ moks] exI [of _ m']) (simp add: q list_emb_Cons)
  next
    case True
    then have "map_option (\<lambda>(r, m). (r, a\<lparr>al_source := s1, al_email := m\<rparr>)) (allow visit t' em (al_email a)) = Some ((r, ok), a1)"
      using a1(1) s1(1) by (simp add: attempt_allow_def)
    then obtain m1 where e: "allow visit t' em (al_email a) = Some ((r, ok), m1)" "a1 = a\<lparr>al_source := s1, al_email := m1\<rparr>" by auto
    have "al_email a1 = m1" unfolding e(2) by simp
    then show ?thesis using ih s1 True a1(3) e(1)
      by (intro exI [of _ "True # soks"] exI [of _ s'] exI [of _ "(t', em) # ms"] exI [of _ "ok # moks"] exI [of _ m']) (simp add: q)
  qed
qed

lemma attempt_all_ends:
  assumes "fair_visit visit" "limiter_inv (al_source a)" "limiter_inv (al_email a)"
  shows "\<exists>oks a'. attempt_all visit qs a = Some (oks, a') \<and> length oks = length qs"
  using assms(2,3)
proof (induction qs arbitrary: a)
  case (Cons q qs)
  obtain t src t' em where q: "q = ((t, src), (t', em))" by (metis surj_pair)
  obtain r ok l where s: "allow visit t src (al_source a) = Some ((r, ok), l)" "limiter_inv l"
    using allow_inv [OF assms(1) Cons.prems(1), of t src] by (metis surj_pair)
  obtain r' ok' m where m: "allow visit t' em (al_email a) = Some ((r', ok'), m)" "limiter_inv m"
    using allow_inv [OF assms(1) Cons.prems(2), of t' em] by (metis surj_pair)
  have "\<exists>r ok a'. attempt_allow visit t t' src em a = Some ((r, ok), a') \<and> limiter_inv (al_source a') \<and> limiter_inv (al_email a')"
    using s m Cons.prems by (cases ok) (auto simp: attempt_allow_def)
  then obtain r ok a' where "attempt_allow visit t t' src em a = Some ((r, ok), a')" "limiter_inv (al_source a')" "limiter_inv (al_email a')"
    by blast
  with Cons.IH [of a'] show ?case by (auto simp: q)
qed simp

text \<open>A call makes a bucket for its own key only.\<close>

lemma allow_keys:
  assumes "fair_visit visit" "limiter_inv l" "allow visit t key l = Some (r, l')"
  shows "set (keys (lm_buckets l')) \<subseteq> insert key (set (keys (lm_buckets l)))"
proof -
  have spent: "set (keys (lm_buckets (snd (spend key t x k)))) = insert key (set (keys (lm_buckets k)))" for x k
    by (simp add: spend_def dom_update)
  show ?thesis
  proof (cases "map_of (lm_buckets l) key")
    case (Some b)
    then show ?thesis using assms(3) spent [of "refilled l b t" l] by (auto simp: allow_def)
  next
    case None
    obtain m s where p: "prune visit t l = Some (l\<lparr>lm_buckets := m, lm_swept := s\<rparr>)" "set m \<subseteq> set (lm_buckets l)"
      using prune_inv [OF assms(1,2)] by metis
    then have "set (keys m) \<subseteq> set (keys (lm_buckets l))" by auto
    then show ?thesis using assms(3) None p(1) spent [of "lm_burst l" "l\<lparr>lm_buckets := m, lm_swept := s\<rparr>"]
      by (auto simp: allow_def)
  qed
qed

lemma attempt_keys:
  assumes "fair_visit visit" "limiter_inv (al_source a)" "limiter_inv (al_email a)"
    and "attempt_allow visit t t' src em a = Some (r, a')"
  shows "set (keys (lm_buckets (al_source a'))) \<subseteq> insert src (set (keys (lm_buckets (al_source a))))
    \<and> set (keys (lm_buckets (al_email a'))) \<subseteq> insert em (set (keys (lm_buckets (al_email a))))"
proof -
  obtain w ok s where s: "allow visit t src (al_source a) = Some ((w, ok), s)"
    using allow_inv [OF assms(1,2), of t src] by (metis surj_pair)
  obtain x m where m: "allow visit t' em (al_email a) = Some (x, m)"
    using allow_inv [OF assms(1,3), of t' em] by metis
  have "al_source a' = s \<and> (al_email a' = m \<or> al_email a' = al_email a)"
    using assms(4) s m by (cases ok) (auto simp: attempt_allow_def)
  then show ?thesis using allow_keys [OF assms(1,2) s] allow_keys [OF assms(1,3) m] by (elim conjE disjE) (simp_all only: subset_insertI simp_thms)
qed

text \<open>What attempts leave is again such a pair of limiters, with the same settings.\<close>

lemma attempt_keeps:
  assumes "fair_visit visit" "limiter_inv (al_source a)" "limiter_inv (al_email a)"
    and "attempt_allow visit t t' src em a = Some (r, a')"
  shows "limiter_inv (al_source a') \<and> limiter_inv (al_email a')
    \<and> lm_burst (al_source a') = lm_burst (al_source a) \<and> lm_refill (al_source a') = lm_refill (al_source a)
    \<and> lm_max (al_source a') = lm_max (al_source a) \<and> lm_burst (al_email a') = lm_burst (al_email a)
    \<and> lm_refill (al_email a') = lm_refill (al_email a) \<and> lm_max (al_email a') = lm_max (al_email a)"
proof -
  obtain w ok s where s: "allow visit t src (al_source a) = Some ((w, ok), s)" "limiter_inv s"
    using allow_inv [OF assms(1,2), of t src] by (metis surj_pair)
  obtain x m where m: "allow visit t' em (al_email a) = Some (x, m)" "limiter_inv m"
    using allow_inv [OF assms(1,3), of t' em] by metis
  show ?thesis using assms(3,4) s m allow_settings [OF s(1)] allow_settings [OF m(1)]
    by (cases ok) (auto simp: attempt_allow_def)
qed

lemma attempt_all_keeps:
  assumes "fair_visit visit" "limiter_inv (al_source a)" "limiter_inv (al_email a)" "attempt_all visit qs a = Some (oks, a')"
  shows "limiter_inv (al_source a') \<and> limiter_inv (al_email a')
    \<and> lm_burst (al_source a') = lm_burst (al_source a) \<and> lm_refill (al_source a') = lm_refill (al_source a)
    \<and> lm_max (al_source a') = lm_max (al_source a) \<and> lm_burst (al_email a') = lm_burst (al_email a)
    \<and> lm_refill (al_email a') = lm_refill (al_email a) \<and> lm_max (al_email a') = lm_max (al_email a)"
  using assms(2-4)
proof (induction qs arbitrary: a oks)
  case (Cons q qs)
  obtain r ok a1 oks1 where a1: "attempt_allow visit (fst (fst q)) (fst (snd q)) (snd (fst q)) (snd (snd q)) a = Some ((r, ok), a1)"
      "attempt_all visit qs a1 = Some (oks1, a')"
    using Cons.prems(3) by (auto split: option.splits prod.splits)
  from attempt_keeps [OF assms(1) Cons.prems(1,2) a1(1)] Cons.IH [OF _ _ a1(2)] show ?case by simp
qed simp

lemma subseq_sorted: "subseq xs ys \<Longrightarrow> set xs \<subseteq> set ys \<and> (sorted (map f ys) \<longrightarrow> sorted (map f xs))"
  by (induction rule: list_emb.induct) auto

lemma attempts_rate:
  assumes "fair_visit visit" "limiter_inv (al_source a)" "limiter_inv (al_email a)"
    and "sorted (t # map (fst \<circ> fst) qs)" "sorted (t # map (fst \<circ> snd) qs)" "t \<le> T"
    and "\<forall>q \<in> set qs. fst (fst q) \<le> T \<and> fst (snd q) \<le> T"
    and "int (card (set (keys (lm_buckets (al_source a))) \<union> snd ` fst ` set qs)) \<le> lm_max (al_source a)"
    and "int (card (set (keys (lm_buckets (al_email a))) \<union> snd ` snd ` set qs)) \<le> lm_max (al_email a)"
    and "attempt_all visit qs a = Some (oks, a')"
  shows "of_nat (let_through (\<lambda>q. snd (fst q) = key) qs oks) \<le> lm_burst (al_source a)
      + of_int (T - t) / of_int (lm_refill (al_source a)) * drift + 2 * of_nat (length qs) * lm_burst (al_source a) * unit_round"
    and "of_nat (let_through (\<lambda>q. snd (snd q) = key) qs oks) \<le> lm_burst (al_email a)
      + of_int (T - t) / of_int (lm_refill (al_email a)) * drift + 2 * of_nat (length qs) * lm_burst (al_email a) * unit_round"
proof -
  let ?s = "al_source a" and ?m = "al_email a"
  note inv = assms(2,3)
  have pos: "0 \<le> lm_burst ?s * unit_round" "0 \<le> lm_burst ?m * unit_round"
    using inv by (auto simp: limiter_inv_def settings_ok_def unit_round_def)
  obtain soks s' ms moks m' where a: "allow_all visit (map fst qs) ?s = Some (soks, s')"
      "allow_all visit ms ?m = Some (moks, m')" "subseq ms (map snd qs)"
      "let_through (\<lambda>q. snd (fst q) = key) qs oks \<le> passed key (map fst qs) soks"
      "let_through (\<lambda>q. snd (snd q) = key) qs oks = passed key ms moks"
    using attempt_all_split [OF assms(10), of key] by blast
  have asked: "asked key (map fst qs) \<le> length qs" "asked key ms \<le> length qs"
    using le_trans [OF length_filter_le [of "\<lambda>q. snd q = key" ms] list_emb_length [OF a(3)]]
      length_filter_le [of "\<lambda>q. snd q = key" "map fst qs"]
    by (simp_all add: asked_def)
  have ms: "set ms \<subseteq> snd ` set qs" using subseq_sorted [OF a(3), of fst] by simp
  have sorted: "sorted (t # map fst ms)"
    using assms(5) subseq_sorted [OF subseq_Cons2 [OF a(3)], of "(t, key)" fst] by (simp add: comp_def)
  have few: "int (card (set (keys (lm_buckets ?m)) \<union> snd ` set ms)) \<le> lm_max ?m"
    using card_mono [OF _ Un_mono [OF subset_refl image_mono [OF ms, of snd]], of "set (keys (lm_buckets ?m))"] assms(9) by simp
  have less: "2 * of_nat k * b * unit_round \<le> 2 * of_nat (length qs) * b * unit_round"
    if "k \<le> length qs" "0 \<le> b * unit_round" for k and b :: rat
    using mult_right_mono [of "2 * of_nat k" "2 * of_nat (length qs)" "b * unit_round"] that by (simp add: mult.assoc)
  have "of_nat (passed key (map fst qs) soks) \<le> lm_burst ?s + of_int (T - t) / of_int (lm_refill ?s) * drift
      + 2 * of_nat (asked key (map fst qs)) * lm_burst ?s * unit_round"
    using window_rate [OF assms(1) inv(1) _ _ assms(6) _ a(1), of key] assms(4,7,8) by (simp add: comp_def image_image)
  with a(4) less [OF asked(1) pos(1)]
  show "of_nat (let_through (\<lambda>q. snd (fst q) = key) qs oks) \<le> lm_burst ?s
      + of_int (T - t) / of_int (lm_refill ?s) * drift + 2 * of_nat (length qs) * lm_burst ?s * unit_round"
    by (simp add: order_trans [OF of_nat_mono [OF a(4)]])
  have "of_nat (passed key ms moks) \<le> lm_burst ?m + of_int (T - t) / of_int (lm_refill ?m) * drift
      + 2 * of_nat (asked key ms) * lm_burst ?m * unit_round"
    using window_rate [OF assms(1) inv(2) sorted _ assms(6) few a(2), of key] assms(7) ms by auto
  with less [OF asked(2) pos(2)] show "of_nat (let_through (\<lambda>q. snd (snd q) = key) qs oks) \<le> lm_burst ?m
      + of_int (T - t) / of_int (lm_refill ?m) * drift + 2 * of_nat (length qs) * lm_burst ?m * unit_round"
    unfolding a(5) by simp
qed

end
