(* ===== verification/Web_Laws.thy ===== *)
theory Web_Laws
  imports Web_Server Db_Whole Rate_Limit_Laws
begin

text \<open>
  What a request can do. A property of the store that every operation of the stores keeps is
  kept by every request; from it: the database's constraints survive any request, and a request
  without a session touches no game.
\<close>

section \<open>Properties every operation keeps\<close>

definition store_keeps :: "('st \<Rightarrow> bool) \<Rightarrow> 'st store_ops \<Rightarrow> bool" where
  "store_keeps P ops \<longleftrightarrow> (\<forall>e st. P st \<longrightarrow>
     (\<forall>s. P (snd (st_create ops e s st))) \<and> (\<forall>s. P (snd (st_update ops e s st)))
     \<and> (\<forall>user i. P (snd (st_delete ops e user i st)))
     \<and> (\<forall>n. clean_name (n_name n) \<longrightarrow> P (snd (st_create_save ops e n st)))
     \<and> (\<forall>user i k. P (snd (st_delete_save ops e user i k st))))"

definition token_keeps :: "('st \<Rightarrow> bool) \<Rightarrow> 'st token_ops \<Rightarrow> bool" where
  "token_keeps P ops \<longleftrightarrow> (\<forall>e st. P st \<longrightarrow>
     (\<forall>h s. P (snd (to_create ops e h s st))) \<and> (\<forall>h. P (snd (to_delete ops e h st))))"

definition redeem_keeps :: "('st \<Rightarrow> bool) \<Rightarrow> 'st invite_ops \<Rightarrow> bool" where
  "redeem_keeps P ops \<longleftrightarrow> (\<forall>e st h t r. P st \<longrightarrow> \<not> is_zero t \<longrightarrow> P (snd (io_redeem ops e h t r st)))"

lemma store_keeps_out:
  assumes "store_keeps P ops" "P st"
  shows "st_create ops e s st = (r1, st') \<Longrightarrow> P st'" "st_update ops e s st = (r1, st') \<Longrightarrow> P st'"
    "st_delete ops e user i st = (r2, st') \<Longrightarrow> P st'"
    "st_create_save ops e n st = (r3, st') \<Longrightarrow> clean_name (n_name n) \<Longrightarrow> P st'"
    "st_delete_save ops e user i k st = (r4, st') \<Longrightarrow> P st'"
  using assms unfolding store_keeps_def by (metis snd_conv)+

lemma token_keeps_out:
  assumes "token_keeps P ops" "P st"
  shows "to_create ops e h s st = (r1, st') \<Longrightarrow> P st'" "to_delete ops e h st = (r2, st') \<Longrightarrow> P st'"
  using assms unfolding token_keeps_def by (metis snd_conv)+

section \<open>The services\<close>

lemma save_locked_keeps:
  assumes k: "store_keeps P (svc_store v)" "P st" and "clean_name name"
    and "save_locked v e user i name echo st = (r, st')"
  shows "P st'"
proof -
  have n: "clean_name (n_name (snapshot_of user i name s))" for s using assms(3) by (simp add: snapshot_of_def)
  show ?thesis using assms(4) k(2)
    by (auto simp: save_locked_def Let_def split: sum.splits if_splits prod.splits
        dest: store_keeps_out(4) [OF k] intro: n store_keeps_out(2) [OF k(1)] store_keeps_out(4) [OF k])
qed

lemma restore_locked_keeps:
  assumes k: "store_keeps P (svc_store v)" "P st" and "restore_locked v e user i j echo st = (r, st')"
  shows "P st'"
  using assms(3) k(2) by (auto simp: restore_locked_def split: sum.splits if_splits prod.splits intro: store_keeps_out(2) [OF k])

lemma service_keeps:
  assumes k: "store_keeps P (svc_store v)" "P st"
  shows "service_play v e user i command st = (r1, st') \<Longrightarrow> P st'"
    and "service_restart v e user i st = (r1, st') \<Longrightarrow> P st'"
    and "service_new_game v e user story st = (r2, st') \<Longrightarrow> P st'"
    and "service_delete v e user i st = (r3, st') \<Longrightarrow> P st'"
    and "service_save v e user i name st = (r4, st') \<Longrightarrow> P st'"
    and "service_restore v e user i j st = (r5, st') \<Longrightarrow> P st'"
    and "service_delete_save v e user i j st = (r6, st') \<Longrightarrow> P st'"
proof -
  show "service_play v e user i command st = (r1, st') \<Longrightarrow> P st'"
    using k(2) by (auto simp: service_play_def play_turn_def play_save_def play_restore_def Let_def
        split: if_splits intent.splits sum.splits option.splits prod.splits
        intro: store_keeps_out(2) [OF k] save_locked_keeps [OF k] restore_locked_keeps [OF k] dest: clean_save_name_shape)
  show "service_restart v e user i st = (r1, st') \<Longrightarrow> P st'"
    using k(2) by (auto simp: service_restart_def split: if_splits sum.splits option.splits prod.splits intro: store_keeps_out(2) [OF k])
  show "service_new_game v e user story st = (r2, st') \<Longrightarrow> P st'"
    using k(2) by (auto simp: service_new_game_def split: if_splits sum.splits option.splits prod.splits intro: store_keeps_out(1) [OF k])
  show "service_delete v e user i st = (r3, st') \<Longrightarrow> P st'"
    using k(2) by (auto simp: service_delete_def split: if_splits sum.splits prod.splits intro: store_keeps_out(3) [OF k])
  show "service_save v e user i name st = (r4, st') \<Longrightarrow> P st'"
    using k(2) by (auto simp: service_save_def split: if_splits sum.splits prod.splits
        intro: save_locked_keeps [OF k] dest: clean_save_name_shape)
  show "service_restore v e user i j st = (r5, st') \<Longrightarrow> P st'"
    using k(2) by (auto simp: service_restore_def split: if_splits intro: restore_locked_keeps [OF k])
  show "service_delete_save v e user i j st = (r6, st') \<Longrightarrow> P st'"
    using k(2) by (auto simp: service_delete_save_def split: if_splits sum.splits prod.splits intro: store_keeps_out(5) [OF k])
qed

lemma manager_keeps:
  assumes k: "token_keeps P (mg_store m)" "P st"
  shows "manager_start m e user st = (r1, st') \<Longrightarrow> P st'"
    and "manager_user_id m e cookie st = (r2, st') \<Longrightarrow> P st'"
    and "manager_end m e cookie st = (r3, st') \<Longrightarrow> P st'"
  using k(2) by (auto simp: manager_start_def manager_user_id_def manager_end_def Let_def
      split: if_splits sum.splits option.splits prod.splits intro: token_keeps_out [OF k])

lemma redeem_service_keeps:
  assumes "redeem_keeps P (is_store s)" "P st" "clock_runs e" "invite_redeem s e token email password st = (r, st')"
  shows "P st'"
proof -
  have k: "P st'" if "io_redeem (is_store s) e' h (now (nth_use 1 e)) q st = (r', st')" for e' h q r' st'
    using assms(1,2) clock_runs_now [OF assms(3)] that unfolding redeem_keeps_def by (metis snd_conv)
  then show ?thesis using assms(2,4)
    by (auto simp: invite_redeem_def Let_def split: if_splits sum.splits prod.splits)
qed

section \<open>Requests\<close>

lemma game_handler_keeps:
  assumes k: "store_keeps P (svc_store (srv_games s))" "P st" and "game_handler s e r player g st = (a, st')"
  shows "P st'"
  using assms(2,3) by (cases g)
    (auto simp: game_handler_def new_game_def play_turn_page_def restart_game_def delete_game_def create_save_page_def
      restore_save_page_def delete_save_page_def Let_def split: sum.splits prod.splits if_splits
      intro: service_keeps [OF k])

lemma require_user_keeps:
  assumes k: "token_keeps P (mg_store (srv_sessions s))" "P st"
    and h: "\<And>e player st a st'. P st \<Longrightarrow> h e player st = (a, st') \<Longrightarrow> P st'"
    and "require_user s e r h st = (a, st')"
  shows "P st'"
proof -
  obtain x st1 where x: "signed_in s e r st = (x, st1)" by force
  have p: "P st1" using manager_keeps(2) [OF k] x unfolding signed_in_def by blast
  show ?thesis using assms(4) x p
    by (auto simp: require_user_def split: sum.splits prod.splits intro: manager_keeps(3) [OF k(1) p] h)
qed

lemma start_session_keeps:
  assumes k: "token_keeps P (mg_store (srv_sessions s))" "P st"
  shows "P (snd (start_session s e account st))"
  by (auto simp: start_session_def split: sum.splits prod.splits intro: manager_keeps(1) [OF k])

lemma clock_runs_stage: "clock_runs e \<Longrightarrow> clock_runs (stage k e)"
  by (simp add: clock_runs_def stage_def later_def)

lemma serve_keeps:
  assumes game: "\<And>g. route_of r = Some (Game g) \<Longrightarrow> store_keeps P (svc_store (srv_games s))"
    and k: "token_keeps P (mg_store (srv_sessions s))" and "route_of r = Some PostRegister \<Longrightarrow> redeem_keeps P (is_store (srv_invites s))"
    and "clock_runs e" "P (wb_store w)" "serve s e r w = Some (a, w')"
  shows "P (wb_store w')"
proof (cases "cross_origin r")
  case True
  then show ?thesis using assms(5,6) by (simp add: serve_def)
next
  case False
  note m = manager_keeps [OF k assms(5)]
  note st = start_session_keeps [OF k]
  consider "route_of r = None" | p where "route_of r = Some (Static p)" | "route_of r = Some Health"
    | "route_of r = Some ShowLogin" | "route_of r = Some PostLogin" | "route_of r = Some ShowRegister"
    | "route_of r = Some PostRegister" | "route_of r = Some PostLogout" | g where "route_of r = Some (Game g)"
    by (metis not_None_eq route.exhaust)
  then show ?thesis
  proof cases
    case 5
    then show ?thesis using False assms(5,6)
      by (auto simp: serve_def log_in_def Let_def split: sum.splits option.splits prod.splits if_splits
          intro: st [OF assms(5)])
  next
    case 7
    have "P st'" if "invite_redeem (srv_invites s) (stage (Suc 0) e) token email pw (wb_store w) = (x, st')" for token email pw x st'
      using redeem_service_keeps [OF assms(3) [OF 7] assms(5) clock_runs_stage [OF assms(4)] that] .
    note rd = this
    have rs: "P (snd (start_session s (stage 2 e) account st'))"
      if "invite_redeem (srv_invites s) (stage (Suc 0) e) token email pw (wb_store w) = (x, st')" for token email pw x st' account
      using st [OF rd [OF that]] .
    show ?thesis using 7 False assms(5,6)
      by (auto simp: serve_def register_def Let_def split: sum.splits option.splits prod.splits if_splits
          intro: rd rs)
  next
    case (9 g)
    have "P st'" if "require_user s e r (\<lambda>e player. game_handler s e r player g) (wb_store w) = (a', st')" for a' st'
      using require_user_keeps [OF k assms(5) _ that] game_handler_keeps [OF game [OF 9]] by blast
    then have "P (snd (require_user s e r (\<lambda>e player. game_handler s e r player g) (wb_store w)))"
      by (metis prod.collapse)
    then show ?thesis using 9 False assms(6) by (auto simp: serve_def)
  qed (use False assms(5,6) in \<open>auto simp: serve_def show_login_def show_register_def log_out_def signed_in_def Let_def
      split: sum.splits option.splits prod.splits if_splits intro: m\<close>)
qed

section \<open>Over the database\<close>

definition db_server :: "unicode \<Rightarrow> ('story, 'm, db) server \<Rightarrow> bool" where
  "db_server u s \<longleftrightarrow> svc_store (srv_games s) = games_ops u \<and> as_store (srv_accounts s) = user_ops u
     \<and> mg_store (srv_sessions s) = login_ops u \<and> is_store (srv_invites s) = invite_db_ops"

lemma db_keeps_inv:
  "store_keeps whole_inv (games_ops u)" "token_keeps whole_inv (login_ops u)" "redeem_keeps whole_inv invite_db_ops"
proof -
  have g: "whole_inv (game_write u e c d)" if "whole_inv d" "call_ok (Inl c)" for e c d
    using db_write_inv [OF that, of u e] by (simp add: db_write_def)
  have a: "whole_inv (account_write u e c d)" if "whole_inv d" "call_ok (Inr c)" for e c d
    using db_write_inv [OF that, of u e] by (simp add: db_write_def)
  show "store_keeps whole_inv (games_ops u)"
    unfolding store_keeps_def games_ops_simps
    using g [of _ "CreateGame _"] g [of _ "UpdateGame _"] g [of _ "DeleteGame _ _"] g [of _ "CreateSave _"] g [of _ "DeleteSave _ _ _"]
    by simp
  show "token_keeps whole_inv (login_ops u)"
    unfolding token_keeps_def login_ops_simps using a [of _ "CreateLogin _ _"] a [of _ "DeleteLogin _"] by simp
  show "redeem_keeps whole_inv invite_db_ops"
    unfolding redeem_keeps_def invite_db_ops_simps using a [of _ "RedeemInvite _ _ _"] by simp
qed

text \<open>What a session cookie stands for at a time.\<close>

definition live_session :: "crypto \<Rightarrow> time \<Rightarrow> string option \<Rightarrow> db \<Rightarrow> bool" where
  "live_session cr t cookie d \<longleftrightarrow> (case cookie of None \<Rightarrow> False
     | Some v \<Rightarrow> (case db_tok d (hash_token cr v) of None \<Rightarrow> False | Some l \<Rightarrow> t < lg_expires l))"

definition sees_games :: "db \<Rightarrow> db \<Rightarrow> bool" where
  "sees_games d d' \<longleftrightarrow> db_sess d' = db_sess d \<and> db_shelf d' = db_shelf d"

lemma account_write_sees: "sees_games d0 d \<Longrightarrow> sees_games d0 (account_write u e c d)"
  using same_games_seen [OF account_write_games [of d u e c]] by (simp add: sees_games_def)

lemma logins_keep_games: "token_keeps (sees_games d0) (login_ops u)"
  unfolding token_keeps_def login_ops_simps
  using account_write_sees [of d0 _ u _ "CreateLogin _ _"] account_write_sees [of d0 _ u _ "DeleteLogin _"] by simp

lemma redeem_keeps_games: "redeem_keeps (sees_games d0) invite_db_ops"
  unfolding redeem_keeps_def invite_db_ops_simps using account_write_sees [of d0 _ _ _ "RedeemInvite _ _ _"] by simp

lemma games_keep_accounts: "store_keeps (\<lambda>d. db_inv d \<and> same_accounts d0 d) (games_ops u)"
proof -
  have "db_inv (game_write u e c d) \<and> same_accounts d0 (game_write u e c d)"
    if "db_inv d \<and> same_accounts d0 d" "call_ok (Inl c)" for e c d
    using game_write_whole [of d c u e] that by (simp add: same_accounts_def)
  note g = this
  show ?thesis
    unfolding store_keeps_def games_ops_simps
    using g [of _ "CreateGame _"] g [of _ "UpdateGame _"] g [of _ "DeleteGame _ _"] g [of _ "CreateSave _"] g [of _ "DeleteSave _ _ _"]
    by simp
qed

text \<open>A request without a session reaches no game handler.\<close>

lemma stranger_redirected:
  assumes "mg_store (srv_sessions s) = login_ops u" "acct_inv d"
    and "\<not> live_session (mg_crypto (srv_sessions s)) (now (nth_use 1 e)) (rq_cookie r) d"
  shows "fst (require_user s e r h d) = redirect_to_login r \<and> sees_games d (snd (require_user s e r h d))"
proof -
  obtain x d1 where x: "signed_in s e r d = (x, d1)" by force
  have "\<exists>err. x = Inl err"
  proof (cases x)
    case (Inr user)
    then have "fst (manager_user_id (srv_sessions s) e (rq_cookie r) d) = Inr user" using x by (simp add: signed_in_def)
    from logins.look_sound [OF assms(1,2) this] assms(3) show ?thesis by (auto simp: live_session_def)
  qed simp
  moreover have "sees_games d d1"
    using manager_keeps(2) [of "sees_games d" "srv_sessions s" d] logins_keep_games [of d u] x assms(1)
    by (simp add: signed_in_def sees_games_def)
  ultimately show ?thesis using x by (auto simp: require_user_def)
qed

section \<open>The limiters\<close>

definition attempts_ok :: "attempt_limit \<Rightarrow> bool" where
  "attempts_ok a \<longleftrightarrow> limiter_inv (al_source a) \<and> limiter_inv (al_email a)"

definition web_limits_ok :: "'st web \<Rightarrow> bool" where
  "web_limits_ok w \<longleftrightarrow> attempts_ok (wb_logins w) \<and> attempts_ok (wb_registers w)"

lemma server_new_limits: "server_new games accounts sessions invites library probe visit opts st = Inr (s, w) \<Longrightarrow> web_limits_ok w"
  by (auto simp: server_new_def web_limits_ok_def attempts_ok_def login_limit_def register_limit_def new_limiter_inv
      duration_defs split: option.splits)

lemma attempt_ends:
  assumes "fair_visit visit" "attempts_ok a"
  shows "\<exists>x a'. attempt_allow visit t t' source email a = Some (x, a') \<and> attempts_ok a'"
proof -
  obtain retry ok l where s: "allow visit t source (al_source a) = Some ((retry, ok), l)" "limiter_inv l"
    using allow_inv [OF assms(1), of "al_source a" t source] assms(2) unfolding attempts_ok_def by (metis surj_pair)
  obtain y m where m: "allow visit t' email (al_email a) = Some (y, m)" "limiter_inv m"
    using allow_inv [OF assms(1), of "al_email a" t' email] assms(2) unfolding attempts_ok_def by blast
  show ?thesis using s m assms(2) by (cases ok) (auto simp: attempt_allow_def attempts_ok_def)
qed

lemma try_attempt_ends:
  assumes "fair_visit (srv_visit s)" "attempts_ok a"
  obtains retry ok a' where "try_attempt s e r email a = Some ((retry, ok), a')" "attempts_ok a'"
  using attempt_ends [OF assms] unfolding try_attempt_def attempt_def by (metis surj_pair)

text \<open>Every request is answered, and leaves limiters that will answer the next.\<close>

lemma serve_ends:
  assumes "fair_visit (srv_visit s)" "web_limits_ok w"
  shows "\<exists>a w'. serve s e r w = Some (a, w') \<and> web_limits_ok w'"
proof -
  have l: "attempts_ok (wb_logins w)" "attempts_ok (wb_registers w)" using assms(2) by (simp_all add: web_limits_ok_def)
  have "\<exists>a w'. log_in s e r w = Some (a, w') \<and> web_limits_ok w'"
  proof (cases "parse_form r")
    case (Inr form)
    obtain retry ok a' where "try_attempt s e r (form_get form ''email'') (wb_logins w) = Some ((retry, ok), a')" "attempts_ok a'"
      using try_attempt_ends [OF assms(1) l(1)] by blast
    then show ?thesis using Inr l by (auto simp: log_in_def Let_def web_limits_ok_def split: sum.splits option.splits prod.splits)
  qed (use assms(2) in \<open>simp add: log_in_def\<close>)
  moreover have "\<exists>a w'. register s e r w = Some (a, w') \<and> web_limits_ok w'"
  proof (cases "parse_form r")
    case (Inr form)
    obtain retry ok a' where "try_attempt s e r (form_get form ''email'') (wb_registers w) = Some ((retry, ok), a')" "attempts_ok a'"
      using try_attempt_ends [OF assms(1) l(2)] by blast
    then show ?thesis using Inr l by (auto simp: register_def Let_def web_limits_ok_def split: sum.splits prod.splits)
  qed (use assms(2) in \<open>simp add: register_def Let_def\<close>)
  ultimately show ?thesis using assms(2)
    by (auto simp: serve_def web_limits_ok_def show_login_def show_register_def log_out_def Let_def
        split: option.splits route.splits prod.splits)
qed


text \<open>A run of requests, each answered in the state the one before left.\<close>

fun serve_all ::
  "('story, 'm, 'st) server \<Rightarrow> (env \<times> request) list \<Rightarrow> 'st web \<Rightarrow> (response list \<times> 'st web) option" where
  "serve_all s [] w = Some ([], w)"
| "serve_all s ((e, r) # rs) w =
     Option.bind (serve s e r w) (\<lambda>(a, w1). map_option (\<lambda>(as, w2). (a # as, w2)) (serve_all s rs w1))"

lemma serve_all_ends:
  assumes "db_server u s" "fair_visit (srv_visit s)" "web_limits_ok w" "whole_inv (wb_store w)"
    and "\<forall>(e, r) \<in> set rs. clock_runs e"
  shows "\<exists>as w'. serve_all s rs w = Some (as, w') \<and> length as = length rs \<and> whole_inv (wb_store w') \<and> web_limits_ok w'"
  using assms(3-5)
proof (induction rs arbitrary: w)
  case (Cons p rs)
  obtain e r where p: "p = (e, r)" by (cases p)
  have k: "store_keeps whole_inv (svc_store (srv_games s))" "token_keeps whole_inv (mg_store (srv_sessions s))"
      "redeem_keeps whole_inv (is_store (srv_invites s))"
    using db_keeps_inv assms(1) by (simp_all add: db_server_def)
  obtain a w1 where s: "serve s e r w = Some (a, w1)" "web_limits_ok w1"
    using serve_ends [OF assms(2) Cons.prems(1)] by blast
  have "whole_inv (wb_store w1)"
    using serve_keeps [OF k _ Cons.prems(2) s(1)] Cons.prems(3) p by simp
  from Cons.IH [OF s(2) this] Cons.prems(3) s(1) p show ?case by (auto simp del: serve_all.simps(2) simp: serve_all.simps(2))
qed simp

end
