(* ===== verification/Known_Defects.thy ===== *)
theory Known_Defects
  imports Web_Laws Sample_World
begin

text \<open>
  Where the code does not do what its own comments say, proved over the model: a save reported
  that was not kept, a game's identifier given out twice, two notions of the same name, a
  line whose save name keeps half a character, a session ended by a passing failure, and one
  game played under two locks.
\<close>

section \<open>A save that is reported and lost\<close>

text \<open>
  CreateSave reports success when its COMMIT fails: whatever the transaction wrote is rolled
  back, and the caller is still told that the save was written (the deferred end stores the
  commit's error in a variable that is no longer read, saves.go:53).
\<close>

theorem lost_commit_reported_as_saved:
  assumes "user_row_id u (n_user n) = Inr owner" "row_id u (n_game n) = Inr game" "\<not> no_bytes (n_state n)"
    and "ctx_err e 0 = None" "ctx_err e 1 = None"
    and "write_save u e owner game (n\<lparr>n_created := now e\<rparr>) d = Inr (k, replaced, j, d')"
    and "ctx_err e j = Some err"
  shows "games_create_save u e n d =
     (Inr (\<lparr>sv_id = id_of k, sv_name = n_name n, sv_turn = n_turn n, sv_created = now e\<rparr>, replaced), d)"
  using assms by (simp add: games_create_save_def db_conn_def db_use_def del: row_id_Inr user_row_id_Inr)

definition sample_snapshot :: snapshot where
  "sample_snapshot = snapshot_of (id_of 1) (id_of 1) ''lamp'' (session_of_row 1 sample_game)"

definition failing_commit :: env where
  "failing_commit = sample_env\<lparr>ctx_err := (\<lambda>k. if k = 6 then Some (Opaque ''disk I/O error'') else None)\<rparr>"

lemma sample_write:
  "\<exists>k d'. write_save plain failing_commit 1 1 (sample_snapshot\<lparr>n_created := now failing_commit\<rparr>) sample_db
     = Inr (k, False, 6, d')"
  by (simp add: write_save_def owns_game_def save_id_by_name_def count_saves_def insert_save_def save_row_of_def
      sample_db_def sample_snapshot_def snapshot_of_def sample_save_def sample_game_def failing_commit_def db_use_def
      nocase_def next_rowid_def max_rowid_def check_save_def check_text_def name_free_def max_saves_per_game_def
      session_of_row_def read_state_def Let_def)

theorem lost_commit_reported_as_saved_witness:
  "\<exists>sv. games_create_save plain failing_commit sample_snapshot sample_db = (Inr (sv, False), sample_db) \<and> sv_name sv = ''lamp''"
proof -
  obtain k d' where w: "write_save plain failing_commit 1 1 (sample_snapshot\<lparr>n_created := now failing_commit\<rparr>) sample_db
      = Inr (k, False, 6, d')" using sample_write by blast
  have f: "user_row_id plain (n_user sample_snapshot) = Inr 1" "row_id plain (n_game sample_snapshot) = Inr 1"
      "\<not> no_bytes (n_state sample_snapshot)" "ctx_err failing_commit 0 = None" "ctx_err failing_commit 1 = None"
      "ctx_err failing_commit 6 = Some (Opaque ''disk I/O error'')"
    using sample_rows by (simp_all add: sample_snapshot_def snapshot_of_def failing_commit_def sample_env_def
        del: row_id_Inr user_row_id_Inr)
  have "n_name sample_snapshot = ''lamp''" by (simp add: sample_snapshot_def snapshot_of_def)
  then show ?thesis using lost_commit_reported_as_saved [OF f(1-5) w f(6)] by simp
qed

section \<open>An identifier given out twice\<close>

text \<open>
  games.id has no AUTOINCREMENT, so the identifier of the newest game, once deleted, goes to
  the next game, at version 1 again. A writer elsewhere that read the deleted game at version
  1 (a second process; the lock covers one) has its write accepted: it overwrites the new
  game with the old one's state, whatever story the new game is of, which is what the version
  was to prevent.
\<close>

theorem reused_identifier_takes_stale_write:
  assumes "db_inv d" "db_known d (s_user s)" "storable s" "storable t" "s_user t = s_user s"
    and "games_create u e1 s d = (Inr s1, d1)" "games_delete u e2 (s_user s) (s_id s1) d1 = (Inr (), d2)"
    and "games_create u e3 t d2 = (Inr t1, d3)" "db_up e4" "storable s2"
    and "s_id s2 = s_id s1" "s_user s2 = s_user s1" "s_version s2 = s_version s1"
  shows "s_id t1 = s_id s1 \<and> s_key t1 = s_key t
    \<and> (\<exists>d4. games_update u e4 s2 d3 = (Inr (s2\<lparr>s_version := 2\<rparr>), d4)
        \<and> map_option s_state (db_sess d4 (s_id t1)) = Some (s_state s2)
        \<and> map_option s_key (db_sess d4 (s_id t1)) = Some (s_key t))"
proof -
  let ?r = "\<lambda>k. game_row_of k"
  obtain w k where w: "user_row_id u (s_user s) = Inr w" and k: "next_rowid (d_games d) = Some k"
      and s1: "s1 = s\<lparr>s_id := id_of k, s_version := 1\<rparr>"
      and d1: "d1 = d\<lparr>d_games := (k, game_row_of w (now e1) s) # d_games d\<rparr>"
    using games_create_cases [OF assms(6)] by auto
  have kf: "k \<notin> set (keys (d_games d))" "rowid_ok k" using next_rowid_fresh [OF k] by auto
  have u: "s_user s = id_of w" "rowid_ok w" using known_owner [OF assms(2) w] w by (auto simp: result_iff)
  have kr: "row_id u (id_of k) = Inr k" using kf(2) by simp
  have d2: "d2 = drop_game k d1"
    using games_delete_Inr [OF assms(7)] s1 kr by auto
  have g2: "d_games d2 = d_games d" unfolding d2 d1 drop_game_def using kf(1) by simp
  obtain w' k' where k': "user_row_id u (s_user t) = Inr w'" "next_rowid (d_games d2) = Some k'"
      and t1: "t1 = t\<lparr>s_id := id_of k', s_version := 1\<rparr>"
      and d3: "d3 = d2\<lparr>d_games := (k', game_row_of w' (now e3) t) # d_games d2\<rparr>"
    using games_create_cases [OF assms(8)] by auto
  have eq: "k' = k" "w' = w" using k' g2 k w assms(5) by simp_all
  let ?g = "game_row_of w (now e3) t"
  have id: "s_id t1 = id_of k" "s_id s1 = id_of k" by (simp_all add: t1 s1 eq)
  have live: "ctx_err e4 0 = None" "ctx_err e4 1 = None" using db_upD [OF assms(9)] by simp_all
  let ?new = "updated_row (now e4) s2 ?g"
  have upd: "games_update u e4 s2 d3 =
      (Inr (s2\<lparr>s_version := 2\<rparr>), d3\<lparr>d_games := AList.update k ?new (d_games d3)\<rparr>)"
    using live kr u assms(11-13) storable_check [OF assms(10)]
    by (simp add: games_update_def s1 d3 eq game_row_of_def id)
  have "map_of (AList.update k ?new (d_games d3)) k = Some ?new" by (simp add: update_conv')
  then have v: "db_sess (d3\<lparr>d_games := AList.update k ?new (d_games d3)\<rparr>) (id_of k) = Some (session_of_row k ?new)"
    using kf(2) by (simp add: db_sess_id_of)
  have "read_state (s_state s2) = s_state s2"
    using assms(10) by (auto simp: read_state_def storable_def no_bytes_def split: option.splits)
  then show ?thesis using upd v id by (simp add: t1 updated_row_def game_row_of_def)
qed

definition fresh_session :: "story_key \<Rightarrow> session" where
  "fresh_session key = zero_session\<lparr>s_user := id_of 1, s_key := key, s_state := Some [5]\<rparr>"

theorem reused_identifier_takes_stale_write_witness:
  "\<exists>(s1 :: session) d1 d2 t1 d3 d4. games_create plain sample_env (fresh_session 7) sample_db = (Inr s1, d1)
     \<and> games_delete plain sample_env (id_of 1) (s_id s1) d1 = (Inr (), d2)
     \<and> games_create plain sample_env (fresh_session 8) d2 = (Inr t1, d3) \<and> s_key t1 = 8
     \<and> games_update plain sample_env s1 d3 = (Inr (s1\<lparr>s_version := 2\<rparr>), d4)"
proof -
  let ?s = "fresh_session 7" and ?t = "fresh_session 8"
  have k: "next_rowid (d_games sample_db) = Some 2" "rowid_ok 2" "rowid_ok 1"
    by (simp_all add: next_rowid_def sample_db_def max_rowid_def rowid_ok_def Let_def)
  have st: "storable ?s" "storable ?t" "s_user ?t = s_user ?s" "db_known sample_db (s_user ?s)"
    using sample_known by (simp_all add: fresh_session_def storable_def)
  let ?d1 = "sample_db\<lparr>d_games := (2, game_row_of 1 (now sample_env) ?s) # d_games sample_db\<rparr>"
  have c1: "games_create plain sample_env ?s sample_db = (Inr (?s\<lparr>s_id := id_of 2, s_version := 1\<rparr>), ?d1)"
    using k by (simp add: games_create_def fresh_session_def sample_env_def Let_def) (simp add: sample_db_def)
  have c2: "games_delete plain sample_env (s_user ?s) (s_id (?s\<lparr>s_id := id_of 2, s_version := 1\<rparr>)) ?d1
      = (Inr (), drop_game 2 ?d1)"
    using k by (simp add: games_delete_def fresh_session_def sample_env_def game_row_of_def)
  have g: "d_games (drop_game 2 ?d1) = d_games sample_db" "d_users (drop_game 2 ?d1) = d_users sample_db"
    by (simp_all add: drop_game_def sample_db_def)
  obtain d3 where c3: "games_create plain sample_env ?t (drop_game 2 ?d1) = (Inr (?t\<lparr>s_id := id_of 2, s_version := 1\<rparr>), d3)"
    using k g by (simp add: games_create_def fresh_session_def sample_env_def Let_def) (simp add: sample_db_def)
  have "storable (?s\<lparr>s_id := id_of 2, s_version := 1\<rparr>)" using st by simp
  from reused_identifier_takes_stale_write [OF sample_inv st(4,1,2,3) c1 c2 c3 sample_up(2) this refl refl refl]
  obtain d4 where "games_update plain sample_env (?s\<lparr>s_id := id_of 2, s_version := 1\<rparr>) d3
      = (Inr (?s\<lparr>s_id := id_of 2, s_version := 2\<rparr>), d4)" by auto
  with c1 c2 c3 show ?thesis by (force simp: fresh_session_def)
qed

section \<open>Two notions of the same name\<close>

text \<open>
  The application folds names by Unicode and the index by ASCII: where the folding table has
  the Kelvin sign fold to k, two names that are one save to RESTORE and to the memory store
  are two rows to the database.
\<close>

definition kelvin :: string where "kelvin = [CHR 0xE2, CHR 0x84, CHR 0xAA]"

theorem names_fold_two_ways:
  assumes "u_fold u 0x212A = 107"
  shows "same_save_name u kelvin ''k'' \<and> \<not> nocase kelvin ''k'' \<and> clean_name kelvin \<and> clean_name ''k''"
  using assms by (simp add: same_save_name_def kelvin_def nocase_def clean_name_def max_save_name_bytes_def text_eval)

theorem names_fold_two_ways_witness:
  "same_save_name (plain\<lparr>u_fold := (\<lambda>r. if r = 0x212A then 107 else r)\<rparr>) kelvin ''k'' \<and> \<not> nocase kelvin ''k''"
  using names_fold_two_ways [of "plain\<lparr>u_fold := (\<lambda>r. if r = 0x212A then 107 else r)\<rparr>"] by simp

section \<open>Half a space in a name\<close>

text \<open>
  The name on a SAVE line starts one byte after the first byte of the space that ends the verb
  (command.go:83). After a space of two bytes it starts with the second one, is not UTF-8, and
  is refused: a no-break space between SAVE and the name loses the save.
\<close>

theorem wide_space_spoils_name:
  "c_intent (interpret_line u (''save'' @ [CHR 0xC2, CHR 0xA0] @ ''lamp'')) = IntentSave
    \<and> c_name (interpret_line u (''save'' @ [CHR 0xC2, CHR 0xA0] @ ''lamp'')) = CHR 0xA0 # ''lamp''
    \<and> isl (clean_save_name (c_name (interpret_line u (''save'' @ [CHR 0xC2, CHR 0xA0] @ ''lamp''))))"
proof -
  have s: "interpret_line u (''save'' @ [CHR 0xC2, CHR 0xA0] @ ''lamp'')
      = \<lparr>c_intent = IntentSave, c_text = ''save'' @ [CHR 0xC2, CHR 0xA0] @ ''lamp'', c_name = CHR 0xA0 # ''lamp''\<rparr>"
    using to_lower_fixed [of "''save''" u]
    by (simp add: interpret_line_def trim_space_def index_space_def is_space_def cont_def rune_error_def Let_def)
  show ?thesis unfolding s by (simp add: clean_save_name_def text_eval)
qed

section \<open>A session ended by a passing failure\<close>

text \<open>
  \<open>requireUser\<close> ends the session whenever reading its account fails, taking the failure to mean that
  the account is gone (server.go:197): one failed read of the database, and the player is logged
  out for good.
\<close>

theorem passing_failure_logs_out:
  assumes "db_server u s" "acct_inv d" "rq_cookie r = Some v" "v \<noteq> []"
    and "signed_in s e r d = (Inr i, d)" "auth_user (srv_accounts s) (stage 1 e) i d = Inl err" "db_up (stage 2 e)"
  shows "db_tok (snd (require_user s e r h d)) (hash_token (mg_crypto (srv_sessions s)) v) = None"
proof -
  have m: "mg_store (srv_sessions s) = login_ops u" using assms(1) by (simp add: db_server_def)
  obtain d1 where "manager_end (srv_sessions s) (stage 2 e) (Some v) d = ((Inr (), clear_cookie (srv_sessions s)), d1)"
      "db_tok d1 = (db_tok d)(hash_token (mg_crypto (srv_sessions s)) v := None)"
    using logins.end_ok [OF m assms(2,7,4)] by auto
  then show ?thesis using assms(3,5,6) by (simp add: require_user_def)
qed

section \<open>One game under two locks\<close>

text \<open>
  The lock is of the identifier as it stands in the path, and the store reads it as a number
  (session.go:489, sessions.go's rowID): two turns of one game sent as 1 and as +1 take two
  locks, both read the game, and the one that writes second is told of a version conflict by
  the very process whose lock was to prevent it.
\<close>

definition two_locks :: "nat \<Rightarrow> mutex" where
  "two_locks k = the (fold (\<lambda>f m. Option.bind m f)
     (take k [enter 0 ''1'', acquire 0, enter 1 ''+1'', acquire 1]) (Some no_locks))"

lemma two_locks_steps:
  "two_locks 0 = no_locks" "enter 0 ''1'' (two_locks 0) = Some (two_locks 1)"
  "acquire 0 (two_locks 1) = Some (two_locks 2)" "enter 1 ''+1'' (two_locks 2) = Some (two_locks 3)"
  "acquire 1 (two_locks 3) = Some (two_locks 4)"
  "mx_phase (two_locks 4) 0 = Inside ''1'' 0" "mx_phase (two_locks 4) 1 = Inside ''+1'' 1"
  by (simp_all add: two_locks_def enter_def acquire_def no_locks_def eval_nat_numeral)

lemma one_game_two_names:
  assumes "i = ''1'' \<or> i = ''+1''"
  shows "games_load plain sample_env (id_of 1) i sample_db = Inr (session_of_row 1 sample_game)"
proof -
  have "parse_int64 i = Some 1" using assms by (auto simp: parse_int64_def parse_nat_def digit_value_def)
  then have "row_id plain i = Inr 1" using sample_rows by (simp add: row_id_Inr rowid_ok_def max_rowid_def)
  then show ?thesis using sample_rows
    by (simp add: games_load_def load_session_def sample_db_def sample_env_def del: row_id_Inr user_row_id_Inr)
qed

definition both_read :: "db world" where
  "both_read = \<lparr>w_mutex = two_locks 4, w_store = sample_db,
     w_read = (\<lambda>_. None)(0 \<mapsto> session_of_row 1 sample_game, 1 \<mapsto> session_of_row 1 sample_game)\<rparr>"

lemma both_read_reachable: "(server_step (games_ops plain) db_known)\<^sup>*\<^sup>* (idle_world sample_db) both_read"
proof -
  let ?S = "server_step (games_ops plain) db_known"
  let ?w = "\<lambda>k r. \<lparr>w_mutex = two_locks k, w_store = sample_db, w_read = r\<rparr>"
  let ?s = "session_of_row 1 sample_game" let ?n = "\<lambda>_ :: nat. None :: session option"
  have l: "st_load (games_ops plain) sample_env (id_of 1) ''1'' sample_db = Inr ?s"
    "st_load (games_ops plain) sample_env (id_of 1) ''+1'' sample_db = Inr ?s"
    using one_game_two_names by simp_all
  have "?S (idle_world sample_db) (?w 1 ?n)"
    using srv_enter [of 0 "''1''" "idle_world sample_db" "two_locks 1" "games_ops plain" db_known] two_locks_steps(1,2)
    by (simp add: idle_world_def)
  moreover have "?S (?w 1 ?n) (?w 2 ?n)"
    using srv_acquire [of 0 "?w 1 ?n" "two_locks 2" "games_ops plain" db_known] two_locks_steps(3) by simp
  moreover have "?S (?w 2 ?n) (?w 3 ?n)"
    using srv_enter [of 1 "''+1''" "?w 2 ?n" "two_locks 3" "games_ops plain" db_known] two_locks_steps(4) by simp
  moreover have "?S (?w 3 ?n) (?w 4 ?n)"
    using srv_acquire [of 1 "?w 3 ?n" "two_locks 4" "games_ops plain" db_known] two_locks_steps(5) by simp
  moreover have "?S (?w 4 ?n) (?w 4 (?n(0 \<mapsto> ?s)))"
    using srv_load [of "?w 4 ?n" 0 "''1''" 0 db_known "id_of 1" "games_ops plain" sample_env ?s]
      two_locks_steps(6) l(1) sample_known by simp
  moreover have "?S (?w 4 (?n(0 \<mapsto> ?s))) both_read"
    using srv_load [of "?w 4 (?n(0 \<mapsto> ?s))" 1 "''+1''" 1 db_known "id_of 1" "games_ops plain" sample_env ?s]
      two_locks_steps(7) l(2) sample_known by (simp add: both_read_def)
  ultimately show ?thesis by (meson r_into_rtranclp rtranclp_trans)
qed

theorem two_names_conflict:
  "\<exists>w s err. (server_step (games_ops plain) db_known)\<^sup>*\<^sup>* (idle_world sample_db) w
     \<and> w_read w 1 = Some s \<and> storable s
     \<and> games_update plain sample_env s (w_store w) = (Inl err, w_store w) \<and> errors_is err ErrVersionConflict"
proof -
  let ?s = "session_of_row 1 sample_game"
  have st: "storable ?s" by (simp add: storable_row check_game_def sample_game_def)
  obtain d' where u: "st_update (games_ops plain) sample_env ?s sample_db = (Inr (?s\<lparr>s_version := s_version ?s + 1\<rparr>), d')"
      "db_sess d' = (db_sess sample_db)(s_id ?s \<mapsto> ?s\<lparr>s_version := s_version ?s + 1\<rparr>)"
    using db.update_ok [OF sample_inv sample_up(2) _ refl refl refl st] sample_sess by fastforce
  have i: "db_inv d'" using db.update_inv [OF sample_inv _ refl st refl, of plain sample_env] sample_sess u(1) by simp
  let ?w = "both_read\<lparr>w_store := d', w_read := (w_read both_read)(0 := None)\<rparr>"
  have "server_step (games_ops plain) db_known both_read ?w"
    by (rule srv_write [of _ 0 ?s ?s _ sample_env]) (use st u(1) in \<open>simp_all add: both_read_def\<close>)
  then have "(server_step (games_ops plain) db_known)\<^sup>*\<^sup>* (idle_world sample_db) ?w"
    using both_read_reachable by (meson rtranclp.rtrancl_into_rtrancl)
  moreover have "w_read ?w 1 = Some ?s" by (simp add: both_read_def)
  moreover obtain err where "games_update plain sample_env ?s (w_store ?w) = (Inl err, w_store ?w)"
      "errors_is err ErrVersionConflict"
    using db.update_conflict [OF i sample_up(2), of ?s "?s\<lparr>s_version := s_version ?s + 1\<rparr>" plain] u(2) by auto
  ultimately show ?thesis using st by blast
qed

end
