(* ===== verification/Db_Open.thy ===== *)
theory Db_Open
  imports Db_Tables
begin

text \<open>
  Opening the database (internal/database/database.go) and the migrations it applies
  (migrations/migrations.go): resolving and checking the path, creating the file, and bringing
  the schema up to date one script at a time.

  What a script does to a schema is SQLite's and the script's own: \<open>run\<close>, an argument. A
  database file is its schema and its \<open>user_version\<close>; a path that holds no file is \<open>None\<close>.
\<close>

section \<open>Paths\<close>

text \<open>\<open>filepath.Clean\<close> of a rooted path, \<open>filepath.Abs\<close> and \<open>filepath.Dir\<close>.\<close>

fun clean_elements :: "string list \<Rightarrow> string list \<Rightarrow> string list" where
  "clean_elements acc [] = rev acc"
| "clean_elements acc (x # xs) =
     (if x = [] \<or> x = ''.'' then clean_elements acc xs
      else if x = ''..'' then clean_elements (tl acc) xs
      else clean_elements (x # acc) xs)"

definition clean_rooted :: "string \<Rightarrow> string" where
  "clean_rooted path = CHR ''/'' # join ''/'' (clean_elements [] (split_on (CHR ''/'') path))"

definition abs_path :: "string result \<Rightarrow> string \<Rightarrow> string result" where
  "abs_path cwd path =
     (if path \<noteq> [] \<and> hd path = CHR ''/'' then Inr (clean_rooted path)
      else bind_r cwd (\<lambda>wd. Inr (clean_rooted (wd @ ''/'' @ path))))"

definition dir_of :: "string \<Rightarrow> string" where
  "dir_of path = clean_rooted (rev (dropWhile (\<lambda>c. c \<noteq> CHR ''/'') (rev path)))"

datatype file_kind = Directory | RegularFile | SpecialFile string

text \<open>\<open>checkPath\<close>. \<open>stat\<close> answers \<open>FsErrNotExist\<close> for a path that names nothing.\<close>

definition check_path :: "string result \<Rightarrow> (string \<Rightarrow> file_kind result) \<Rightarrow> string \<Rightarrow> bool \<Rightarrow> string result" where
  "check_path cwd stat path create =
     bind_r (wrap_r (''database: '' @ path @ '': resolve path'') (abs_path cwd path)) (\<lambda>full.
       let dir = dir_of full; here = ''database: '' @ full in
       case stat dir of
         Inl err \<Rightarrow>
           if errors_is err FsErrNotExist then Inl (Wrap (here @ '': '' @ dir) (Sentinel ErrParentMissing))
           else Inl (Wrap (here @ '': parent '' @ dir) err)
       | Inr parent \<Rightarrow>
           if parent \<noteq> Directory then Inl (Wrap (here @ '': '' @ dir) (Sentinel ErrParentNotDirectory))
           else
             (case stat full of
                Inl err \<Rightarrow>
                  if errors_is err FsErrNotExist
                  then (if create then Inr full else Inl (Wrap here (Sentinel FsErrNotExist)))
                  else Inl (Wrap here err)
              | Inr Directory \<Rightarrow> Inl (Join (here @ '': path is not a regular file: it is a directory'') [Sentinel ErrNotRegularFile])
              | Inr (SpecialFile mode) \<Rightarrow> Inl (Join (here @ '': path is not a regular file: mode is '' @ mode) [Sentinel ErrNotRegularFile])
              | Inr RegularFile \<Rightarrow> if create then Inl (Wrap here (Sentinel FsErrExist)) else Inr full))"

section \<open>Migrations\<close>

record migration =
  mi_version :: int
  mi_name :: string
  mi_sql :: string

definition version_of :: "string \<Rightarrow> int result" where
  "version_of name =
     (if CHR ''_'' \<notin> set name then Inl (Opaque (''migrations: '' @ name @ '': expected NNNN_description.sql''))
      else case parse_int64 (before (CHR ''_'') name) of
        None \<Rightarrow> Inl (Wrap (''migrations: '' @ name @ '': version'') (Opaque ''strconv.Atoi: invalid syntax''))
      | Some v \<Rightarrow> if v < 1 then Inl (Opaque (''migrations: '' @ name @ '': version '' @ format_int v @ '' is not positive'')) else Inr v)"

text \<open>The loop over the sorted names; \<open>out\<close> holds what is read so far, the last first.\<close>

fun collect_migrations :: "(string \<times> string) list \<Rightarrow> migration list \<Rightarrow> migration list result" where
  "collect_migrations [] out = Inr (rev out)"
| "collect_migrations ((name, sql) # rest) out =
     bind_r (version_of name) (\<lambda>v.
       if out \<noteq> [] \<and> v \<le> mi_version (hd out)
       then Inl (Opaque (''migrations: '' @ name @ '': version '' @ format_int v @ '' is not after '' @ mi_name (hd out)))
       else collect_migrations rest (\<lparr>mi_version = v, mi_name = name, mi_sql = sql\<rparr> # out))"

text \<open>\<open>All\<close>, over the embedded files: each name with its content.\<close>

definition all_migrations :: "(string \<times> string) list \<Rightarrow> migration list result" where
  "all_migrations files =
     (let sqls = filter (\<lambda>p. 4 \<le> length (fst p) \<and> drop (length (fst p) - 4) (fst p) = ''.sql'') files in
      bind_r (collect_migrations (sort_key fst sqls) [])
        (\<lambda>out. if out = [] then Inl (Opaque ''migrations: none embedded'') else Inr out))"

section \<open>Opening\<close>

record 'sch db_file =
  df_version :: int
  df_schema :: 'sch

type_synonym 'sch script_runner = "string \<Rightarrow> 'sch \<Rightarrow> 'sch result"

text \<open>
  The loop of \<open>migrate\<close>. A script runs in a savepoint of its own: when it fails the schema is as
  it was, and when it ends it is committed, before the statement that records its version.
\<close>

fun apply_migrations ::
  "'sch script_runner \<Rightarrow> env \<Rightarrow> nat \<Rightarrow> int \<Rightarrow> migration list \<Rightarrow> 'sch db_file \<Rightarrow> unit result \<times> 'sch db_file" where
  "apply_migrations run e j current [] f = (Inr (), f)"
| "apply_migrations run e j current (m # ms) f =
     (if mi_version m \<le> current then apply_migrations run e j current ms f
      else case wrap_r (''database: migration '' @ mi_name m) (bind_r (db_use e j) (\<lambda>_. run (mi_sql m) (df_schema f))) of
        Inl err \<Rightarrow> (Inl err, f)
      | Inr sch \<Rightarrow>
          let f1 = f\<lparr>df_schema := sch\<rparr> in
          (case wrap_r (''database: migration '' @ mi_name m @ '': record version'') (db_use e (j + 1)) of
             Inl err \<Rightarrow> (Inl err, f1)
           | Inr _ \<Rightarrow> apply_migrations run e (j + 2) current ms (f1\<lparr>df_version := mi_version m\<rparr>)))"

definition user_version :: "env \<Rightarrow> nat \<Rightarrow> 'sch db_file \<Rightarrow> int result" where
  "user_version e j f = bind_r (wrap_r ''database: read schema version'' (db_use e j)) (\<lambda>_. Inr (df_version f))"

definition migrate :: "'sch script_runner \<Rightarrow> (string \<times> string) list \<Rightarrow> env \<Rightarrow> nat \<Rightarrow> 'sch db_file \<Rightarrow> unit result \<times> 'sch db_file" where
  "migrate run files e j f =
     (case bind_r (all_migrations files) (\<lambda>ms. bind_r (db_conn e j) (\<lambda>_.
             bind_r (user_version e (j + 1) f) (\<lambda>current. Inr (ms, current)))) of
        Inl err \<Rightarrow> (Inl err, f)
      | Inr (ms, current) \<Rightarrow> apply_migrations run e (j + 2) current ms f)"

text \<open>\<open>os.OpenFile\<close> with \<open>O_CREATE|O_EXCL\<close>, and the close of the empty file.\<close>

definition create_file :: "env \<Rightarrow> string \<Rightarrow> 'sch db_file \<Rightarrow> 'sch db_file option \<Rightarrow> unit result \<times> 'sch db_file option" where
  "create_file e full fresh st =
     (case wrap_r (''database: create '' @ full) (db_use e 0) of
        Inl err \<Rightarrow> (Inl err, st)
      | Inr _ \<Rightarrow> (if st \<noteq> None then (Inl (Wrap (''database: create '' @ full) (Sentinel FsErrExist)), st)
          else (wrap_r (''database: create '' @ full @ '': close'') (db_use e 1), Some fresh)))"

text \<open>\<open>Open\<close>: the path as given, whether to create, and the file there before and after.\<close>

definition db_open ::
  "string result \<Rightarrow> (string \<Rightarrow> file_kind result) \<Rightarrow> 'sch script_runner \<Rightarrow> (string \<times> string) list \<Rightarrow> 'sch
     \<Rightarrow> env \<Rightarrow> string \<Rightarrow> bool \<Rightarrow> 'sch db_file option \<Rightarrow> unit result \<times> 'sch db_file option" where
  "db_open cwd stat run files empty_schema e path create st =
     (case check_path cwd stat path create of
        Inl err \<Rightarrow> (Inl err, st)
      | Inr full \<Rightarrow>
         (case (if create then create_file e full \<lparr>df_version = 0, df_schema = empty_schema\<rparr> st else (Inr (), st)) of
            (Inl err, st1) \<Rightarrow> (Inl err, st1)
          | (Inr _, st1) \<Rightarrow>
             (case wrap_r (''database: open '' @ full) (db_use e 2) of
                Inl err \<Rightarrow> (Inl err, st1)
              | Inr _ \<Rightarrow>
                 (case st1 of
                    None \<Rightarrow> (Inl (Wrap (''database: open '' @ full) (Opaque ''unable to open database file'')), st1)
                  | Some f \<Rightarrow> map_prod id Some (migrate run files e 3 f)))))"

text \<open>\<open>SchemaVersion\<close>; and \<open>Close\<close>, which closes the pool the first time alone.\<close>

definition schema_version :: "env \<Rightarrow> 'sch db_file \<Rightarrow> int result" where
  "schema_version e f = bind_r (db_conn e 0) (\<lambda>_. user_version e 1 f)"

definition db_close :: "env \<Rightarrow> bool \<Rightarrow> unit result \<times> bool" where
  "db_close e closed = (if closed then Inr () else wrap_r ''database: close'' (db_use e 0), True)"

section \<open>What the migrations are\<close>

definition rising :: "migration list \<Rightarrow> bool" where
  "rising ms \<longleftrightarrow> sorted_wrt (<) (map mi_version ms) \<and> list_all (\<lambda>m. 1 \<le> mi_version m) ms"

lemma version_of_positive: "version_of name = Inr v \<Longrightarrow> 1 \<le> v"
  by (auto simp: version_of_def split: if_splits option.splits)

lemma collect_rising:
  "collect_migrations ps out = Inr ms \<Longrightarrow> rising (rev out) \<Longrightarrow> rising ms"
proof (induction ps out rule: collect_migrations.induct)
  case (2 name sql rest out)
  then obtain v where v: "version_of name = Inr v" "\<not> (out \<noteq> [] \<and> v \<le> mi_version (hd out))"
      "collect_migrations rest (\<lparr>mi_version = v, mi_name = name, mi_sql = sql\<rparr> # out) = Inr ms"
    by (auto simp: result_iff split: if_splits)
  have "rising (rev (\<lparr>mi_version = v, mi_name = name, mi_sql = sql\<rparr> # out))"
  proof (cases out)
    case (Cons m out')
    then have "\<forall>x \<in> set out. mi_version x < v"
      using "2.prems"(2) v(2) by (auto simp: rising_def sorted_wrt_append)
    with "2.prems"(2) version_of_positive [OF v(1)] show ?thesis by (auto simp: rising_def sorted_wrt_append)
  qed (use version_of_positive [OF v(1)] in \<open>simp add: rising_def\<close>)
  from "2.IH" [OF v(2,3) this] show ?case .
qed simp

lemma all_migrations_rising: "all_migrations files = Inr ms \<Longrightarrow> rising ms \<and> ms \<noteq> []"
  using collect_rising [of _ "[]" ms] by (auto simp: all_migrations_def result_iff rising_def Let_def)

text \<open>A migration's script is one of the embedded files.\<close>

lemma collect_sql: "collect_migrations ps out = Inr ms \<Longrightarrow> mi_sql ` set ms \<subseteq> snd ` set ps \<union> mi_sql ` set out"
proof (induction ps out rule: collect_migrations.induct)
  case (2 name sql rest out)
  then obtain v where v: "version_of name = Inr v" "\<not> (out \<noteq> [] \<and> v \<le> mi_version (hd out))"
      "collect_migrations rest (\<lparr>mi_version = v, mi_name = name, mi_sql = sql\<rparr> # out) = Inr ms"
    by (auto simp: result_iff split: if_splits)
  from "2.IH" [OF v(2,3)] show ?case by auto
qed auto

lemma all_migrations_sql: "all_migrations files = Inr ms \<Longrightarrow> m \<in> set ms \<Longrightarrow> mi_sql m \<in> snd ` set files"
  using collect_sql [of "sort_key fst (filter (\<lambda>p. 4 \<le> length (fst p) \<and> drop (length (fst p) - 4) (fst p) = ''.sql'') files)" "[]" ms]
  by (auto simp: all_migrations_def result_iff Let_def split: if_splits)

section \<open>What opening does\<close>

text \<open>The schema the first scripts build, and the version they leave.\<close>

fun built :: "'sch script_runner \<Rightarrow> migration list \<Rightarrow> 'sch \<Rightarrow> 'sch result" where
  "built run [] sch = Inr sch"
| "built run (m # ms) sch = bind_r (run (mi_sql m) sch) (built run ms)"

definition version_after :: "migration list \<Rightarrow> int" where
  "version_after ms = (if ms = [] then 0 else mi_version (last ms))"

text \<open>The file is where the first \<open>k\<close> migrations leave it.\<close>

definition brought_to :: "'sch script_runner \<Rightarrow> 'sch \<Rightarrow> migration list \<Rightarrow> nat \<Rightarrow> 'sch db_file \<Rightarrow> bool" where
  "brought_to run sch0 ms k f \<longleftrightarrow> k \<le> length ms \<and> built run (take k ms) sch0 = Inr (df_schema f)
     \<and> df_version f = version_after (take k ms)"

text \<open>The schema of one migration more than the version tells.\<close>

definition half_recorded :: "'sch script_runner \<Rightarrow> 'sch \<Rightarrow> migration list \<Rightarrow> nat \<Rightarrow> 'sch db_file \<Rightarrow> bool" where
  "half_recorded run sch0 ms k f \<longleftrightarrow> k < length ms \<and> built run (take (Suc k) ms) sch0 = Inr (df_schema f)
     \<and> df_version f = version_after (take k ms)"


lemma built_snoc: "built run (ms @ [m]) sch = bind_r (built run ms sch) (run (mi_sql m))"
  by (induction ms arbitrary: sch) (auto simp: bind_r_def split: sum.splits)

lemma built_take:
  "k < length ms \<Longrightarrow> built run (take (Suc k) ms) sch = bind_r (built run (take k ms) sch) (run (mi_sql (ms ! k)))"
  by (simp add: take_Suc_conv_app_nth built_snoc)

lemma version_after_take: "k < length ms \<Longrightarrow> version_after (take (Suc k) ms) = mi_version (ms ! k)"
  by (auto simp: version_after_def take_Suc_conv_app_nth)

lemma rising_nth: "rising ms \<Longrightarrow> i < j \<Longrightarrow> j < length ms \<Longrightarrow> mi_version (ms ! i) < mi_version (ms ! j)"
  by (simp add: rising_def sorted_wrt_iff_nth_less)

text \<open>The scripts a file has seen are the ones its version says: those before are passed over.\<close>

lemma version_after_below:
  assumes "rising ms" "k \<le> length ms" "i < length ms"
  shows "mi_version (ms ! i) \<le> version_after (take k ms) \<longleftrightarrow> i < k"
proof (cases k)
  case 0
  have "1 \<le> mi_version (ms ! i)" using assms(1,3) by (simp add: rising_def list_all_length)
  with 0 show ?thesis by (simp add: version_after_def)
next
  case (Suc j)
  then have v: "version_after (take k ms) = mi_version (ms ! j)" using version_after_take [of j ms] assms(2) by simp
  have "i < j \<Longrightarrow> mi_version (ms ! i) < mi_version (ms ! j)" "j < i \<Longrightarrow> mi_version (ms ! j) < mi_version (ms ! i)"
    using rising_nth [OF assms(1)] assms(2,3) Suc by simp_all
  with v Suc show ?thesis by (cases i j rule: linorder_cases) auto
qed

lemma apply_passed:
  "\<forall>m \<in> set ms. mi_version m \<le> current \<Longrightarrow> apply_migrations run e j current (ms @ ms') f = apply_migrations run e j current ms' f"
  by (induction ms) simp_all

lemma apply_from:
  assumes "rising ms" "brought_to run sch0 ms k f" "current < (if k < length ms then mi_version (ms ! k) else current + 1)"
    and "apply_migrations run e j current (drop k ms) f = (r, f')"
  shows "case r of Inr _ \<Rightarrow> brought_to run sch0 ms (length ms) f'
    | Inl _ \<Rightarrow> (\<exists>i \<ge> k. brought_to run sch0 ms i f' \<or> half_recorded run sch0 ms i f')"
  using assms(2-)
proof (induction "length ms - k" arbitrary: k j f)
  case 0
  then have "k = length ms" by (simp add: brought_to_def)
  with 0 show ?case by auto
next
  case (Suc n)
  then have k: "k < length ms" by simp
  let ?m = "ms ! k"
  have d: "drop k ms = ?m # drop (Suc k) ms" using k by (simp add: Cons_nth_drop_Suc)
  have new: "\<not> mi_version ?m \<le> current" using Suc.prems(2) k by simp
  show ?case
  proof (cases "wrap_r (''database: migration '' @ mi_name ?m) (bind_r (db_use e j) (\<lambda>_. run (mi_sql ?m) (df_schema f)))")
    case (Inl err)
    then have "r = Inl err" "f' = f" using Suc.prems(3) new by (simp_all add: d)
    with Suc.prems(1) show ?thesis by auto
  next
    case (Inr sch)
    then have s: "run (mi_sql ?m) (df_schema f) = Inr sch" by (simp add: result_iff)
    let ?f1 = "f\<lparr>df_schema := sch\<rparr>"
    have b: "built run (take (Suc k) ms) sch0 = Inr sch"
      using Suc.prems(1) s k by (simp add: built_take brought_to_def)
    show ?thesis
    proof (cases "wrap_r (''database: migration '' @ mi_name ?m @ '': record version'') (db_use e (j + 1))")
      case (Inl err)
      then have "r = Inl err" "f' = ?f1" using Suc.prems(3) new Inr by (simp_all add: d)
      moreover have "half_recorded run sch0 ms k ?f1" using b k Suc.prems(1) by (simp add: half_recorded_def brought_to_def)
      ultimately show ?thesis by auto
    next
      case i: (Inr _)
      let ?f2 = "?f1\<lparr>df_version := mi_version ?m\<rparr>"
      have a: "apply_migrations run e (j + 2) current (drop (Suc k) ms) ?f2 = (r, f')"
        using Suc.prems(3) new Inr i by (simp add: d)
      have f2: "brought_to run sch0 ms (Suc k) ?f2" using b k by (simp add: brought_to_def version_after_take)
      have c: "current < (if Suc k < length ms then mi_version (ms ! Suc k) else current + 1)"
        using rising_nth [OF assms(1), of k "Suc k"] new by auto
      have "n = length ms - Suc k" using Suc.hyps(2) by simp
      from Suc.hyps(1) [OF this f2 c a] show ?thesis by (auto split: sum.splits intro: Suc_leD)
    qed
  qed
qed

text \<open>\<open>migrate\<close> on a file that has seen the first \<open>k\<close> migrations.\<close>

lemma migrate_brings:
  assumes "all_migrations files = Inr ms" "brought_to run sch0 ms k f" "migrate run files e j f = (r, f')"
  shows "case r of Inr _ \<Rightarrow> brought_to run sch0 ms (length ms) f'
    | Inl _ \<Rightarrow> (\<exists>i \<ge> k. brought_to run sch0 ms i f' \<or> half_recorded run sch0 ms i f')"
proof (cases "bind_r (db_conn e j) (\<lambda>_. user_version e (j + 1) f)")
  case (Inl err)
  then have "r = Inl err" "f' = f" using assms(1,3) by (auto simp: migrate_def bind_r_def split: sum.splits)
  with assms(2) show ?thesis by auto
next
  case (Inr v)
  have rise: "rising ms" using all_migrations_rising [OF assms(1)] by simp
  have k: "k \<le> length ms" and v: "v = version_after (take k ms)"
    using assms(2) Inr by (auto simp: brought_to_def user_version_def result_iff)
  have "apply_migrations run e (j + 2) v ms f = (r, f')"
    using assms(1,3) Inr by (auto simp: migrate_def bind_r_def split: sum.splits)
  moreover have "\<forall>m \<in> set (take k ms). mi_version m \<le> v"
    using version_after_below [OF rise k] k unfolding v by (auto simp: in_set_conv_nth)
  ultimately have a: "apply_migrations run e (j + 2) v (drop k ms) f = (r, f')"
    using apply_passed [of "take k ms" v run e "j + 2" "drop k ms" f] by simp
  have "v < (if k < length ms then mi_version (ms ! k) else v + 1)"
    using version_after_below [OF rise k, of k] unfolding v by auto
  from apply_from [OF rise assms(2) this a] show ?thesis .
qed

text \<open>When nothing fails beneath it and the scripts run, the file comes to the last migration.\<close>

lemma apply_completes:
  assumes "\<And>j. ctx_err e j = None" "brought_to run sch0 ms k f" "built run ms sch0 = Inr sch"
    and "rising ms" "current < (if k < length ms then mi_version (ms ! k) else current + 1)"
  shows "fst (apply_migrations run e j current (drop k ms) f) = Inr ()"
  using assms(2,5)
proof (induction "length ms - k" arbitrary: k j f)
  case 0
  then show ?case by (simp add: brought_to_def)
next
  case (Suc n)
  then have k: "k < length ms" by simp
  let ?m = "ms ! k"
  have d: "drop k ms = ?m # drop (Suc k) ms" using k by (simp add: Cons_nth_drop_Suc)
  have new: "\<not> mi_version ?m \<le> current" using Suc.prems(2) k by simp
  have parts: "built run (xs @ ys) s0 = bind_r (built run xs s0) (built run ys)" for xs ys s0
    by (induction xs arbitrary: s0) (auto simp: bind_r_def split: sum.splits)
  have "built run (take (Suc k) ms @ drop (Suc k) ms) sch0 = Inr sch" using assms(3) by simp
  then obtain s1 where s1: "built run (take (Suc k) ms) sch0 = Inr s1" unfolding parts by (auto simp: result_iff)
  then have r: "run (mi_sql ?m) (df_schema f) = Inr s1"
    using Suc.prems(1) k by (simp add: built_take brought_to_def)
  let ?f2 = "f\<lparr>df_schema := s1, df_version := mi_version ?m\<rparr>"
  have f2: "brought_to run sch0 ms (Suc k) ?f2" using s1 k by (simp add: brought_to_def version_after_take)
  have c: "current < (if Suc k < length ms then mi_version (ms ! Suc k) else current + 1)"
    using rising_nth [OF assms(4), of k "Suc k"] new by auto
  have "n = length ms - Suc k" using Suc.hyps(2) by simp
  from Suc.hyps(1) [OF this f2 c] show ?case using new r assms(1) by (simp add: d db_use_def)
qed

lemma migrate_completes:
  assumes "all_migrations files = Inr ms" "brought_to run sch0 ms k f" "built run ms sch0 = Inr sch" "\<And>j. ctx_err e j = None"
  shows "fst (migrate run files e j f) = Inr ()"
proof -
  have rise: "rising ms" using all_migrations_rising [OF assms(1)] by simp
  let ?v = "version_after (take k ms)"
  have k: "k \<le> length ms" "df_version f = ?v" using assms(2) by (simp_all add: brought_to_def)
  have "\<forall>m \<in> set (take k ms). mi_version m \<le> ?v"
    using version_after_below [OF rise k(1)] k(1) by (auto simp: in_set_conv_nth)
  then have "apply_migrations run e (j + 2) ?v ms f = apply_migrations run e (j + 2) ?v (drop k ms) f"
    using apply_passed [of "take k ms" ?v run e "j + 2" "drop k ms" f] by simp
  moreover have "?v < (if k < length ms then mi_version (ms ! k) else ?v + 1)"
    using version_after_below [OF rise k(1), of k] by auto
  ultimately have "fst (apply_migrations run e (j + 2) ?v ms f) = Inr ()"
    using apply_completes [OF assms(4,2,3) rise, of ?v "j + 2"] by simp
  then show ?thesis using assms(1,4) k(2) by (simp add: migrate_def user_version_def db_conn_def db_use_def)
qed

text \<open>A file whose last script is not recorded, where that script cannot run again, stays so.\<close>

lemma half_recorded_stuck:
  assumes "all_migrations files = Inr ms" "half_recorded run sch0 ms k f" "run (mi_sql (ms ! k)) (df_schema f) = Inl err"
  shows "\<exists>err'. migrate run files e j f = (Inl err', f)"
proof (cases "bind_r (db_conn e j) (\<lambda>_. user_version e (j + 1) f)")
  case (Inl err)
  then show ?thesis using assms(1) by (auto simp: migrate_def bind_r_def split: sum.splits)
next
  case (Inr v)
  have rise: "rising ms" using all_migrations_rising [OF assms(1)] by simp
  have k: "k < length ms" "v = version_after (take k ms)"
    using assms(2) Inr by (auto simp: half_recorded_def user_version_def result_iff)
  have "\<forall>m \<in> set (take k ms). mi_version m \<le> v"
    using version_after_below [OF rise, of k] k by (auto simp: in_set_conv_nth)
  then have "apply_migrations run e (j + 2) v ms f = apply_migrations run e (j + 2) v (drop k ms) f"
    using apply_passed [of "take k ms" v run e "j + 2" "drop k ms" f] by simp
  moreover have "drop k ms = ms ! k # drop (Suc k) ms" using k(1) by (simp add: Cons_nth_drop_Suc)
  moreover have "\<not> mi_version (ms ! k) \<le> v" using version_after_below [OF rise, of k k] k by simp
  ultimately have "\<exists>err'. apply_migrations run e (j + 2) v ms f = (Inl err', f)"
    using assms(3) by (auto simp: bind_r_def wrap_r_def split: sum.splits)
  then show ?thesis using assms(1) Inr by (auto simp: migrate_def bind_r_def split: sum.splits)
qed

text \<open>What \<open>checkPath\<close> has seen when it lets a path pass.\<close>

lemma check_path_Inr:
  assumes "check_path cwd stat path create = Inr full"
  shows "stat (dir_of full) = Inr Directory
    \<and> (if create then \<exists>err. stat full = Inl err \<and> errors_is err FsErrNotExist else stat full = Inr RegularFile)"
proof (cases "abs_path cwd path")
  case (Inl err)
  then show ?thesis using assms by (simp add: check_path_def)
next
  case (Inr x)
  then show ?thesis using assms
    by (cases "stat (dir_of x)"; cases "stat x") (auto simp: check_path_def Let_def split: if_splits file_kind.splits)
qed

text \<open>The file there is one the application made, if there is one.\<close>

definition made :: "'sch script_runner \<Rightarrow> 'sch \<Rightarrow> migration list \<Rightarrow> nat \<Rightarrow> 'sch db_file option \<Rightarrow> bool" where
  "made run sch0 ms k st \<longleftrightarrow> (case st of None \<Rightarrow> k = 0 | Some f \<Rightarrow> brought_to run sch0 ms k f)"

lemma create_file_cases:
  "create_file e full fresh st = (c, st1) \<Longrightarrow>
     (st1 = st \<or> st = None \<and> st1 = Some fresh) \<and> (case c of Inl _ \<Rightarrow> True | Inr _ \<Rightarrow> st = None \<and> st1 = Some fresh)"
  by (cases c; cases "db_use e 0"; cases "db_use e 1") (auto simp: create_file_def split: if_splits)

lemma db_open_brings:
  assumes "all_migrations files = Inr ms" "made run sch0 ms k st" "db_open cwd stat run files sch0 e path create st = (r, st')"
  shows "case r of
      Inr _ \<Rightarrow> (create \<longleftrightarrow> st = None) \<and> (\<exists>f. st' = Some f \<and> brought_to run sch0 ms (length ms) f)
    | Inl _ \<Rightarrow> st' = st \<or> (\<exists>f i. st' = Some f \<and> k \<le> i \<and> (brought_to run sch0 ms i f \<or> half_recorded run sch0 ms i f))"
proof -
  have fresh: "brought_to run sch0 ms 0 \<lparr>df_version = 0, df_schema = sch0\<rparr>" by (simp add: brought_to_def version_after_def)
  note m = migrate_brings [OF assms(1)]
  show ?thesis
  proof (cases "check_path cwd stat path create")
    case (Inl err)
    then show ?thesis using assms(3) by (auto simp: db_open_def)
  next
    case (Inr full)
    let ?new = "\<lparr>df_version = 0, df_schema = sch0\<rparr>"
    obtain c st1 where c: "(if create then create_file e full ?new st else (Inr (), st)) = (c, st1)" by force
    have st1: "st1 = st \<or> st = None \<and> st1 = Some ?new" "isl c \<or> (if create then st = None \<and> st1 = Some ?new else st1 = st)"
      using c create_file_cases [of e full ?new st c st1] by (auto split: if_splits sum.splits)
    have "k = 0" if "st = None" using assms(2) that by (simp add: made_def)
    then have at: "brought_to run sch0 ms k f" if "st1 = Some f" for f
      using st1(1) that assms(2) fresh by (auto simp: made_def)
    show ?thesis
    proof (cases c)
      case (Inl err)
      then have "r = Inl err" "st' = st1" using assms(3) Inr c by (simp_all add: db_open_def)
      then show ?thesis using st1(1) at by auto
    next
      case c': (Inr _)
      consider (shut) err where "r = Inl err" "st' = st1"
        | (up) f f' where "st1 = Some f" "migrate run files e 3 f = (r, f')" "st' = Some f'"
      proof (cases "wrap_r (''database: open '' @ full) (db_use e 2)")
        case (Inl err)
        then have "db_open cwd stat run files sch0 e path create st = (Inl err, st1)"
          using \<open>check_path cwd stat path create = Inr full\<close> c c' by (simp add: db_open_def)
        then have "r = Inl err" "st' = st1" using assms(3) by simp_all
        then show ?thesis by (rule shut)
      next
        case (Inr _)
        then show ?thesis using assms(3) \<open>check_path cwd stat path create = Inr full\<close> c c' shut up
          by (cases st1; cases "migrate run files e 3 (the st1)") (auto simp: db_open_def)
      qed
      then show ?thesis
      proof cases
        case shut
        then show ?thesis using st1(1) at by auto
      next
        case up
        have "create \<longleftrightarrow> st = None" using st1(2) c' up(1) by (auto split: if_splits)
        with m [OF at [OF up(1)] up(2)] up(3) show ?thesis by (auto split: sum.splits)
      qed
    qed
  qed
qed

text \<open>Where nothing beneath fails, opening succeeds.\<close>

lemma db_open_works:
  assumes "all_migrations files = Inr ms" "made run sch0 ms k st" "\<And>j. ctx_err e j = None"
    and "check_path cwd stat path create = Inr full" "built run ms sch0 = Inr sch" "create \<longleftrightarrow> st = None"
  shows "\<exists>st'. db_open cwd stat run files sch0 e path create st = (Inr (), st')"
proof -
  let ?new = "\<lparr>df_version = 0, df_schema = sch0\<rparr>"
  have use: "db_use e j = Inr ()" for j using assms(3) by (simp add: db_use_def)
  have fresh: "brought_to run sch0 ms 0 ?new" by (simp add: brought_to_def version_after_def)
  obtain f where f: "(if create then create_file e full ?new st else (Inr (), st)) = (Inr (), Some f)" "brought_to run sch0 ms k f"
  proof (cases st)
    case None
    then show ?thesis using that [of ?new] fresh assms(2,6) use by (simp add: create_file_def made_def)
  next
    case (Some f)
    then show ?thesis using that [of f] assms(2,6) by (simp add: made_def)
  qed
  have "fst (migrate run files e 3 f) = Inr ()" by (rule migrate_completes [OF assms(1) f(2) assms(5,3)])
  then show ?thesis using f(1) assms(4) use by (cases "migrate run files e 3 f") (simp add: db_open_def)
qed

end
