(* ===== verification/Go_Flags.thy ===== *)
theory Go_Flags
  imports Go_Text Float_Round
begin

text \<open>
  Reading a command's settings: the parts of package flag the two commands use, with the numbers
  its values are written in (\<open>strconv.ParseUint\<close>, \<open>strconv.ParseInt\<close> and \<open>strconv.ParseBool\<close> with
  base 0, \<open>time.ParseDuration\<close>).
\<close>

section \<open>Numbers\<close>

text \<open>A digit of a base up to sixteen, and an underscore, which base 0 lets stand between digits.\<close>

definition lower_byte :: "char \<Rightarrow> nat" where
  "lower_byte c = (if 65 \<le> byte c \<and> byte c \<le> 90 then byte c + 32 else byte c)"

definition base_digit :: "nat \<Rightarrow> char \<Rightarrow> nat option" where
  "base_digit b c =
     (let d = (case digit_value c of Some d \<Rightarrow> d
        | None \<Rightarrow> if 97 \<le> lower_byte c \<and> lower_byte c \<le> 122 then lower_byte c - 87 else 36) in
      if d < b then Some d else None)"

fun base_value :: "nat \<Rightarrow> nat \<Rightarrow> string \<Rightarrow> nat option" where
  "base_value b acc [] = Some acc"
| "base_value b acc (c # cs) =
     (if c = CHR ''_'' then base_value b acc cs
      else case base_digit b c of
        None \<Rightarrow> None
      | Some d \<Rightarrow> if b * acc + d < 2 ^ 64 then base_value b (b * acc + d) cs else None)"

text \<open>\<open>underscoreOK\<close>, on text whose other characters are digits.\<close>

fun single_underscores :: "char \<Rightarrow> string \<Rightarrow> bool" where
  "single_underscores saw [] = (saw \<noteq> CHR ''_'')"
| "single_underscores saw (c # cs) =
     (\<not> (c = CHR ''_'' \<and> (saw = CHR ''_'' \<or> saw = CHR ''^'')) \<and> single_underscores c cs)"

text \<open>The base a prefix names, what follows it, and what the underscores are told to follow.\<close>

definition base_prefix :: "string \<Rightarrow> nat \<times> string \<times> char" where
  "base_prefix s =
     (if hd s = CHR ''0'' \<and> 3 \<le> length s \<and> lower_byte (s ! 1) = 98 then (2, drop 2 s, CHR ''0'')
      else if hd s = CHR ''0'' \<and> 3 \<le> length s \<and> lower_byte (s ! 1) = 111 then (8, drop 2 s, CHR ''0'')
      else if hd s = CHR ''0'' \<and> 3 \<le> length s \<and> lower_byte (s ! 1) = 120 then (16, drop 2 s, CHR ''0'')
      else if hd s = CHR ''0'' then (8, tl s, CHR ''0'')
      else (10, s, CHR ''^''))"

definition parse_uint_any :: "string \<Rightarrow> nat option" where
  "parse_uint_any s =
     (if s = [] then None
      else case base_prefix s of (b, t, saw) \<Rightarrow>
        if single_underscores saw t then base_value b 0 t else None)"

definition parse_int_any :: "string \<Rightarrow> int option" where
  "parse_int_any s =
     (if s = [] then None
      else
        let neg = (hd s = CHR ''-''); t = (if neg \<or> hd s = CHR ''+'' then tl s else s) in
        case parse_uint_any t of
          None \<Rightarrow> None
        | Some n \<Rightarrow>
            if neg then (if n \<le> 2 ^ 63 then Some (- int n) else None)
            else (if n < 2 ^ 63 then Some (int n) else None))"

definition parse_bool :: "string \<Rightarrow> bool option" where
  "parse_bool s =
     (if s \<in> {''1'', ''t'', ''T'', ''TRUE'', ''true'', ''True''} then Some True
      else if s \<in> {''0'', ''f'', ''F'', ''FALSE'', ''false'', ''False''} then Some False else None)"

section \<open>Durations\<close>

definition is_digit :: "char \<Rightarrow> bool" where
  "is_digit c \<longleftrightarrow> digit_value c \<noteq> None"

text \<open>\<open>leadingFraction\<close>: digits past the precision of 64 bits are passed over.\<close>

fun leading_fraction :: "nat \<Rightarrow> nat \<Rightarrow> string \<Rightarrow> nat \<times> nat" where
  "leading_fraction x scale [] = (x, scale)"
| "leading_fraction x scale (c # cs) =
     (let y = 10 * x + the (digit_value c) in
      if (2 ^ 63 - 1) div 10 < x \<or> 2 ^ 63 < y then (x, scale) else leading_fraction y (10 * scale) cs)"

text \<open>\<open>unitMap\<close>; the two spellings of micro are U+00B5 and U+03BC.\<close>

definition unit_of :: "string \<Rightarrow> int option" where
  "unit_of s =
     (if s = ''ns'' then Some 1
      else if s = ''us'' \<or> s = encode_rune 0xB5 @ ''s'' \<or> s = encode_rune 0x3BC @ ''s'' then Some 1000
      else if s = ''ms'' then Some 1000000 else if s = ''s'' then Some second
      else if s = ''m'' then Some minute else if s = ''h'' then Some hour else None)"

text \<open>
  The number at the front of the text, its digits before and after the point with the scale of
  these, and what follows; then its unit. The result is in nanoseconds.
\<close>

definition duration_number :: "string \<Rightarrow> (nat \<times> nat \<times> nat \<times> string) option" where
  "duration_number s =
     (let whole = takeWhile is_digit s; r = dropWhile is_digit s; point = (r \<noteq> [] \<and> hd r = CHR ''.'');
          frac = (if point then takeWhile is_digit (tl r) else []);
          v = the (digits_value 0 whole); (f, scale) = leading_fraction 0 1 frac in
      if 2 ^ 63 < v \<or> (whole = [] \<and> frac = []) then None
      else Some (v, f, scale, if point then dropWhile is_digit (tl r) else r))"

definition duration_part :: "string \<Rightarrow> (nat \<times> string) option" where
  "duration_part s =
     (case duration_number s of
        None \<Rightarrow> None
      | Some (v, f, scale, r) \<Rightarrow>
          (case unit_of (takeWhile (\<lambda>c. c \<noteq> CHR ''.'' \<and> \<not> is_digit c) r) of
             None \<Rightarrow> None
           | Some w \<Rightarrow>
               let d = v * nat w + (if 0 < f then nat (trunc (fl (fl (of_nat f) * fl (of_int w / of_nat scale)))) else 0) in
               if 2 ^ 63 div nat w < v \<or> 2 ^ 63 < d then None
               else Some (d, dropWhile (\<lambda>c. c \<noteq> CHR ''.'' \<and> \<not> is_digit c) r)))"

lemma unit_of_Nil [simp]: "unit_of [] = None"
  by (simp add: unit_of_def)

lemma duration_number_rest: "duration_number s = Some (v, f, scale, r) \<Longrightarrow> length r \<le> length s"
  using length_dropWhile_le [of is_digit s] length_dropWhile_le [of is_digit "tl (dropWhile is_digit s)"]
  by (auto simp: duration_number_def Let_def split: if_splits prod.splits)

lemma dropWhile_shorter: "takeWhile P xs \<noteq> [] \<Longrightarrow> length (dropWhile P xs) < length xs"
  by (cases xs) (auto simp: length_dropWhile_le less_Suc_eq_le split: if_splits)

lemma duration_part_shorter: "duration_part s = Some (d, rest) \<Longrightarrow> length rest < length s"
proof -
  assume a: "duration_part s = Some (d, rest)"
  then obtain v f scale r where n: "duration_number s = Some (v, f, scale, r)"
    by (auto simp: duration_part_def split: option.splits)
  then have u: "unit_of (takeWhile (\<lambda>c. c \<noteq> CHR ''.'' \<and> \<not> is_digit c) r) \<noteq> None"
    and "rest = dropWhile (\<lambda>c. c \<noteq> CHR ''.'' \<and> \<not> is_digit c) r"
    using a by (simp_all add: duration_part_def Let_def split: if_split_asm option.split_asm)
  moreover have "takeWhile (\<lambda>c. c \<noteq> CHR ''.'' \<and> \<not> is_digit c) r \<noteq> []" using u unit_of_Nil by metis
  ultimately have "length rest < length r" using dropWhile_shorter by simp
  with duration_number_rest [OF n] show ?thesis by simp
qed

function duration_sum :: "nat \<Rightarrow> string \<Rightarrow> nat option" where
  "duration_sum acc s =
     (if s = [] then Some acc
      else case duration_part s of
        None \<Rightarrow> None
      | Some (d, rest) \<Rightarrow> if 2 ^ 63 < acc + d then None else duration_sum (acc + d) rest)"
  by pat_completeness auto

termination
  by (relation "measure (\<lambda>(_, s). length s)") (auto dest: duration_part_shorter)

definition parse_duration :: "string \<Rightarrow> duration option" where
  "parse_duration s =
     (let neg = (s \<noteq> [] \<and> hd s = CHR ''-''); t = (if neg \<or> (s \<noteq> [] \<and> hd s = CHR ''+'') then tl s else s) in
      if t = ''0'' then Some 0
      else if t = [] then None
      else case duration_sum 0 t of
        None \<Rightarrow> None
      | Some d \<Rightarrow> if neg then Some (- int d) else if d < 2 ^ 63 then Some (int d) else None)"

section \<open>Flags\<close>

datatype flag_kind = TextFlag | SwitchFlag | UintFlag | IntFlag | DurationFlag

datatype flag_value = TextValue string | SwitchValue bool | UintValue nat | IntValue int | DurationValue duration

definition set_flag :: "flag_kind \<Rightarrow> string \<Rightarrow> flag_value option" where
  "set_flag k v = (case k of
     TextFlag \<Rightarrow> Some (TextValue v)
   | SwitchFlag \<Rightarrow> map_option SwitchValue (parse_bool v)
   | UintFlag \<Rightarrow> map_option UintValue (parse_uint_any v)
   | IntFlag \<Rightarrow> map_option IntValue (parse_int_any v)
   | DurationFlag \<Rightarrow> map_option DurationValue (parse_duration v))"

text \<open>\<open>parseOne\<close>: the parse is over, has failed, or has set a flag and left these arguments.\<close>

datatype flag_step = EndOfFlags "string list" | BadFlag goerr | FlagSet string flag_value "string list"

definition set_or_fail :: "unicode \<Rightarrow> flag_kind \<Rightarrow> string \<Rightarrow> string \<Rightarrow> string list \<Rightarrow> flag_step" where
  "set_or_fail u k name v rest = (case set_flag k v of
     Some x \<Rightarrow> FlagSet name x rest
   | None \<Rightarrow> BadFlag (Opaque
       ((if k = SwitchFlag then ''invalid boolean value '' @ quote u v @ '' for -''
         else ''invalid value '' @ quote u v @ '' for flag -'') @ name)))"

definition parse_one :: "unicode \<Rightarrow> (string \<times> flag_kind) list \<Rightarrow> string \<Rightarrow> string list \<Rightarrow> flag_step" where
  "parse_one u flags s rest =
     (if length s < 2 \<or> hd s \<noteq> CHR ''-'' then EndOfFlags (s # rest)
      else if s = ''--'' then EndOfFlags rest
      else
        let text = (if s ! 1 = CHR ''-'' then drop 2 s else tl s);
            name = take 1 text @ before (CHR ''='') (tl text);
            has_value = (CHR ''='' \<in> set (tl text)); v = drop (Suc (length name)) text in
        if text = [] \<or> hd text = CHR ''-'' \<or> hd text = CHR ''='' then BadFlag (Opaque (''bad flag syntax: '' @ s))
        else case map_of flags name of
          None \<Rightarrow>
            if name = ''help'' \<or> name = ''h'' then BadFlag (Sentinel FlagErrHelp)
            else BadFlag (Opaque (''flag provided but not defined: -'' @ name))
        | Some k \<Rightarrow>
            if has_value then set_or_fail u k name v rest
            else if k = SwitchFlag then set_or_fail u k name ''true'' rest
            else if rest = [] then BadFlag (Opaque (''flag needs an argument: -'' @ name))
            else set_or_fail u k name (hd rest) (tl rest))"

lemma set_or_fail_rest: "set_or_fail u k name v rest = FlagSet n x rest' \<Longrightarrow> n = name \<and> set_flag k v = Some x \<and> rest' = rest"
  by (auto simp: set_or_fail_def split: option.splits)

lemma parse_one_set:
  assumes "parse_one u flags s rest = FlagSet n x rest'"
  shows "(rest' = rest \<or> (\<exists>v. rest = v # rest')) \<and> (\<exists>k v. map_of flags n = Some k \<and> set_flag k v = Some x)"
  using assms
  by (auto simp: parse_one_def Let_def neq_Nil_conv split: if_splits option.splits dest!: set_or_fail_rest)

lemma parse_one_shorter: "parse_one u flags s rest = FlagSet n x rest' \<Longrightarrow> length rest' < Suc (length rest)"
  using parse_one_set [of u flags s rest n x rest'] by auto

text \<open>
  \<open>FlagSet.Parse\<close>: the flags a command defines, its arguments, and the values set so far, the
  last set first; the result is the values and the arguments left.
\<close>

function parse_flags ::
  "unicode \<Rightarrow> (string \<times> flag_kind) list \<Rightarrow> string list \<Rightarrow> (string \<times> flag_value) list
     \<Rightarrow> ((string \<times> flag_value) list \<times> string list) result" where
  "parse_flags u flags [] vals = Inr (vals, [])"
| "parse_flags u flags (s # rest) vals =
     (case parse_one u flags s rest of
        EndOfFlags left \<Rightarrow> Inr (vals, left)
      | BadFlag err \<Rightarrow> Inl err
      | FlagSet name x rest' \<Rightarrow> parse_flags u flags rest' ((name, x) # vals))"
  by pat_completeness auto

termination
  by (relation "measure (\<lambda>(_, _, args, _). length args)") (auto dest: parse_one_shorter)

text \<open>What a flag's variable holds afterwards.\<close>

definition flag_text :: "(string \<times> flag_value) list \<Rightarrow> string \<Rightarrow> string \<Rightarrow> string" where
  "flag_text vals name preset = (case map_of vals name of Some (TextValue s) \<Rightarrow> s | _ \<Rightarrow> preset)"

definition flag_switch :: "(string \<times> flag_value) list \<Rightarrow> string \<Rightarrow> bool" where
  "flag_switch vals name = (case map_of vals name of Some (SwitchValue b) \<Rightarrow> b | _ \<Rightarrow> False)"

definition flag_uint :: "(string \<times> flag_value) list \<Rightarrow> string \<Rightarrow> nat \<Rightarrow> nat" where
  "flag_uint vals name preset = (case map_of vals name of Some (UintValue n) \<Rightarrow> n | _ \<Rightarrow> preset)"

definition flag_int :: "(string \<times> flag_value) list \<Rightarrow> string \<Rightarrow> int \<Rightarrow> int" where
  "flag_int vals name preset = (case map_of vals name of Some (IntValue n) \<Rightarrow> n | _ \<Rightarrow> preset)"

definition flag_duration :: "(string \<times> flag_value) list \<Rightarrow> string \<Rightarrow> duration \<Rightarrow> duration" where
  "flag_duration vals name preset = (case map_of vals name of Some (DurationValue d) \<Rightarrow> d | _ \<Rightarrow> preset)"

section \<open>What a parse yields\<close>

lemma base_value_below: "base_value b acc s = Some n \<Longrightarrow> acc < 2 ^ 64 \<Longrightarrow> n < 2 ^ 64"
  by (induction b acc s rule: base_value.induct) (auto split: if_splits option.splits)

lemma parse_uint_any_below: "parse_uint_any s = Some n \<Longrightarrow> n < 2 ^ 64"
  using base_value_below by (auto simp: parse_uint_any_def split: if_splits prod.splits)

lemma duration_sum_below: "duration_sum acc s = Some d \<Longrightarrow> acc \<le> 2 ^ 63 \<Longrightarrow> d \<le> 2 ^ 63"
proof (induction acc s rule: duration_sum.induct)
  case (1 acc s)
  then show ?case
    by (subst (asm) duration_sum.simps) (auto split: if_splits option.splits simp del: duration_sum.simps)
qed

lemma parse_duration_range:
  assumes "parse_duration s = Some d"
  shows "- (2 ^ 63) \<le> d \<and> d < 2 ^ 63"
proof (cases "d = 0")
  case False
  then obtain t n where n: "duration_sum 0 t = Some n" "d = - int n \<or> d = int n \<and> n < 2 ^ 63"
    using assms by (simp add: parse_duration_def Let_def split: if_split_asm option.split_asm del: duration_sum.simps)
  then show ?thesis using duration_sum_below [OF n(1)] by auto
qed simp

text \<open>Every value set is of its flag's kind.\<close>

fun of_kind :: "flag_kind \<Rightarrow> flag_value \<Rightarrow> bool" where
  "of_kind TextFlag (TextValue _) = True"
| "of_kind SwitchFlag (SwitchValue _) = True"
| "of_kind UintFlag (UintValue n) = (n < 2 ^ 64)"
| "of_kind IntFlag (IntValue i) = (- (2 ^ 63) \<le> i \<and> i < 2 ^ 63)"
| "of_kind DurationFlag (DurationValue d) = (- (2 ^ 63) \<le> d \<and> d < 2 ^ 63)"
| "of_kind _ _ = False"

definition vals_ok :: "(string \<times> flag_kind) list \<Rightarrow> (string \<times> flag_value) list \<Rightarrow> bool" where
  "vals_ok flags vals \<longleftrightarrow> list_all (\<lambda>(n, x). \<exists>k. map_of flags n = Some k \<and> of_kind k x) vals"

lemma parse_int_any_range: "parse_int_any s = Some i \<Longrightarrow> - (2 ^ 63) \<le> i \<and> i < 2 ^ 63"
  by (auto simp: parse_int_any_def Let_def split: if_splits option.splits)

lemma set_flag_kind: "set_flag k v = Some x \<Longrightarrow> of_kind k x"
  using parse_uint_any_below parse_duration_range parse_int_any_range
  by (auto simp: set_flag_def split: flag_kind.splits)

lemma parse_one_end: "parse_one u flags s rest = EndOfFlags left \<Longrightarrow> left = s # rest \<or> left = rest"
  by (auto simp: parse_one_def set_or_fail_def Let_def split: if_splits option.splits)

lemma parse_flags_ok:
  "parse_flags u flags args vals = Inr (vals', left) \<Longrightarrow> vals_ok flags vals \<Longrightarrow>
     vals_ok flags vals' \<and> (\<exists>seen. args = seen @ left)"
proof (induction u flags args vals rule: parse_flags.induct)
  case (2 u flags s rest vals)
  show ?case
  proof (cases "parse_one u flags s rest")
    case (FlagSet name x rest')
    note p = parse_one_set [OF FlagSet]
    have "vals_ok flags ((name, x) # vals)" using p set_flag_kind "2.prems"(2) by (auto simp: vals_ok_def)
    then have "vals_ok flags vals'" "\<exists>seen. rest' = seen @ left"
      using "2.IH" [OF FlagSet] "2.prems"(1) FlagSet by simp_all
    with p show ?thesis by (metis append_Cons)
  next
    case (EndOfFlags l)
    then show ?thesis using "2.prems" parse_one_end [of u flags s rest l] by (auto intro: exI [of _ "[]"] exI [of _ "[s]"])
  qed (use "2.prems" in simp)
qed simp

end
