(* ===== verification/Zorkd_Command.thy ===== *)
theory Zorkd_Command
  imports Web_Server Health_Probe Db_Whole Db_Open Go_Flags
begin

text \<open>
  The command zorkd (cmd/zorkd): its settings, the subcommands that make a database and issue an
  invitation, the sweeps, and serving, from the checked settings to the last deferred call.

  The machine it runs on is a record: the environment's variables, the working directory, the
  file system's answers, and what SQLite makes of a migration.
\<close>

record 'sch host =
  ho_getenv :: "string \<Rightarrow> string option"
  ho_cwd :: "string result"
  ho_stat :: "string \<Rightarrow> file_kind result"
  ho_scripts :: "'sch script_runner"
  ho_files :: "(string \<times> string) list"
  ho_empty :: 'sch
  ho_unicode :: unicode

definition open_database :: "'sch host \<Rightarrow> env \<Rightarrow> string \<Rightarrow> bool \<Rightarrow> 'sch db_file option \<Rightarrow> unit result \<times> 'sch db_file option" where
  "open_database h e path create st =
     db_open (ho_cwd h) (ho_stat h) (ho_scripts h) (ho_files h) (ho_empty h) e path create st"

section \<open>Settings\<close>

definition env_or :: "'sch host \<Rightarrow> string \<Rightarrow> string \<Rightarrow> string" where
  "env_or h name fallback = (case ho_getenv h name of Some v \<Rightarrow> if v \<noteq> [] then v else fallback | None \<Rightarrow> fallback)"

definition env_duration :: "'sch host \<Rightarrow> string \<Rightarrow> duration \<Rightarrow> duration result" where
  "env_duration h name fallback =
     (let v = env_or h name [] in
      if v = [] then Inr fallback
      else case parse_duration v of
        None \<Rightarrow> Inl (Wrap (name @ ''='' @ quote (ho_unicode h) v) (Opaque ''time: invalid duration''))
      | Some d \<Rightarrow> Inr d)"

definition env_uint :: "'sch host \<Rightarrow> string \<Rightarrow> nat \<Rightarrow> nat result" where
  "env_uint h name fallback =
     (let v = env_or h name [] in
      if v = [] then Inr fallback
      else case parse_nat v of
        None \<Rightarrow> Inl (Wrap (name @ ''='' @ quote (ho_unicode h) v) (Opaque ''strconv.ParseUint: invalid syntax''))
      | Some n \<Rightarrow>
          if n < 2 ^ 64 then Inr n
          else Inl (Wrap (name @ ''='' @ quote (ho_unicode h) v) (Opaque ''strconv.ParseUint: value out of range'')))"

record settings =
  cf_addr :: string
  cf_database :: string
  cf_timeout :: duration
  cf_limit :: nat
  cf_insecure :: bool
  cf_proxies :: string
  cf_verbose :: bool

definition serve_flags :: "(string \<times> flag_kind) list" where
  "serve_flags = [(''addr'', TextFlag), (''database'', TextFlag), (''turn-timeout'', DurationFlag),
     (''instruction-limit'', UintFlag), (''insecure-cookies'', SwitchFlag), (''trusted-proxies'', TextFlag), (''v'', SwitchFlag)]"

definition serve_settings :: "'sch host \<Rightarrow> string list \<Rightarrow> settings result" where
  "serve_settings h args =
     bind_r (env_duration h ''ZORK_TURN_TIMEOUT'' default_turn_timeout) (\<lambda>timeout.
     bind_r (env_uint h ''ZORK_INSTRUCTION_LIMIT'' (unat default_instruction_limit)) (\<lambda>limit.
     bind_r (parse_flags (ho_unicode h) serve_flags args []) (\<lambda>(vals, left).
       if left \<noteq> [] then Inl (Opaque (''unexpected argument '' @ quote (ho_unicode h) (hd left)))
       else Inr \<lparr>cf_addr = flag_text vals ''addr'' (env_or h ''ZORK_ADDR'' ''localhost:8080''),
         cf_database = flag_text vals ''database'' (env_or h ''ZORK_DATABASE'' ''zorkd.db''),
         cf_timeout = flag_duration vals ''turn-timeout'' timeout,
         cf_limit = flag_uint vals ''instruction-limit'' limit,
         cf_insecure = flag_switch vals ''insecure-cookies'',
         cf_proxies = flag_text vals ''trusted-proxies'' (env_or h ''ZORK_TRUSTED_PROXIES'' []),
         cf_verbose = flag_switch vals ''v''\<rparr>)))"

text \<open>\<open>net.ParseIP\<close> takes no zone.\<close>

definition is_loopback_addr :: "string \<Rightarrow> bool" where
  "is_loopback_addr addr = (case split_host addr of
     None \<Rightarrow> False
   | Some host \<Rightarrow>
       host = ''localhost''
       \<or> (case parse_addr host of
            Some (V6 gs zone) \<Rightarrow> zone = [] \<and> is_loopback (V6 gs zone)
          | Some a \<Rightarrow> is_loopback a
          | None \<Rightarrow> False))"

definition check_cookie_policy :: "unicode \<Rightarrow> bool \<Rightarrow> string \<Rightarrow> unit result" where
  "check_cookie_policy u insecure addr =
     (if \<not> insecure \<or> is_loopback_addr addr then Inr ()
      else Inl (Opaque (''-insecure-cookies with -addr '' @ quote u addr
        @ '': the Secure attribute is dropped, so session cookies would travel in the clear to anyone who can reach this listener. Use it only with a loopback address, and never in a deployment'')))"

text \<open>What \<open>serve\<close> settles before it opens anything: the settings and the trusted proxies.\<close>

definition serve_checked :: "'sch host \<Rightarrow> string list \<Rightarrow> (settings \<times> addr list) result" where
  "serve_checked h args =
     bind_r (serve_settings h args) (\<lambda>cf.
     bind_r (check_cookie_policy (ho_unicode h) (cf_insecure cf) (cf_addr cf)) (\<lambda>_.
     bind_r (parse_trusted_proxies (ho_unicode h) (cf_proxies cf)) (\<lambda>trusted. Inr (cf, trusted))))"

section \<open>zorkd init\<close>

definition missing_database :: "string \<Rightarrow> goerr" where
  "missing_database path = Opaque (path @ '': no database here. Run \"zorkd init -database '' @ path @ ''\" to make one.'')"

definition full_database_path :: "'sch host \<Rightarrow> string \<Rightarrow> string result" where
  "full_database_path h path = wrap_r (''database '' @ path) (abs_path (ho_cwd h) path)"

text \<open>
  \<open>runInit\<close>: the path it prints, or its error, and the file afterwards. The database is opened
  in \<open>e\<close> and closed in \<open>e'\<close>.
\<close>

definition run_init ::
  "'sch host \<Rightarrow> env \<Rightarrow> env \<Rightarrow> string list \<Rightarrow> 'sch db_file option \<Rightarrow> string result \<times> 'sch db_file option" where
  "run_init h e e' args st =
     (case bind_r (parse_flags (ho_unicode h) [(''database'', TextFlag)] args []) (\<lambda>(vals, left).
             if left \<noteq> [] then Inl (Opaque (''init: unexpected argument '' @ quote (ho_unicode h) (hd left)))
             else full_database_path h (flag_text vals ''database'' (env_or h ''ZORK_DATABASE'' ''zorkd.db''))) of
        Inl err \<Rightarrow> (Inl err, st)
      | Inr full \<Rightarrow>
          (case open_database h e full True st of
             (Inl err, st1) \<Rightarrow> (Inl err, st1)
           | (Inr _, st1) \<Rightarrow> (bind_r (fst (db_close e' False)) (\<lambda>_. Inr full), st1)))"

text \<open>Opening for use: an absent file is told as \<open>missingDatabaseError\<close> tells it.\<close>

definition open_existing :: "'sch host \<Rightarrow> env \<Rightarrow> string \<Rightarrow> 'sch db_file option \<Rightarrow> unit result \<times> 'sch db_file option" where
  "open_existing h e full st =
     (case open_database h e full False st of
        (Inl err, st1) \<Rightarrow> (Inl (if errors_is err FsErrNotExist then missing_database full else err), st1)
      | (Inr _, st1) \<Rightarrow> (Inr (), st1))"

section \<open>zorkd invite\<close>

text \<open>
  net/url is a record: reading a URL, its host, and writing it again with another path and query.
  The token's bytes are letters, digits, \<open>-\<close> and \<open>_\<close>, so \<open>Encode\<close> leaves them as they are.
\<close>

record 'url url_lib =
  ul_parse :: "string \<Rightarrow> 'url option"
  ul_host :: "'url \<Rightarrow> string"
  ul_string :: "'url \<Rightarrow> string \<Rightarrow> string \<Rightarrow> string"

definition invite_flags :: "(string \<times> flag_kind) list" where
  "invite_flags = [(''database'', TextFlag), (''base-url'', TextFlag)]"

text \<open>The base URL, the address and the path of the database, from the arguments.\<close>

definition invite_settings :: "'sch host \<Rightarrow> 'url url_lib \<Rightarrow> mail_env \<Rightarrow> string list \<Rightarrow> ('url \<times> string \<times> string) result" where
  "invite_settings h ul me args =
     bind_r (parse_flags (ho_unicode h) invite_flags args []) (\<lambda>(vals, left).
       if length left \<noteq> 1 then Inl (Opaque ''invite: one email address is required'')
       else
         let base_url = flag_text vals ''base-url'' (env_or h ''ZORK_BASE_URL'' ''http://localhost:8080'');
             bad = Inl (Opaque (''invite: -base-url '' @ quote (ho_unicode h) base_url @ '': not a URL with a host'')) in
         case ul_parse ul base_url of
           None \<Rightarrow> bad
         | Some base \<Rightarrow>
             if ul_host ul base = [] then bad
             else bind_r (wrap_r ''invite'' (normalize_email me (hd left))) (\<lambda>address.
               bind_r (full_database_path h (flag_text vals ''database'' (env_or h ''ZORK_DATABASE'' ''zorkd.db'')))
                 (\<lambda>full. Inr (base, address, full))))"

text \<open>\<open>runInvite\<close>, over a file whose content is the database: the link it prints.\<close>

definition run_invite ::
  "db host \<Rightarrow> 'url url_lib \<Rightarrow> mail_env \<Rightarrow> crypto \<Rightarrow> env \<Rightarrow> env \<Rightarrow> string list \<Rightarrow> db db_file option
     \<Rightarrow> string result \<times> db db_file option" where
  "run_invite h ul me cr e e' args st =
     (case invite_settings h ul me args of
        Inl err \<Rightarrow> (Inl err, st)
      | Inr (base, address, full) \<Rightarrow>
         (case open_existing h e full st of
            (Inl err, st1) \<Rightarrow> (Inl err, st1)
          | (Inr _, None) \<Rightarrow> (Inl (Opaque ''database: closed''), None)
          | (Inr _, Some f) \<Rightarrow>
              (case invite_new_service me cr (Some invite_db_ops) [] of
                 Inl err \<Rightarrow> (Inl err, Some f)
               | Inr invitations \<Rightarrow>
                   (case invite_create invitations e' address (df_schema f) of
                      (Inl err, d) \<Rightarrow> (Inl err, Some (f\<lparr>df_schema := d\<rparr>))
                    | (Inr token, d) \<Rightarrow>
                        (Inr (ul_string ul base ''/register'' (''invite='' @ token)), Some (f\<lparr>df_schema := d\<rparr>))))))"

section \<open>Dispatch\<close>

datatype subcommand = Serve "string list" | Invite "string list" | Init "string list"

definition dispatch :: "unicode \<Rightarrow> string list \<Rightarrow> subcommand result" where
  "dispatch u args = (case args of
     [] \<Rightarrow> Inr (Serve args)
   | a # rest \<Rightarrow>
       if take 1 a = ''-'' then Inr (Serve args)
       else if a = ''invite'' then Inr (Invite rest)
       else if a = ''init'' then Inr (Init rest)
       else Inl (Opaque (''unknown subcommand '' @ quote u a)))"

text \<open>The exit code \<open>main\<close> gives.\<close>

definition exit_code :: "unit result \<Rightarrow> nat" where
  "exit_code r = (case r of Inr _ \<Rightarrow> 0 | Inl err \<Rightarrow> if errors_is err FlagErrHelp then 2 else 1)"

end
