(* ===== verification/Zorkd_Serve.thy ===== *)
theory Zorkd_Serve
  imports Zorkd_Command Web_Laws
begin

text \<open>
  Serving (cmd/zorkd: \<open>serve\<close> of main.go from the checked settings on, reaper.go and notify.go):
  the server put together over the database, the sweeps of expired rows, the notifications, and
  the life of the process as the events it goes through.
\<close>

section \<open>Sweeps\<close>

record 'st sweep =
  sw_name :: string
  sw_remove :: "env \<Rightarrow> 'st \<Rightarrow> nat result \<times> 'st"

datatype sweep_line = SweepFailed string goerr | Swept string nat

text \<open>\<open>runSweeps\<close>, with what it logs; the k-th sweep runs in \<open>stage k e\<close>.\<close>

fun run_sweeps :: "env \<Rightarrow> nat \<Rightarrow> 'st sweep list \<Rightarrow> 'st \<Rightarrow> sweep_line list \<times> 'st" where
  "run_sweeps e k [] st = ([], st)"
| "run_sweeps e k (s # ss) st =
     (case sw_remove s (stage k e) st of
        (Inl err, st1) \<Rightarrow>
          if errors_is err CtxCanceled then ([], st1)
          else map_prod ((#) (SweepFailed (sw_name s) err)) id (run_sweeps e (Suc k) ss st1)
      | (Inr n, st1) \<Rightarrow>
          map_prod (\<lambda>ls. if 0 < n then Swept (sw_name s) n # ls else ls) id (run_sweeps e (Suc k) ss st1))"

definition reap_interval :: duration where "reap_interval = 6 * hour"

text \<open>\<open>reap\<close>, to the end of its context: the sweeps at each tick that is taken before it.\<close>

fun reap :: "env list \<Rightarrow> 'st sweep list \<Rightarrow> 'st \<Rightarrow> sweep_line list \<times> 'st" where
  "reap [] ss st = ([], st)"
| "reap (e # ticks) ss st =
     (case run_sweeps e 0 ss st of (ls, st1) \<Rightarrow> map_prod ((@) ls) id (reap ticks ss st1))"

definition zorkd_sweeps :: "'st manager \<Rightarrow> 'st invite_service \<Rightarrow> 'st sweep list" where
  "zorkd_sweeps sessions invitations =
     [\<lparr>sw_name = ''sessions'', sw_remove = manager_sweep sessions\<rparr>,
      \<lparr>sw_name = ''invitations'', sw_remove = invite_sweep invitations\<rparr>]"

section \<open>The service manager\<close>

definition notify_ready :: string where "notify_ready = ''READY=1''"
definition notify_stopping :: string where "notify_stopping = ''STOPPING=1''"

text \<open>
  \<open>notify\<close>: the datagram sent (the socket's name and the state), and the error. \<open>dial\<close> and
  \<open>write\<close> say how connecting to that socket and writing to it end.
\<close>

definition notify ::
  "'sch host \<Rightarrow> (string \<Rightarrow> goerr option) \<Rightarrow> (string \<Rightarrow> goerr option) \<Rightarrow> string \<Rightarrow> (string \<times> string) option \<times> unit result" where
  "notify h dial write state =
     (let socket = env_or h ''NOTIFY_SOCKET'' []; u = ho_unicode h;
          what = ''notify '' @ quote u state @ '' on '' @ socket in
      if socket = [] then (None, Inr ())
      else case dial socket of
        Some err \<Rightarrow> (None, Inl (Wrap what err))
      | None \<Rightarrow>
          (case write socket of
             Some err \<Rightarrow> (None, Inl (Wrap what err))
           | None \<Rightarrow> (Some (socket, state), Inr ())))"

section \<open>The server\<close>

text \<open>
  What the process reads besides its settings: the engine with the three embedded stories, the
  libraries it uses, and the order a map is visited in.
\<close>

record ('story, 'm) binary =
  bi_engine :: "('story, 'm) engine"
  bi_stories :: "bytes \<times> bytes \<times> bytes"
  bi_sha :: "bytes \<Rightarrow> story_key"
  bi_crypto :: crypto
  bi_mail :: mail_env
  bi_visit :: visit

definition library_of :: "('story, 'm) binary \<Rightarrow> 'story library result" where
  "library_of b = (case bi_stories b of (z1, z2, z3) \<Rightarrow> embedded_library (bi_sha b) (bi_engine b) z1 z2 z3)"

definition runner_of :: "settings \<Rightarrow> runner" where
  "runner_of cf = new_runner [with_turn_timeout (cf_timeout cf), with_instruction_limit (of_nat (cf_limit cf))]"

definition session_options :: "settings \<Rightarrow> ('st manager \<Rightarrow> 'st manager) list" where
  "session_options cf = (if cf_insecure cf then [with_insecure_cookies] else [])"

text \<open>The services over the database, and then the server with the state it begins in.\<close>

definition build_services ::
  "unicode \<Rightarrow> ('story, 'm) binary \<Rightarrow> settings \<Rightarrow> 'story library
     \<Rightarrow> (('story, 'm, db) service \<times> db auth_service \<times> db invite_service \<times> db manager) result" where
  "build_services u b cf library =
     bind_r (new_service (bi_engine b) u (Some library) (Some (runner_of cf)) (Some (games_ops u))) (\<lambda>games.
     bind_r (auth_new_service (bi_mail b) (bi_crypto b) (Some (user_ops u))) (\<lambda>accounts.
     bind_r (invite_new_service (bi_mail b) (bi_crypto b) (Some invite_db_ops) []) (\<lambda>invitations.
     bind_r (new_manager (bi_crypto b) (Some (login_ops u)) (session_options cf)) (\<lambda>sessions.
       Inr (games, accounts, invitations, sessions)))))"

definition build_server ::
  "('story, 'm) binary \<Rightarrow> addr list \<Rightarrow> 'story library
     \<Rightarrow> ('story, 'm, db) service \<times> db auth_service \<times> db invite_service \<times> db manager \<Rightarrow> db
     \<Rightarrow> (('story, 'm, db) server \<times> db web) result" where
  "build_server b trusted library svs d = (case svs of (games, accounts, invitations, sessions) \<Rightarrow>
     server_new (Some games) (Some accounts) (Some sessions) (Some invitations) (Some library) (Some new_probe)
       (bi_visit b) [with_trusted_proxies trusted] d)"

section \<open>The life of the process\<close>

datatype life_event =
    OpenedDatabase string | FirstSweep "sweep_line list" | ReaperStarted | ProbeStarted
  | Listening string | Announced string | ShuttingDown | ProbeStopped | ClosedDatabase

text \<open>
  What the network and the operating system decide: the error of \<open>net.Listen\<close>, how serving ends
  (the listener fails, it is closed, or a signal ends the context), and the error of \<open>Shutdown\<close>.
\<close>

datatype serving_end = ServeFailed goerr | ServeClosed | Signalled

record fate =
  ft_listen :: "goerr option"
  ft_end :: serving_end
  ft_shutdown :: "goerr option"

text \<open>From the listener on: the events, and what \<open>serve\<close> returns.\<close>

definition serve_listening :: "settings \<Rightarrow> fate \<Rightarrow> life_event list \<times> unit result" where
  "serve_listening cf ft = (case ft_listen ft of
     Some err \<Rightarrow> ([], Inl (Wrap (''listen on '' @ cf_addr cf) err))
   | None \<Rightarrow>
       (case ft_end ft of
          ServeFailed err \<Rightarrow> ([Listening (cf_addr cf), Announced notify_ready], Inl (Wrap (''serve on '' @ cf_addr cf) err))
        | ServeClosed \<Rightarrow> ([Listening (cf_addr cf), Announced notify_ready], Inr ())
        | Signalled \<Rightarrow>
            ([Listening (cf_addr cf), Announced notify_ready, Announced notify_stopping, ShuttingDown],
             (case ft_shutdown ft of Some err \<Rightarrow> Inl (Wrap ''shutdown'' err) | None \<Rightarrow> Inr ()))))"

text \<open>
  \<open>serve\<close> to the point where the server is made: the events so far and those the deferred calls
  will add, the settings with the server and its first state, or the error, and the database
  file. The database is opened in \<open>e\<close>, the first sweep runs in \<open>e'\<close>.
\<close>

definition serve_start ::
  "db host \<Rightarrow> ('story, 'm) binary \<Rightarrow> env \<Rightarrow> env \<Rightarrow> string list \<Rightarrow> db db_file option
     \<Rightarrow> life_event list \<times> life_event list \<times> (settings \<times> ('story, 'm, db) server \<times> db web) result \<times> db db_file option" where
  "serve_start h b e e' args st =
     (case bind_r (serve_checked h args) (\<lambda>(cf, trusted). bind_r (library_of b) (\<lambda>library.
             bind_r (full_database_path h (cf_database cf)) (\<lambda>full. Inr (cf, trusted, library, full)))) of
        Inl err \<Rightarrow> ([], [], Inl err, st)
      | Inr (cf, trusted, library, full) \<Rightarrow>
         (case open_existing h e full st of
            (Inl err, st1) \<Rightarrow> ([], [], Inl err, st1)
          | (Inr _, None) \<Rightarrow> ([], [], Inl (Opaque ''database: closed''), None)
          | (Inr _, Some f) \<Rightarrow>
             (case build_services (ho_unicode h) b cf library of
                Inl err \<Rightarrow> ([OpenedDatabase full], [ClosedDatabase], Inl err, Some f)
              | Inr (games, accounts, invitations, sessions) \<Rightarrow>
                  let (ls, d) = run_sweeps e' 0 (zorkd_sweeps sessions invitations) (df_schema f) in
                  ([OpenedDatabase full, FirstSweep ls, ReaperStarted, ProbeStarted], [ProbeStopped, ClosedDatabase],
                   bind_r (build_server b trusted library (games, accounts, invitations, sessions) d)
                     (\<lambda>(s, w). Inr (cf, s, w)),
                   Some (f\<lparr>df_schema := d\<rparr>)))))"

text \<open>\<open>serve\<close>: its events in order and what it returns.\<close>

definition serve_run ::
  "db host \<Rightarrow> ('story, 'm) binary \<Rightarrow> env \<Rightarrow> env \<Rightarrow> fate \<Rightarrow> string list \<Rightarrow> db db_file option
     \<Rightarrow> life_event list \<times> unit result" where
  "serve_run h b e e' ft args st =
     (case serve_start h b e e' args st of
        (up, down, Inl err, _) \<Rightarrow> (up @ down, Inl err)
      | (up, down, Inr (cf, _, _), _) \<Rightarrow>
          (case serve_listening cf ft of (events, r) \<Rightarrow> (up @ events @ down, r)))"

section \<open>What sweeping keeps\<close>

lemma run_sweeps_keeps:
  assumes "\<forall>s \<in> set ss. \<forall>e st. P st \<longrightarrow> P (snd (sw_remove s e st))" "P st"
  shows "P (snd (run_sweeps e k ss st))"
  using assms
proof (induction ss arbitrary: k st)
  case (Cons s ss)
  obtain r st1 where r: "sw_remove s (stage k e) st = (r, st1)" by force
  then have "P st1" using Cons.prems by (metis list.set_intros(1) snd_conv)
  then have "P (snd (run_sweeps e (Suc k) ss st1))" using Cons.IH Cons.prems(1) by simp
  with r \<open>P st1\<close> show ?case by (cases r) auto
qed simp

lemma reap_keeps:
  assumes "\<forall>s \<in> set ss. \<forall>e st. P st \<longrightarrow> P (snd (sw_remove s e st))" "P st"
  shows "P (snd (reap es ss st))"
  using assms(2)
proof (induction es arbitrary: st)
  case (Cons e es)
  then show ?case using run_sweeps_keeps [OF assms(1), of st e 0] by (cases "run_sweeps e 0 ss st") simp
qed simp

lemma zorkd_sweeps_write:
  assumes "mg_store m = login_ops u" "is_store s = invite_db_ops" "w \<in> set (zorkd_sweeps m s)"
  shows "\<exists>e' c. call_ok (Inr c) \<and> snd (sw_remove w e d) = account_write u e' c d"
proof -
  have m: "snd (manager_sweep m e d) = account_write u (nth_use 1 e) (DeleteExpiredLogins (now e)) d"
    using assms(1) by (simp add: manager_sweep_def split: prod.split)
  have i: "snd (invite_sweep s e d) = account_write u (nth_use 1 e) (DeleteSpentInvites (now e) (now e - is_ttl s)) d"
    using assms(2) by (simp add: invite_sweep_def split: prod.split)
  have "sw_remove w = manager_sweep m \<or> sw_remove w = invite_sweep s" using assms(3) by (auto simp: zorkd_sweeps_def)
  then show ?thesis
  proof
    assume w: "sw_remove w = manager_sweep m"
    show ?thesis unfolding w m by (intro exI [of _ "nth_use 1 e"] exI [of _ "DeleteExpiredLogins (now e)"]) simp
  next
    assume w: "sw_remove w = invite_sweep s"
    show ?thesis unfolding w i
      by (intro exI [of _ "nth_use 1 e"] exI [of _ "DeleteSpentInvites (now e) (now e - is_ttl s)"]) simp
  qed
qed

text \<open>The sweeps keep the constraints of the database, and neither a game nor a save changes.\<close>

lemma zorkd_sweeps_keep:
  assumes "mg_store m = login_ops u" "is_store s = invite_db_ops"
  shows "\<forall>w \<in> set (zorkd_sweeps m s). \<forall>e d'. whole_inv d' \<and> sees_games d d' \<longrightarrow>
    whole_inv (snd (sw_remove w e d')) \<and> sees_games d (snd (sw_remove w e d'))"
proof (intro ballI allI impI)
  fix w e d' assume w: "w \<in> set (zorkd_sweeps m s)" and d: "whole_inv d' \<and> sees_games d d'"
  obtain e' c where c: "call_ok (Inr c)" "snd (sw_remove w e d') = account_write u e' c d'"
    using zorkd_sweeps_write [OF assms w] by blast
  then show "whole_inv (snd (sw_remove w e d')) \<and> sees_games d (snd (sw_remove w e d'))"
    using db_write_inv [of d' "Inr c" u e'] account_write_sees [of d d' u e' c] d by (simp add: db_write_def)
qed

lemma swept:
  assumes "mg_store m = login_ops u" "is_store s = invite_db_ops" "whole_inv d"
  shows "whole_inv (snd (run_sweeps e k (zorkd_sweeps m s) d)) \<and> sees_games d (snd (run_sweeps e k (zorkd_sweeps m s) d))"
    and "whole_inv (snd (reap es (zorkd_sweeps m s) d)) \<and> sees_games d (snd (reap es (zorkd_sweeps m s) d))"
  using run_sweeps_keeps [OF zorkd_sweeps_keep [OF assms(1,2)], of d d e k]
    reap_keeps [OF zorkd_sweeps_keep [OF assms(1,2)], of d d es] assms(3)
  by (simp_all add: sees_games_def)

section \<open>What opening keeps\<close>

lemma apply_migrations_keep:
  assumes "\<forall>m \<in> set ms. \<forall>sch sch'. run (mi_sql m) sch = Inr sch' \<longrightarrow> P sch \<longrightarrow> P sch'" "P (df_schema f)"
    and "apply_migrations run e j current ms f = (r, f')"
  shows "P (df_schema f')"
  using assms
proof (induction ms arbitrary: j f)
  case (Cons m ms)
  show ?case
  proof (cases "mi_version m \<le> current")
    case True
    then show ?thesis using Cons by simp
  next
    case new: False
    show ?thesis
    proof (cases "bind_r (db_use e j) (\<lambda>_. run (mi_sql m) (df_schema f))")
      case (Inl err)
      then show ?thesis using Cons.prems new by simp
    next
      case (Inr sch)
      then have p: "P sch" using Cons.prems(1,2) by (auto simp: result_iff)
      show ?thesis
      proof (cases "db_use e (j + 1)")
        case (Inl err)
        then show ?thesis using Cons.prems(3) new Inr p by auto
      next
        case i: (Inr _)
        then show ?thesis
          using Cons.IH [of "f\<lparr>df_schema := sch, df_version := mi_version m\<rparr>" "j + 2"] Cons.prems(1,3) new Inr p by simp
      qed
    qed
  qed
qed simp

lemma db_open_existing_keep:
  assumes "\<forall>(name, sql) \<in> set files. \<forall>sch sch'. run sql sch = Inr sch' \<longrightarrow> P sch \<longrightarrow> P sch'" "P (df_schema f)"
    and "db_open cwd stat run files sch0 e path False (Some f) = (r, st')"
  shows "\<exists>f'. st' = Some f' \<and> P (df_schema f')"
proof -
  have scripts: "\<forall>m \<in> set ms. \<forall>sch sch'. run (mi_sql m) sch = Inr sch' \<longrightarrow> P sch \<longrightarrow> P sch'"
    if "all_migrations files = Inr ms" for ms
    using all_migrations_sql [OF that] assms(1) by fastforce
  have "P (df_schema (snd (migrate run files e 3 f)))"
  proof (cases "migrate run files e 3 f")
    case (Pair r f')
    then show ?thesis
      using apply_migrations_keep [OF scripts assms(2), of _ e 5] assms(2)
      by (auto simp: migrate_def result_iff split: sum.splits prod.splits)
  qed
  then show ?thesis using assms(2,3)
    by (cases "migrate run files e 3 f") (auto simp: db_open_def split: sum.splits)
qed

lemma open_existing_keep:
  assumes "\<forall>(name, sql) \<in> set (ho_files h). \<forall>sch sch'. ho_scripts h sql sch = Inr sch' \<longrightarrow> P sch \<longrightarrow> P sch'" "P (df_schema f)"
    and "open_existing h e full (Some f) = (r, st')"
  shows "\<exists>f'. st' = Some f' \<and> P (df_schema f')"
proof -
  obtain r0 st0 where o: "open_database h e full False (Some f) = (r0, st0)" by force
  from db_open_existing_keep [OF assms(1,2) o [unfolded open_database_def]]
  show ?thesis using o assms(3) by (auto simp: open_existing_def split: sum.splits)
qed

end
