(* ===== verification/Terminal.thy ===== *)
theory Terminal
  imports Web_Page
begin

text \<open>
  The plain-text presentation of a turn (internal/terminal/terminal.go): the status bar, and the
  story's text folded to the width of the terminal.
\<close>

section \<open>Turns\<close>

definition default_width :: int where "default_width = 80"

record screen_turn =
  tt_command :: string
  tt_output :: string
  tt_upper :: string
  tt_status :: z_status

definition new_turn :: "string \<Rightarrow> z_result \<Rightarrow> screen_turn" where
  "new_turn command res = \<lparr>tt_command = command, tt_output = z_output res, tt_upper = z_upper res, tt_status = z_line res\<rparr>"

section \<open>The status bar\<close>

text \<open>\<open>string(runes)\<close>: each rune written as UTF-8.\<close>

definition of_runes :: "nat list \<Rightarrow> string" where
  "of_runes rs = concat (map encode_rune rs)"

definition ellipsis :: string where "ellipsis = encode_rune 0x2026"

definition truncate_text :: "string \<Rightarrow> int \<Rightarrow> string" where
  "truncate_text s n =
     (if n \<le> 0 then []
      else if int (rune_count s) \<le> n then s
      else let rs = map fst (runes s) in
        if n = 1 then of_runes (take 1 rs) else of_runes (take (nat (n - 1)) rs) @ ellipsis)"

definition score_and_moves :: "z_status \<Rightarrow> string" where
  "score_and_moves s =
     (if z_time_game s then ''Time: '' @ clock_text (z_hours s) (z_minutes s)
      else ''Score: '' @ format_int (sint (z_score s)) @ ''   Moves: '' @ format_int (sint (z_turns s)))"

definition status_bar :: "z_status \<Rightarrow> int \<Rightarrow> string" where
  "status_bar s width =
     (if \<not> z_available s then []
      else
        let right = score_and_moves s; scored = int (rune_count right) in
        if width \<le> 0 then z_name s @ ''   '' @ right
        else
          let name = (if int (rune_count (z_name s)) + scored + 3 > width
                      then truncate_text (z_name s) (width - scored - 3) else z_name s);
              gap = max (width - int (rune_count name) - scored) 1 in
          name @ replicate (nat gap) (CHR '' '') @ right)"

section \<open>Folding\<close>

definition blank :: "char \<Rightarrow> bool" where
  "blank c \<longleftrightarrow> c = CHR '' '' \<or> c = CHR 0x09"

lemma word_shorter:
  "dropWhile blank r \<noteq> [] \<Longrightarrow> length (dropWhile (\<lambda>c. \<not> blank c) (dropWhile blank r)) < length r"
proof -
  assume "dropWhile blank r \<noteq> []"
  then obtain c cs where c: "dropWhile blank r = c # cs" by (cases "dropWhile blank r") auto
  then have "\<not> blank c" using hd_dropWhile [of blank r] by simp
  then have "length (dropWhile (\<lambda>c. \<not> blank c) (c # cs)) < length (c # cs)"
    using length_dropWhile_le [of "\<lambda>c. \<not> blank c" cs] by simp
  then show ?thesis using c length_dropWhile_le [of blank r] by simp
qed

text \<open>The loop of \<open>wrapLine\<close> from the line being built to the end.\<close>

function wrap_loop :: "int \<Rightarrow> string \<Rightarrow> string \<Rightarrow> string \<Rightarrow> int \<Rightarrow> string" where
  "wrap_loop width indent rest cur curn =
     (if rest = [] then cur
      else
        let gap = takeWhile blank rest; rest1 = dropWhile blank rest in
        if rest1 = [] then cur @ gap
        else
          let word = takeWhile (\<lambda>c. \<not> blank c) rest1; rest2 = dropWhile (\<lambda>c. \<not> blank c) rest1;
              n = int (rune_count gap) + int (rune_count word) in
          if curn = int (rune_count indent) \<and> cur = indent \<or> curn + n \<le> width
          then wrap_loop width indent rest2 (cur @ gap @ word) (curn + n)
          else cur @ CHR 0x0A # wrap_loop width indent rest2 (indent @ word) (int (rune_count indent) + int (rune_count word)))"
  by pat_completeness auto

termination
  by (relation "measure (\<lambda>(_, _, rest, _, _). length rest)") (auto simp: word_shorter)

definition wrap_line :: "string \<Rightarrow> int \<Rightarrow> string" where
  "wrap_line line width =
     (let indent = takeWhile blank line in
      if int (rune_count line) \<le> width \<or> width \<le> int (rune_count indent) then line
      else wrap_loop width indent (dropWhile blank line) indent (int (rune_count indent)))"

definition wrap_text :: "string \<Rightarrow> int \<Rightarrow> string" where
  "wrap_text t width =
     (if width \<le> 0 \<or> t = [] then t
      else join [CHR 0x0A] (map (\<lambda>l. wrap_line l width) (split_on (CHR 0x0A) t)))"

definition turn_text :: "screen_turn \<Rightarrow> int \<Rightarrow> string" where
  "turn_text t width =
     (let bar = status_bar (tt_status t) width; nl = [CHR 0x0A] in
      (if bar \<noteq> [] then nl @ bar @ nl else []) @ (if tt_upper t \<noteq> [] then tt_upper t @ nl else [])
        @ wrap_text (tt_output t) width)"

section \<open>Counting runes\<close>

text \<open>A rune cannot straddle an ASCII byte, so counts add up at one.\<close>

lemma decode_rune_ascii_end:
  assumes "byte c < 0x80" "a \<noteq> []"
  shows "decode_rune (a @ c # b) = decode_rune a"
proof -
  have n: "\<not> cont (byte c)" "\<And>x. \<not> second_ok x (byte c)" using assms(1) by (auto simp: cont_def second_ok_def)
  consider x where "a = [x]" | x y where "a = [x, y]" | x y z where "a = [x, y, z]" | x y z u v where "a = x # y # z # u # v"
    using assms(2) by (metis list.exhaust)
  then show ?thesis by cases (auto simp: n Let_def simp del: of_char_of split: list.splits)
qed

lemma runes_ascii_end:
  assumes "byte c < 0x80"
  shows "runes (a @ c # b) = runes a @ runes (c # b)"
proof (induction a rule: runes.induct)
  case (2 x xs)
  obtain r w where d: "decode_rune (x # xs) = (r, w)" by (cases "decode_rune (x # xs)")
  have w: "w \<le> length (x # xs)" "1 \<le> w" using decode_rune_width [of x xs] d by simp_all
  have d': "decode_rune (x # xs @ c # b) = (r, w)" using decode_rune_ascii_end [OF assms, of "x # xs" b] d by simp
  have ih: "runes (drop w (x # xs) @ c # b) = runes (drop w (x # xs)) @ runes (c # b)" using "2.IH" [OF d [symmetric] refl] .
  have "runes (x # xs @ c # b) = (r, take w (x # xs)) # runes (drop w (x # xs) @ c # b)"
    using d' w take_append [of w "x # xs" "c # b"] drop_append [of w "x # xs" "c # b"]
    by (simp del: decode_rune.simps)
  then show ?case using ih d by (simp del: decode_rune.simps)
qed simp

lemma count_ascii_end: "byte c < 0x80 \<Longrightarrow> rune_count (a @ c # b) = rune_count a + rune_count (c # b)"
  by (simp add: rune_count_def runes_ascii_end del: runes.simps)

lemma runes_ascii_front: "is_ascii a \<Longrightarrow> runes (a @ b) = runes a @ runes b"
proof (induction a)
  case (Cons c a)
  then have "byte c < 0x80" "is_ascii a" by (simp_all add: is_ascii_def)
  with Cons.IH show ?case using runes_append_good [OF good_chunk_ascii, of c "a @ b"] runes_append_good [OF good_chunk_ascii, of c a]
    by (simp del: runes.simps)
qed simp

lemma count_ascii_front: "is_ascii a \<Longrightarrow> rune_count (a @ b) = rune_count a + rune_count b"
  by (simp add: rune_count_def runes_ascii_front)

lemma blank_ascii: "blank c \<Longrightarrow> byte c < 0x80"
  by (auto simp: blank_def)

lemma blanks_ascii: "list_all blank s \<Longrightarrow> is_ascii s"
  by (auto simp: is_ascii_def list_all_iff blank_ascii)

text \<open>Counts add up at the start of a run of blanks, and after one.\<close>

lemma count_gap:
  assumes "list_all blank gap" "gap \<noteq> [] \<or> list_all blank a"
  shows "rune_count (a @ gap @ b) = rune_count a + rune_count gap + rune_count b"
proof (cases gap)
  case Nil
  then show ?thesis using assms count_ascii_front [OF blanks_ascii, of a b] by (simp add: rune_count_def)
next
  case (Cons c g)
  then have "byte c < 0x80" using assms(1) blank_ascii by simp
  from count_ascii_end [OF this, of a "g @ b"] show ?thesis
    using Cons count_ascii_front [OF blanks_ascii [OF assms(1)], of b] by simp
qed

section \<open>The lines of a folded line\<close>

function wrap_lines :: "int \<Rightarrow> string \<Rightarrow> string \<Rightarrow> string \<Rightarrow> int \<Rightarrow> string list" where
  "wrap_lines width indent rest cur curn =
     (if rest = [] then [cur]
      else
        let gap = takeWhile blank rest; rest1 = dropWhile blank rest in
        if rest1 = [] then [cur @ gap]
        else
          let word = takeWhile (\<lambda>c. \<not> blank c) rest1; rest2 = dropWhile (\<lambda>c. \<not> blank c) rest1;
              n = int (rune_count gap) + int (rune_count word) in
          if curn = int (rune_count indent) \<and> cur = indent \<or> curn + n \<le> width
          then wrap_lines width indent rest2 (cur @ gap @ word) (curn + n)
          else cur # wrap_lines width indent rest2 (indent @ word) (int (rune_count indent) + int (rune_count word)))"
  by pat_completeness auto
termination
  by (relation "measure (\<lambda>(_, _, rest, _, _). length rest)") (auto simp: word_shorter)

declare wrap_loop.simps [simp del] wrap_lines.simps [simp del]

lemma wrap_lines_nonempty [simp]: "wrap_lines width indent rest cur curn \<noteq> []"
  by (induction width indent rest cur curn rule: wrap_lines.induct) (subst wrap_lines.simps, auto simp: Let_def)

lemma join_Cons: "xs \<noteq> [] \<Longrightarrow> join sep (x # xs) = x @ sep @ join sep xs"
  by (cases xs) simp_all

lemma wrap_loop_lines: "wrap_loop width indent rest cur curn = join [CHR 0x0A] (wrap_lines width indent rest cur curn)"
proof (induction width indent rest cur curn rule: wrap_lines.induct)
  case (1 width indent rest cur curn)
  show ?case
    by (subst wrap_loop.simps, subst wrap_lines.simps) (use 1 in \<open>auto simp: Let_def join_Cons\<close>)
qed

text \<open>A line of the result fits but for trailing blanks, or is one word after the indent.\<close>

definition folded_ok :: "int \<Rightarrow> string \<Rightarrow> string \<Rightarrow> bool" where
  "folded_ok width indent l \<longleftrightarrow> (\<exists>body tail. l = body @ tail \<and> list_all blank tail
     \<and> (int (rune_count body) \<le> width \<or> (\<exists>word. body = indent @ word \<and> list_all (\<lambda>c. \<not> blank c) word)))"

lemma folded_okI:
  "int (rune_count l) \<le> width \<Longrightarrow> folded_ok width indent l"
  "list_all (\<lambda>c. \<not> blank c) word \<Longrightarrow> folded_ok width indent (indent @ word)"
proof -
  show "int (rune_count l) \<le> width \<Longrightarrow> folded_ok width indent l"
    unfolding folded_ok_def by (intro exI [of _ l] exI [of _ "[]"]) simp
  show "list_all (\<lambda>c. \<not> blank c) word \<Longrightarrow> folded_ok width indent (indent @ word)"
    unfolding folded_ok_def by (intro exI [of _ "indent @ word"] exI [of _ "[]"]) auto
qed

lemma folded_ok_tail: "folded_ok width indent l \<Longrightarrow> list_all blank gap \<Longrightarrow> folded_ok width indent (l @ gap)"
  unfolding folded_ok_def by (elim exE conjE) (metis append_assoc list_all_append)

lemma hd_rest_blank: "dropWhile (\<lambda>c. \<not> blank c) r = [] \<or> blank (hd (dropWhile (\<lambda>c. \<not> blank c) r))"
  using hd_dropWhile [of "\<lambda>c. \<not> blank c" r] by blast

lemma wrap_lines_ok:
  assumes "curn = int (rune_count cur)" "list_all blank indent" "folded_ok width indent cur"
    and "rest = [] \<or> blank (hd rest) \<or> cur = indent" "cur = indent \<longrightarrow> rest = [] \<or> \<not> blank (hd rest)"
    and "int (rune_count indent) < width"
  shows "\<forall>l \<in> set (wrap_lines width indent rest cur curn). folded_ok width indent l"
  using assms
proof (induction width indent rest cur curn rule: wrap_lines.induct)
  case (1 width indent rest cur curn)
  let ?gap = "takeWhile blank rest" and ?r1 = "dropWhile blank rest"
  let ?word = "takeWhile (\<lambda>c. \<not> blank c) ?r1" and ?r2 = "dropWhile (\<lambda>c. \<not> blank c) ?r1"
  let ?n = "int (rune_count ?gap) + int (rune_count ?word)"
  have g: "list_all blank ?gap" and wd: "list_all (\<lambda>c. \<not> blank c) ?word" by (auto simp: list_all_iff dest: set_takeWhileD)
  consider "rest = []" | "rest \<noteq> []" "?r1 = []"
    | "rest \<noteq> []" "?r1 \<noteq> []" "curn = int (rune_count indent) \<and> cur = indent \<or> curn + ?n \<le> width"
    | "rest \<noteq> []" "?r1 \<noteq> []" "\<not> (curn = int (rune_count indent) \<and> cur = indent \<or> curn + ?n \<le> width)" by blast
  then show ?case
  proof cases
    case 1
    then show ?thesis using "1.prems" by (subst wrap_lines.simps) simp
  next
    case 2
    then show ?thesis using folded_ok_tail [OF "1.prems"(3) g] by (subst wrap_lines.simps) (simp add: Let_def)
  next
    case 3
    have gap: "?gap \<noteq> [] \<or> list_all blank cur" using "1.prems"(2,4) 3(1) by (cases rest) auto
    have cnt: "curn + ?n = int (rune_count (cur @ ?gap @ ?word))" using count_gap [OF g gap] "1.prems"(1) by simp
    have w: "?word \<noteq> []" using 3(2) hd_dropWhile [of blank rest] by (cases ?r1) auto
    have ne: "cur @ ?gap @ ?word \<noteq> indent"
    proof
      assume "cur @ ?gap @ ?word = indent"
      then have "list_all blank ?word" using "1.prems"(2) by (metis list_all_append)
      then show False using w wd by (cases ?word) auto
    qed
    have ok: "folded_ok width indent (cur @ ?gap @ ?word)"
    proof (cases "curn + ?n \<le> width")
      case True
      then show ?thesis using folded_okI(1) cnt by simp
    next
      case False
      then have c: "cur = indent" using 3(3) by blast
      then have "?gap = []" using "1.prems"(5) 3(1) by (cases rest) auto
      then show ?thesis using c folded_okI(2) [OF wd] by simp
    qed
    have "\<forall>l \<in> set (wrap_lines width indent ?r2 (cur @ ?gap @ ?word) (curn + ?n)). folded_ok width indent l"
      using "1.IH"(1) [OF 3(1) refl refl 3(2) refl refl refl 3(3) cnt "1.prems"(2) ok _ _ "1.prems"(6)] ne hd_rest_blank by blast
    then show ?thesis using 3 by (subst wrap_lines.simps) (simp add: Let_def del: dropWhile_eq_Nil_conv)
  next
    case 4
    have cnt: "int (rune_count indent) + int (rune_count ?word) = int (rune_count (indent @ ?word))"
      using count_ascii_front [OF blanks_ascii [OF "1.prems"(2)], of ?word] by simp
    have w: "?word \<noteq> []" using 4(2) hd_dropWhile [of blank rest] by (cases ?r1) auto
    have "\<forall>l \<in> set (wrap_lines width indent ?r2 (indent @ ?word) (int (rune_count indent) + int (rune_count ?word))). folded_ok width indent l"
      using "1.IH"(2) [OF 4(1) refl refl 4(2) refl refl refl 4(3) cnt "1.prems"(2) folded_okI(2) [OF wd] _ _ "1.prems"(6)]
        w hd_rest_blank by blast
    then show ?thesis using 4 "1.prems"(3) by (subst wrap_lines.simps) (auto simp: Let_def simp del: dropWhile_eq_Nil_conv)
  qed
qed

text \<open>
  How a line comes out: as it is when it fits or its indent leaves no room, and otherwise as lines
  that are each in order.
\<close>

definition line_folded :: "int \<Rightarrow> string \<Rightarrow> string list \<Rightarrow> bool" where
  "line_folded width line ls \<longleftrightarrow> ls \<noteq> []
     \<and> (if int (rune_count line) \<le> width \<or> width \<le> int (rune_count (takeWhile blank line)) then ls = [line]
        else list_all (folded_ok width (takeWhile blank line)) ls)"

lemma wrap_line_ok: "\<exists>ls. wrap_line line width = join [CHR 0x0A] ls \<and> line_folded width line ls"
proof (cases "int (rune_count line) \<le> width \<or> width \<le> int (rune_count (takeWhile blank line))")
  case True
  then show ?thesis by (intro exI [of _ "[line]"]) (simp add: wrap_line_def line_folded_def)
next
  case False
  let ?indent = "takeWhile blank line"
  let ?ls = "wrap_lines width ?indent (dropWhile blank line) ?indent (int (rune_count ?indent))"
  have b: "list_all blank ?indent" by (auto simp: list_all_iff dest: set_takeWhileD)
  have "dropWhile blank line = [] \<or> \<not> blank (hd (dropWhile blank line))" using hd_dropWhile [of blank line] by blast
  then have "\<forall>l \<in> set ?ls. folded_ok width ?indent l"
    using False by (intro wrap_lines_ok b folded_okI(1)) auto
  then have "line_folded width line ?ls" using False by (simp add: line_folded_def list_all_iff)
  moreover have "wrap_line line width = join [CHR 0x0A] ?ls" using False by (simp add: wrap_line_def wrap_loop_lines Let_def)
  ultimately show ?thesis by blast
qed

lemma join_append: "xs \<noteq> [] \<Longrightarrow> ys \<noteq> [] \<Longrightarrow> join sep (xs @ ys) = join sep xs @ sep @ join sep ys"
proof (induction xs)
  case (Cons x xs)
  then show ?case by (cases "xs = []") (simp_all add: join_Cons)
qed simp

lemma join_concat: "list_all (\<lambda>ls. ls \<noteq> []) lss \<Longrightarrow> join sep (map (join sep) lss) = join sep (concat lss)"
proof (induction lss)
  case (Cons ls lss)
  show ?case
  proof (cases "lss = []")
    case False
    then have "concat lss \<noteq> []" using Cons.prems by (cases lss) auto
    then show ?thesis using Cons False join_append [of ls "concat lss" sep] by (simp add: join_Cons)
  qed simp
qed simp

text \<open>The whole text: each of its lines so, one after the other.\<close>

lemma wrap_text_folded:
  assumes "0 < width"
  shows "\<exists>lss. wrap_text t width = join [CHR 0x0A] (concat lss) \<and> list_all2 (line_folded width) (split_on (CHR 0x0A) t) lss"
proof -
  have "\<forall>line. \<exists>ls. wrap_line line width = join [CHR 0x0A] ls \<and> line_folded width line ls"
    using wrap_line_ok by blast
  from choice [OF this] obtain f where
    f: "\<And>line. wrap_line line width = join [CHR 0x0A] (f line)" "\<And>line. line_folded width line (f line)" by blast
  let ?lss = "map f (split_on (CHR 0x0A) t)"
  have "list_all2 (line_folded width) (split_on (CHR 0x0A) t) ?lss"
    unfolding list_all2_map2 using f(2) by (simp add: list_all2_same)
  moreover have "wrap_text t width = join [CHR 0x0A] (concat ?lss)"
  proof (cases "t = []")
    case True
    have "line_folded width [] (f [])" by (rule f(2))
    then have "f [] = [[]]" using assms by (simp add: line_folded_def rune_count_def)
    with True show ?thesis by (simp add: wrap_text_def)
  next
    case False
    have "list_all (\<lambda>ls. ls \<noteq> []) ?lss" using f(2) by (simp add: list_all_iff line_folded_def)
    then have "join [CHR 0x0A] (concat ?lss) = join [CHR 0x0A] (map (join [CHR 0x0A]) ?lss)" by (rule join_concat [symmetric])
    with False assms show ?thesis by (simp add: wrap_text_def f(1) comp_def)
  qed
  ultimately show ?thesis by blast
qed

section \<open>Folding keeps the words\<close>

text \<open>The words of a text, as they stand between blanks and ends of lines.\<close>

definition gap_char :: "char \<Rightarrow> bool" where
  "gap_char c \<longleftrightarrow> blank c \<or> c = CHR 0x0A"

fun words_from :: "string \<Rightarrow> string \<Rightarrow> string list" where
  "words_from cur [] = (if cur = [] then [] else [cur])"
| "words_from cur (c # cs) = (if gap_char c then (if cur = [] then [] else [cur]) @ words_from [] cs else words_from (cur @ [c]) cs)"

abbreviation text_words :: "string \<Rightarrow> string list" where "text_words \<equiv> words_from []"

lemma words_gap: "gap_char c \<Longrightarrow> words_from cur (a @ c # b) = words_from cur a @ text_words b"
  by (induction a arbitrary: cur) simp_all

lemma words_front: "list_all gap_char a \<Longrightarrow> text_words (a @ b) = text_words b"
  by (induction a) simp_all

lemma words_back: "list_all gap_char b \<Longrightarrow> words_from cur (a @ b) = words_from cur a"
proof (cases b)
  case (Cons c t)
  assume "list_all gap_char b"
  then show ?thesis using Cons words_gap [of c cur a t] words_front [of t "[]"] by simp
qed simp

text \<open>A text cut where a gap ends or begins falls into its words.\<close>

lemma words_cut:
  assumes "list_all gap_char g" "g \<noteq> [] \<or> list_all gap_char a"
  shows "text_words (a @ g @ b) = text_words a @ text_words b"
proof (cases g)
  case Nil
  then show ?thesis using assms words_front [of a b] words_front [of a "[]"] by simp
next
  case (Cons c t)
  then show ?thesis using assms(1) words_gap [of c "[]" a "t @ b"] words_front [of t b] by simp
qed

lemma words_join: "text_words (join [CHR 0x0A] ls) = concat (map text_words ls)"
  by (induction "[CHR 0x0A]" ls rule: join.induct) (simp_all add: words_gap gap_char_def)

lemma wrap_lines_words:
  assumes "list_all blank indent" "rest = [] \<or> blank (hd rest) \<or> list_all blank cur"
  shows "concat (map text_words (wrap_lines width indent rest cur curn)) = text_words (cur @ rest)"
  using assms
proof (induction width indent rest cur curn rule: wrap_lines.induct)
  case (1 width indent rest cur curn)
  let ?gap = "takeWhile blank rest" and ?r1 = "dropWhile blank rest"
  let ?word = "takeWhile (\<lambda>c. \<not> blank c) ?r1" and ?r2 = "dropWhile (\<lambda>c. \<not> blank c) ?r1"
  let ?n = "int (rune_count ?gap) + int (rune_count ?word)"
  have g: "list_all gap_char ?gap" by (auto simp: list_all_iff gap_char_def dest: set_takeWhileD)
  have split: "rest = ?gap @ ?word @ ?r2" by simp
  consider "rest = []" | "rest \<noteq> []" "?r1 = []"
    | "rest \<noteq> []" "?r1 \<noteq> []" "curn = int (rune_count indent) \<and> cur = indent \<or> curn + ?n \<le> width"
    | "rest \<noteq> []" "?r1 \<noteq> []" "\<not> (curn = int (rune_count indent) \<and> cur = indent \<or> curn + ?n \<le> width)" by blast
  then show ?case
  proof cases
    case 1
    then show ?thesis by (subst wrap_lines.simps) simp
  next
    case 2
    then have "rest = ?gap" by (metis append_Nil2 takeWhile_dropWhile_id)
    then show ?thesis using 2 by (subst wrap_lines.simps) (simp add: Let_def)
  next
    case 3
    have "concat (map text_words (wrap_lines width indent ?r2 (cur @ ?gap @ ?word) (curn + ?n))) = text_words ((cur @ ?gap @ ?word) @ ?r2)"
      using "1.IH"(1) [OF 3(1) refl refl 3(2) refl refl refl 3(3) "1.prems"(1)] hd_rest_blank by blast
    then show ?thesis using 3 by (subst wrap_lines.simps) (simp add: Let_def del: dropWhile_eq_Nil_conv)
  next
    case 4
    have i: "list_all gap_char indent" using "1.prems"(1) by (simp add: list_all_iff gap_char_def)
    have "concat (map text_words (wrap_lines width indent ?r2 (indent @ ?word) (int (rune_count indent) + int (rune_count ?word))))
        = text_words ((indent @ ?word) @ ?r2)"
      using "1.IH"(2) [OF 4(1) refl refl 4(2) refl refl refl 4(3) "1.prems"(1)] hd_rest_blank by blast
    also have "\<dots> = text_words (?word @ ?r2)" using words_front [OF i, of "?word @ ?r2"] by simp
    finally have tail: "concat (map text_words (wrap_lines width indent ?r2 (indent @ ?word) (int (rune_count indent) + int (rune_count ?word))))
        = text_words (?word @ ?r2)" .
    have "?gap \<noteq> [] \<or> list_all gap_char cur"
      using "1.prems"(2) 4(1) by (cases rest) (auto simp: gap_char_def list_all_iff)
    from words_cut [OF g this, of "?word @ ?r2"] split have "text_words (cur @ rest) = text_words cur @ text_words (?word @ ?r2)" by simp
    then show ?thesis using 4 tail by (subst wrap_lines.simps) (auto simp: Let_def simp del: dropWhile_eq_Nil_conv)
  qed
qed

lemma wrap_line_words: "text_words (wrap_line line width) = text_words line"
proof -
  have b: "list_all blank (takeWhile blank line)" by (auto simp: list_all_iff dest: set_takeWhileD)
  show ?thesis using wrap_lines_words [OF b, of "dropWhile blank line" "takeWhile blank line" width]
    by (simp add: wrap_line_def wrap_loop_lines words_join b Let_def)
qed

lemma wrap_text_words: "text_words (wrap_text t width) = text_words t"
proof -
  have "text_words (join [CHR 0x0A] (map (\<lambda>l. wrap_line l width) (split_on (CHR 0x0A) t)))
      = text_words (join [CHR 0x0A] (split_on (CHR 0x0A) t))"
    unfolding words_join by (simp add: wrap_line_words comp_def)
  then show ?thesis by (simp add: wrap_text_def join_split_on)
qed

end
