(* ===== verification/Zorkplay.thy ===== *)
theory Zorkplay
  imports Terminal Go_Flags
begin

text \<open>
  The command zorkplay (cmd/zorkplay/main.go): its settings, the list of games, and the loop that
  plays a story from lines of input, rebuilding the machine from the state of the last turn that
  worked.
\<close>

section \<open>Input\<close>

definition newline :: string where "newline = [CHR 0x0A]"

definition drop_cr :: "string \<Rightarrow> string" where
  "drop_cr s = (if s \<noteq> [] \<and> last s = CHR 0x0D then butlast s else s)"

definition max_scan_bytes :: nat where "max_scan_bytes = 64 * 1024"

text \<open>
  \<open>bufio.Scanner\<close> by lines, over the whole input and the error reading ended with (\<open>None\<close>: end of
  file): the lines it yields, and what \<open>Err\<close> says after them. A line that fills the buffer ends
  the scan.
\<close>

definition scan_lines :: "goerr option \<Rightarrow> string \<Rightarrow> string list \<times> goerr option" where
  "scan_lines ended input =
     (let all = split_on (CHR 0x0A) input; raw = (if last all = [] then butlast all else all);
          short = takeWhile (\<lambda>l. length l < max_scan_bytes) raw in
      (map drop_cr short,
       if length short < length raw then Some (Opaque ''bufio.Scanner: token too long'') else ended))"

section \<open>The loop\<close>

text \<open>What is written: to the standard output, or (complaints) to the standard error.\<close>

datatype shown = Screen string | Reprompt | LineEnd | Complaint string

definition reprompt_text :: string where "reprompt_text = newline @ ''>''"

definition stdout_text :: "shown list \<Rightarrow> string" where
  "stdout_text out = concat (map (\<lambda>x. case x of
     Screen s \<Rightarrow> s | Reprompt \<Rightarrow> reprompt_text | LineEnd \<Rightarrow> newline | Complaint _ \<Rightarrow> []) out)"

text \<open>
  The table: the engine, the runner, the story, the width, the environment of the k-th line's
  turn, the text of an error, and whether the engine's zero status is the halted one (the result
  of a turn that failed is the zero one).
\<close>

record ('story, 'm) table =
  tb_engine :: "('story, 'm) engine"
  tb_runner :: runner
  tb_entry :: "'story entry"
  tb_width :: int
  tb_env :: "nat \<Rightarrow> env"
  tb_text :: "goerr \<Rightarrow> string"
  tb_zero_halted :: bool

definition too_long :: "string \<Rightarrow> shown list" where
  "too_long command =
     [Complaint (newline @ ''zorkplay: command is '' @ nat_digits (length command) @ '' bytes, limit is ''
        @ nat_digits max_command_bytes @ newline), Reprompt]"

text \<open>The loop of \<open>play\<close>, before the k-th line: whether the last result is halted, and its state.\<close>

fun play_loop ::
  "('story, 'm) table \<Rightarrow> goerr option \<Rightarrow> nat \<Rightarrow> bool \<Rightarrow> bytes option \<Rightarrow> string list \<Rightarrow> shown list \<times> unit result" where
  "play_loop t ended k halted st [] =
     (if halted then ([], Inr ()) else ([LineEnd], case ended of None \<Rightarrow> Inr () | Some err \<Rightarrow> Inl err))"
| "play_loop t ended k halted st (command # rest) =
     (if halted then ([], Inr ())
      else if max_command_bytes < length command
      then map_prod ((@) (too_long command)) id (play_loop t ended (Suc k) halted st rest)
      else case runner_run (tb_engine t) (tb_runner t) (tb_env t k) (Some (tb_entry t)) st command of
        Inl err \<Rightarrow>
          let told = Complaint (newline @ ''zorkplay: '' @ tb_text t err @ newline); fault = classify (Some err) in
          if retryable fault
          then map_prod ((@) [told, Complaint (''the turn did not happen; try it again'' @ newline), Reprompt]) id
            (play_loop t ended (Suc k) (tb_zero_halted t) st rest)
          else ([told], Inl (Wrap (fault_string fault @ '' turn'') err))
      | Inr res \<Rightarrow>
          map_prod ((#) (Screen (turn_text (new_turn command res) (tb_width t)))) id
            (play_loop t ended (Suc k) (z_halted res) (z_state res) rest))"

definition play :: "('story, 'm) table \<Rightarrow> env \<Rightarrow> goerr option \<Rightarrow> string \<Rightarrow> shown list \<times> unit result" where
  "play t e ended input =
     (case runner_start (tb_engine t) (tb_runner t) e (Some (tb_entry t)) of
        Inl err \<Rightarrow> ([], Inl (Wrap (''start '' @ en_id (tb_entry t)) err))
      | Inr res \<Rightarrow>
          (case scan_lines ended input of (lines, err) \<Rightarrow>
             map_prod ((#) (Screen (turn_text (new_turn [] res) (tb_width t)))) id
               (play_loop t err 0 (z_halted res) (z_state res) lines)))"

section \<open>The command\<close>

definition default_game :: string where "default_game = ''zork1''"

text \<open>\<open>%-6s\<close>: filled with spaces to that many runes.\<close>

definition pad :: "nat \<Rightarrow> string \<Rightarrow> string" where
  "pad n s = s @ replicate (n - rune_count s) (CHR '' '')"

text \<open>The release and the serial number are the engine's reading of the story.\<close>

definition list_games :: "('story \<Rightarrow> nat) \<Rightarrow> ('story \<Rightarrow> string) \<Rightarrow> 'story library \<Rightarrow> string" where
  "list_games release serial library = concat (map (\<lambda>e.
     pad 6 (en_id e) @ '' '' @ pad 38 (en_title e) @ '' release '' @ nat_digits (release (en_story e))
       @ '' / serial '' @ serial (en_story e) @ newline) (lib_all library))"

definition play_flags :: "(string \<times> flag_kind) list" where
  "play_flags = [(''list'', SwitchFlag), (''seed'', UintFlag), (''timeout'', DurationFlag), (''limit'', UintFlag),
     (''width'', IntFlag), (''v'', SwitchFlag)]"

text \<open>The options of the runner: the seed only where it was given.\<close>

definition play_options :: "(string \<times> flag_value) list \<Rightarrow> runner_option list" where
  "play_options vals =
     [with_turn_timeout (flag_duration vals ''timeout'' default_turn_timeout),
      with_instruction_limit (of_nat (flag_uint vals ''limit'' (unat default_instruction_limit)))]
     @ (if map_of vals ''seed'' = None then [] else [with_random_seed (of_nat (flag_uint vals ''seed'' 0))])"

datatype 'a request_of = ListGames | PlayGame 'a

text \<open>\<open>run\<close> up to its two ends: the list of games, or a game to play with the runner and the width.\<close>

definition play_settings ::
  "unicode \<Rightarrow> 'story library result \<Rightarrow> string list \<Rightarrow> ('story library \<times> ('story entry \<times> runner \<times> int) request_of) result" where
  "play_settings u embedded args =
     bind_r (parse_flags u play_flags args []) (\<lambda>(vals, left).
       if 1 < length left then Inl (Opaque (''expected at most one game, got '' @ nat_digits (length left)))
       else bind_r (wrap_r ''load games'' embedded) (\<lambda>library.
         if flag_switch vals ''list'' then Inr (library, ListGames)
         else
           let i = (if left = [] then default_game else hd left) in
           case lib_by_id library i of
             None \<Rightarrow> Inl (Opaque (''unknown game '' @ quote u i @ ''; run with -list''))
           | Some entry \<Rightarrow>
               Inr (library, PlayGame (entry, new_runner (play_options vals), flag_int vals ''width'' default_width))))"

text \<open>What \<open>main\<close> adds to the standard error, and the exit code.\<close>

definition play_exit :: "(goerr \<Rightarrow> string) \<Rightarrow> unit result \<Rightarrow> string \<times> nat" where
  "play_exit txt r = (case r of
     Inr _ \<Rightarrow> ([], 0)
   | Inl err \<Rightarrow> (if errors_is err FlagErrHelp then [] else ''zorkplay: '' @ txt err @ newline, 1))"

section \<open>What the loop shows\<close>

text \<open>
  What becomes of a line the loop reads: it is too long and refused, its turn failed in a way
  that may be tried again, or it was played.
\<close>

datatype line_fate = LineRefused | LineFailed goerr | LinePlayed z_result

text \<open>Where the lines read so far leave the game: its state, and whether it is over.\<close>

definition left_step :: "line_fate \<Rightarrow> bytes option \<times> bool \<Rightarrow> bytes option \<times> bool" where
  "left_step f p = (case f of LinePlayed res \<Rightarrow> (z_state res, z_halted res) | _ \<Rightarrow> p)"

definition left_by :: "bytes option \<times> bool \<Rightarrow> line_fate list \<Rightarrow> bytes option \<times> bool" where
  "left_by p fs = fold left_step fs p"

lemma left_by_simps [simp]: "left_by p [] = p" "left_by p (f # fs) = left_by (left_step f p) fs"
  by (simp_all add: left_by_def)

lemma left_step_simps [simp]: "left_step LineRefused p = p" "left_step (LineFailed err) p = p"
  "left_step (LinePlayed res) p = (z_state res, z_halted res)"
  by (simp_all add: left_step_def)

text \<open>The k-th line, read in a state, and its fate.\<close>

definition line_went :: "('story, 'm) table \<Rightarrow> nat \<Rightarrow> bytes option \<Rightarrow> string \<Rightarrow> line_fate \<Rightarrow> bool" where
  "line_went t k st c f \<longleftrightarrow> (case f of
     LineRefused \<Rightarrow> max_command_bytes < length c
   | LineFailed err \<Rightarrow> length c \<le> max_command_bytes \<and> retryable (classify (Some err))
       \<and> runner_run (tb_engine t) (tb_runner t) (tb_env t k) (Some (tb_entry t)) st c = Inl err
   | LinePlayed res \<Rightarrow> length c \<le> max_command_bytes
       \<and> runner_run (tb_engine t) (tb_runner t) (tb_env t k) (Some (tb_entry t)) st c = Inr res)"

text \<open>The fates of the lines read: a line is read only while the game is not over.\<close>

definition lines_went ::
  "('story, 'm) table \<Rightarrow> nat \<Rightarrow> bytes option \<times> bool \<Rightarrow> string list \<Rightarrow> line_fate list \<Rightarrow> bool" where
  "lines_went t k p lines fs \<longleftrightarrow> length fs \<le> length lines \<and> (\<forall>n < length fs.
     \<not> snd (left_by p (take n fs)) \<and> line_went t (k + n) (fst (left_by p (take n fs))) (lines ! n) (fs ! n))"

lemma lines_went_Nil [simp]: "lines_went t k p lines []"
  by (simp add: lines_went_def)

lemma lines_went_Cons:
  assumes "\<not> snd p" "line_went t k (fst p) c f" "lines_went t (Suc k) (left_step f p) lines fs"
  shows "lines_went t k p (c # lines) (f # fs)"
  using assms by (auto simp: lines_went_def All_less_Suc2)

text \<open>
  How the loop may end: the game is over; or every line was read, and reading ended as it did;
  or the turn of the next line failed for good.
\<close>

definition ends_with ::
  "('story, 'm) table \<Rightarrow> goerr option \<Rightarrow> nat \<Rightarrow> bytes option \<times> bool \<Rightarrow> string list \<Rightarrow> line_fate list \<Rightarrow> unit result \<Rightarrow> bool" where
  "ends_with t ended k p lines fs r \<longleftrightarrow> (case r of
     Inr _ \<Rightarrow> snd (left_by p fs) \<or> length fs = length lines \<and> ended = None
   | Inl err \<Rightarrow> \<not> snd (left_by p fs)
       \<and> (length fs = length lines \<and> ended = Some err
          \<or> length fs < length lines \<and> length (lines ! length fs) \<le> max_command_bytes
            \<and> (\<exists>err'. runner_run (tb_engine t) (tb_runner t) (tb_env t (k + length fs)) (Some (tb_entry t))
                  (fst (left_by p fs)) (lines ! length fs) = Inl err'
                \<and> \<not> retryable (classify (Some err')) \<and> err = Wrap (fault_string (classify (Some err')) @ '' turn'') err')))"

lemma ends_with_Cons:
  "ends_with t ended (Suc k) (left_step f p) lines fs r \<Longrightarrow> ends_with t ended k p (c # lines) (f # fs) r"
  by (simp add: ends_with_def del: runner_run_Inr split: sum.splits)

text \<open>The screens the lines are answered with.\<close>

definition line_screens :: "int \<Rightarrow> string list \<Rightarrow> line_fate list \<Rightarrow> string list" where
  "line_screens width lines fs = concat (map (\<lambda>(c, f). case f of
     LinePlayed res \<Rightarrow> [turn_text (new_turn c res) width] | _ \<Rightarrow> []) (zip lines fs))"

lemma line_screens_simps [simp]: "line_screens width lines [] = []"
  "line_screens width (c # lines) (f # fs)
     = (case f of LinePlayed res \<Rightarrow> [turn_text (new_turn c res) width] | _ \<Rightarrow> []) @ line_screens width lines fs"
  by (simp_all add: line_screens_def)

definition screens :: "shown list \<Rightarrow> string list" where
  "screens out = List.map_filter (\<lambda>x. case x of Screen s \<Rightarrow> Some s | _ \<Rightarrow> None) out"

lemma screens_simps [simp]: "screens [] = []" "screens (Screen s # out) = s # screens out"
  "screens (Reprompt # out) = screens out" "screens (LineEnd # out) = screens out" "screens (Complaint s # out) = screens out"
  by (simp_all add: screens_def List.map_filter_simps)

lemma screens_too_long [simp]: "screens (too_long c @ out) = screens out"
  by (simp add: too_long_def)

text \<open>An account of a run of the loop.\<close>

lemma play_loop_account:
  assumes "\<not> tb_zero_halted t" "play_loop t ended k halted st lines = (out, r)"
  shows "\<exists>fs. lines_went t k (st, halted) lines fs \<and> screens out = line_screens (tb_width t) lines fs
    \<and> ends_with t ended k (st, halted) lines fs r"
  using assms(2)
proof (induction lines arbitrary: k halted st out)
  case Nil
  then show ?case by (intro exI [of _ "[]"]) (auto simp: ends_with_def split: if_splits option.splits)
next
  case (Cons command rest)
  let ?run = "runner_run (tb_engine t) (tb_runner t) (tb_env t k) (Some (tb_entry t)) st command"
  have step: "\<exists>fs. lines_went t k (st, halted) (command # rest) fs \<and> screens out = line_screens (tb_width t) (command # rest) fs
      \<and> ends_with t ended k (st, halted) (command # rest) fs r"
    if h: "\<not> halted" "line_went t k st command f" "left_step f (st, halted) = (st', h)"
      "play_loop t ended (Suc k) h st' rest = (out', r)"
      "screens out = (case f of LinePlayed res \<Rightarrow> [turn_text (new_turn command res) (tb_width t)] | _ \<Rightarrow> []) @ screens out'"
    for f st' h out'
  proof -
    obtain fs where fs: "lines_went t (Suc k) (st', h) rest fs" "screens out' = line_screens (tb_width t) rest fs"
        "ends_with t ended (Suc k) (st', h) rest fs r"
      using Cons.IH [OF h(4)] by blast
    have "lines_went t k (st, halted) (command # rest) (f # fs)"
      using lines_went_Cons [of "(st, halted)" t k command f rest fs] h(1-3) fs(1) by simp
    moreover have "ends_with t ended k (st, halted) (command # rest) (f # fs) r"
      using ends_with_Cons [of t ended k f "(st, halted)" rest fs r command] h(3) fs(3) by simp
    ultimately show ?thesis using h(5) fs(2) by (intro exI [of _ "f # fs"]) simp
  qed
  consider (over) "halted" | (long) "\<not> halted" "max_command_bytes < length command"
    | (failed) err where "\<not> halted" "length command \<le> max_command_bytes" "?run = Inl err"
    | (worked) res where "\<not> halted" "length command \<le> max_command_bytes" "?run = Inr res"
    by (meson linorder_not_le sum.exhaust)
  then show ?case
  proof cases
    case over
    then show ?thesis using Cons.prems by (intro exI [of _ "[]"]) (auto simp: ends_with_def)
  next
    case long
    obtain out' where o: "play_loop t ended (Suc k) False st rest = (out', r)" "out = too_long command @ out'"
      using Cons.prems long by (cases "play_loop t ended (Suc k) False st rest") auto
    show ?thesis
      by (rule step [of LineRefused st False out']) (use long o in \<open>simp_all add: line_went_def\<close>)
  next
    case failed
    show ?thesis
    proof (cases "retryable (classify (Some err))")
      case True
      obtain out' where o: "play_loop t ended (Suc k) False st rest = (out', r)" "screens out = screens out'"
        using Cons.prems failed True assms(1)
        by (cases "play_loop t ended (Suc k) False st rest") (auto simp: Let_def)
      have "line_went t k st command (LineFailed err)" using failed True by (simp add: line_went_def)
      then show ?thesis by (rule step [of _ st False out', rotated]) (use failed(1) o in simp_all)
    next
      case False
      then have o: "screens out = []" "r = Inl (Wrap (fault_string (classify (Some err)) @ '' turn'') err)"
        using Cons.prems failed by (auto simp: Let_def)
      moreover have "ends_with t ended k (st, halted) (command # rest) [] r"
        unfolding ends_with_def o(2) using failed False by (simp del: runner_run_Inr)
      ultimately show ?thesis by (intro exI [of _ "[]"]) simp
    qed
  next
    case worked
    obtain out' where o: "play_loop t ended (Suc k) (z_halted res) (z_state res) rest = (out', r)"
        "out = Screen (turn_text (new_turn command res) (tb_width t)) # out'"
      using Cons.prems worked
      by (cases "play_loop t ended (Suc k) (z_halted res) (z_state res) rest") auto
    have "line_went t k st command (LinePlayed res)" using worked by (simp add: line_went_def del: runner_run_Inr)
    then show ?thesis
      by (rule step [of _ "z_state res" "z_halted res" out', rotated]) (use worked(1) o in simp_all)
  qed
qed

lemma play_account:
  assumes "\<not> tb_zero_halted t" "runner_start (tb_engine t) (tb_runner t) e (Some (tb_entry t)) = Inr res"
    and "play t e ended input = (out, r)" "scan_lines ended input = (lines, scanned)"
  shows "\<exists>fs. lines_went t 0 (z_state res, z_halted res) lines fs
    \<and> screens out = turn_text (new_turn [] res) (tb_width t) # line_screens (tb_width t) lines fs
    \<and> ends_with t scanned 0 (z_state res, z_halted res) lines fs r"
proof -
  obtain out' where o: "play_loop t scanned 0 (z_halted res) (z_state res) lines = (out', r)"
      "out = Screen (turn_text (new_turn [] res) (tb_width t)) # out'"
    using assms(2-4) by (cases "play_loop t scanned 0 (z_halted res) (z_state res) lines") (auto simp: play_def)
  from play_loop_account [OF assms(1) o(1)] o(2) show ?thesis by auto
qed

end
