(* ===== verification/Web_Access.thy ===== *)
theory Web_Access
  imports Web_Laws Service_Laws
begin

text \<open>
  Whose games a request can reach: a game handler makes one call of the game service, in the
  name of the account the session belongs to, and every other part of serving a request leaves
  the games alone.
\<close>

section \<open>The user a cookie stands for\<close>

definition acts_for :: "crypto \<Rightarrow> time \<Rightarrow> string option \<Rightarrow> db \<Rightarrow> string option" where
  "acts_for cr t cookie d = Option.bind cookie (\<lambda>v. Option.bind (db_tok d (hash_token cr v))
     (\<lambda>l. if t < lg_expires l then Some (lg_user l) else None))"

lemma acts_for_live: "acts_for cr t cookie d = None \<longleftrightarrow> \<not> live_session cr t cookie d"
  by (simp add: acts_for_def live_session_def bind_split split: option.splits)

lemma signed_in_acts_for:
  assumes "mg_store (srv_sessions s) = login_ops u" "acct_inv d" "signed_in s e r d = (Inr i, d1)"
  shows "acts_for (mg_crypto (srv_sessions s)) (now (nth_use 1 e)) (rq_cookie r) d = Some i \<and> d1 = d"
  using logins.look_sound [OF assms(1,2), of e "rq_cookie r" i] assms(3)
  by (auto simp: signed_in_def acts_for_def)

lemma acts_for_known:
  assumes "acct_inv d" "acts_for cr t cookie d = Some i"
  shows "db_known d i"
proof -
  obtain h l where "db_tok d h = Some l" "i = lg_user l"
    using assms(2) by (auto simp: acts_for_def bind_eq_Some_conv split: if_splits)
  then obtain p where p: "row_by a_token h (d_auth d) = Some p" "i = id_of (a_user (snd p))"
    by (auto simp: db_tok_def seen_login_def)
  have "is_user (d_users d) (a_user (snd p))"
    using table_row(4) [OF _ p(1)] assms(1) unfolding acct_inv_def by blast
  then show ?thesis using p(2) by (auto simp: is_user_known)
qed

text \<open>\<open>accounts.User\<close> finds the account with that identifier.\<close>

lemma auth_user_same:
  assumes "as_store a = user_ops u" "db_known d i" "auth_user a e i d = Inr account"
  shows "us_id account = i"
  using assms known_owner [OF assms(2)] by (auto simp: auth_user_def users_by_id_def result_iff split: option.splits)

section \<open>What a game handler does\<close>

lemma game_handler_call:
  "\<exists>q. snd (game_handler s e r player g st) = st
     \<or> snd (game_handler s e r player g st) = snd (service_do (srv_games s) e (us_id player) q st)"
proof (cases g)
  case NewGame
  then show ?thesis
    by (intro exI [of _ "Service_Laws.NewGame (form_get (projr (parse_form r)) ''story'')"])
      (simp add: game_handler_def new_game_def service_do_def split: sum.splits prod.splits)
next
  case (PlayTurn i)
  then show ?thesis
    by (intro exI [of _ "Play i (command_of (form_get (projr (parse_form r)) ''command''))"])
      (simp add: game_handler_def play_turn_page_def service_do_def Let_def split: sum.splits prod.splits)
next
  case (RestartGame i)
  then show ?thesis
    by (intro exI [of _ "Restart i"]) (simp add: game_handler_def restart_game_def service_do_def split: sum.splits prod.splits)
next
  case (DeleteGamePage i)
  then show ?thesis
    by (intro exI [of _ "Delete i"]) (simp add: game_handler_def delete_game_def service_do_def split: sum.splits prod.splits)
next
  case (CreateSavePage i)
  then show ?thesis
    by (intro exI [of _ "Save i (form_get (projr (parse_form r)) ''name'')"])
      (simp add: game_handler_def create_save_page_def service_do_def split: sum.splits prod.splits)
next
  case (RestoreSavePage i k)
  then show ?thesis
    by (intro exI [of _ "Restore i k"])
      (simp add: game_handler_def restore_save_page_def service_do_def split: sum.splits prod.splits)
next
  case (DeleteSavePage i k)
  then show ?thesis
    by (intro exI [of _ "Service_Laws.DeleteSave i k"])
      (simp add: game_handler_def delete_save_page_def service_do_def split: sum.splits prod.splits)
qed (simp_all add: game_handler_def)

text \<open>Another user's game, across one request of a signed-in user.\<close>

lemma game_handler_others:
  assumes "svc_store (srv_games s) = games_ops u" "engine_ok (svc_engine (srv_games s))" "db_inv d"
    and "db_known d (us_id player)" "db_sess d i = Some x" "s_user x \<noteq> us_id player"
  shows "db_sess (snd (game_handler s e r player g d)) i = Some x
    \<and> db_shelf (snd (game_handler s e r player g d)) i = db_shelf d i"
proof -
  obtain q where q: "snd (game_handler s e r player g d) = d
     \<or> snd (game_handler s e r player g d) = snd (service_do (srv_games s) e (us_id player) q d)"
    using game_handler_call [of s e r player g d] by (elim exE) (rule that)
  let ?d' = "snd (service_do (srv_games s) e (us_id player) q d)"
  have "\<forall>j c. db_sess d j = Some c \<longrightarrow> s_user c \<noteq> us_id player \<longrightarrow> db_sess ?d' j = Some c \<and> db_shelf ?d' j = db_shelf d j"
    using db.do_proper [OF assms(1-4), of e q] unfolding db.proper_def by (elim conjE) assumption
  from this [rule_format, OF assms(5,6)]
  have kept: "db_sess ?d' i = Some x \<and> db_shelf ?d' i = db_shelf d i" .
  from q show ?thesis
  proof
    assume same: "snd (game_handler s e r player g d) = d"
    show ?thesis unfolding same using assms(5) by simp
  next
    assume call: "snd (game_handler s e r player g d) = snd (service_do (srv_games s) e (us_id player) q d)"
    show ?thesis unfolding call by (rule kept)
  qed
qed

lemma require_user_others:
  assumes "db_server u s" "engine_ok (svc_engine (srv_games s))" "whole_inv d" "db_sess d i = Some x"
    and "acts_for (mg_crypto (srv_sessions s)) (now (nth_use 1 e)) (rq_cookie r) d \<noteq> Some (s_user x)"
  shows "db_sess (snd (require_user s e r (\<lambda>e player. game_handler s e r player g) d)) i = Some x
    \<and> db_shelf (snd (require_user s e r (\<lambda>e player. game_handler s e r player g) d)) i = db_shelf d i"
proof -
  have st: "svc_store (srv_games s) = games_ops u" "as_store (srv_accounts s) = user_ops u"
      "mg_store (srv_sessions s) = login_ops u" and inv: "db_inv d" "acct_inv d"
    using assms(1,3) by (simp_all add: db_server_def whole_inv_def)
  have tk: "token_keeps (sees_games d) (mg_store (srv_sessions s))" using logins_keep_games st(3) by simp
  have unseen: "db_sess d' i = Some x \<and> db_shelf d' i = db_shelf d i" if "sees_games d d'" for d'
    using that assms(4) by (simp add: sees_games_def)
  obtain y d1 where y: "signed_in s e r d = (y, d1)" by force
  have d1: "sees_games d d1"
    using manager_keeps(2) [OF tk _ y [unfolded signed_in_def]] by (simp add: sees_games_def)
  show ?thesis
  proof (cases y)
    case (Inl err)
    then show ?thesis using y unseen [OF d1] by (simp add: require_user_def)
  next
    case (Inr k)
    from signed_in_acts_for [OF st(3) inv(2) y [unfolded Inr]] have k: "d1 = d"
        "acts_for (mg_crypto (srv_sessions s)) (now (nth_use 1 e)) (rq_cookie r) d = Some k" by simp_all
    note known = acts_for_known [OF inv(2) k(2)]
    show ?thesis
    proof (cases "auth_user (srv_accounts s) (stage 1 e) k d")
      case (Inl err)
      obtain c d2 where d2: "manager_end (srv_sessions s) (stage 2 e) (rq_cookie r) d = (c, d2)" by (meson surj_pair)
      have "sees_games d d2" using manager_keeps(3) [OF tk _ d2] by (simp add: sees_games_def)
      then show ?thesis using unseen y Inr Inl k(1) d2 by (cases c) (simp add: require_user_def)
    next
      case account: (Inr account)
      have id: "us_id account = k" by (rule auth_user_same [OF st(2) known account])
      have "s_user x \<noteq> us_id account" using assms(5) k(2) id by auto
      from game_handler_others [OF st(1) assms(2) inv(1) _ assms(4) this] known id y Inr k(1) account
      show ?thesis by (simp add: require_user_def)
    qed
  qed
qed

section \<open>Any request\<close>

lemma serve_others:
  assumes "db_server u s" "engine_ok (svc_engine (srv_games s))" "whole_inv (wb_store w)" "clock_runs e"
    and "db_sess (wb_store w) i = Some x"
    and "acts_for (mg_crypto (srv_sessions s)) (now (nth_use 1 e)) (rq_cookie r) (wb_store w) \<noteq> Some (s_user x)"
    and "serve s e r w = Some (a, w')"
  shows "db_sess (wb_store w') i = Some x \<and> db_shelf (wb_store w') i = db_shelf (wb_store w) i"
proof (cases "\<exists>g. route_of r = Some (Game g)")
  case True
  then obtain g where g: "route_of r = Some (Game g)" by blast
  note o = require_user_others [OF assms(1-3,5,6), of g]
  show ?thesis
  proof (cases "cross_origin r")
    case True
    then show ?thesis using assms(5,7) by (auto simp: serve_def)
  next
    case False
    then have "wb_store w' = snd (require_user s e r (\<lambda>e player. game_handler s e r player g) (wb_store w))"
      using g assms(7) by (auto simp: serve_def)
    with o show ?thesis by simp
  qed
next
  case False
  have st: "mg_store (srv_sessions s) = login_ops u" "is_store (srv_invites s) = invite_db_ops"
    using assms(1) by (simp_all add: db_server_def)
  have "sees_games (wb_store w) (wb_store w')"
    using serve_keeps [OF _ _ _ assms(4) _ assms(7), of "sees_games (wb_store w)"] logins_keep_games redeem_keeps_games
      False st by (auto simp: sees_games_def)
  then show ?thesis using assms(5) by (simp add: sees_games_def)
qed


text \<open>With no session at all the games' tables stay as they are, and a game page sends to the login page.\<close>

lemma serve_stranger:
  assumes "db_server u s" "whole_inv (wb_store w)" "clock_runs e" "serve s e r w = Some (a, w')"
    and "acts_for (mg_crypto (srv_sessions s)) (now (nth_use 1 e)) (rq_cookie r) (wb_store w) = None"
  shows "sees_games (wb_store w) (wb_store w')
    \<and> (\<not> cross_origin r \<and> (\<exists>g. route_of r = Some (Game g)) \<longrightarrow> a = redirect_to_login r)"
proof -
  have st: "mg_store (srv_sessions s) = login_ops u" "is_store (srv_invites s) = invite_db_ops" "acct_inv (wb_store w)"
    using assms(1,2) by (simp_all add: db_server_def whole_inv_def)
  have live: "\<not> live_session (mg_crypto (srv_sessions s)) (now (nth_use 1 e)) (rq_cookie r) (wb_store w)"
    using assms(5) by (simp add: acts_for_live)
  note st' = stranger_redirected [OF st(1,3) live]
  show ?thesis
  proof (cases "cross_origin r \<or> (\<nexists>g. route_of r = Some (Game g))")
    case True
    have "sees_games (wb_store w) (wb_store w')"
    proof (cases "cross_origin r")
      case True
      then show ?thesis using assms(4) by (auto simp: serve_def sees_games_def)
    next
      case False
      with True show ?thesis
        using serve_keeps [OF _ _ _ assms(3) _ assms(4), of "sees_games (wb_store w)"] logins_keep_games redeem_keeps_games st
        by (auto simp: sees_games_def)
    qed
    with True show ?thesis by blast
  next
    case False
    then obtain g where "route_of r = Some (Game g)" "\<not> cross_origin r" by blast
    with st' [of "\<lambda>e player. game_handler s e r player g"] assms(4) show ?thesis by (auto simp: serve_def)
  qed
qed

lemma serve_access:
  assumes "db_server u s" "engine_ok (svc_engine (srv_games s))" "whole_inv (wb_store w)" "clock_runs e"
    and "serve s e r w = Some (a, w')"
  shows "case acts_for (mg_crypto (srv_sessions s)) (now (nth_use 1 e)) (rq_cookie r) (wb_store w) of
      None \<Rightarrow> db_sess (wb_store w') = db_sess (wb_store w) \<and> db_shelf (wb_store w') = db_shelf (wb_store w)
        \<and> (\<not> cross_origin r \<and> (\<exists>g. route_of r = Some (Game g)) \<longrightarrow> a = redirect_to_login r)
    | Some user \<Rightarrow> (\<forall>i x. db_sess (wb_store w) i = Some x \<and> s_user x \<noteq> user \<longrightarrow>
        db_sess (wb_store w') i = Some x \<and> db_shelf (wb_store w') i = db_shelf (wb_store w) i)"
proof (cases "acts_for (mg_crypto (srv_sessions s)) (now (nth_use 1 e)) (rq_cookie r) (wb_store w)")
  case None
  with serve_stranger [OF assms(1,3,4,5) None] show ?thesis by (simp add: sees_games_def)
next
  case (Some user)
  have "db_sess (wb_store w') i = Some x \<and> db_shelf (wb_store w') i = db_shelf (wb_store w) i"
    if "db_sess (wb_store w) i = Some x" "s_user x \<noteq> user" for i x
    using serve_others [OF assms(1-4) that(1) _ assms(5)] Some that(2) by simp
  with Some show ?thesis by simp
qed

end
