(* ===== verification/Db_Refines.thy ===== *)
theory Db_Refines
  imports Db_Whole
begin

text \<open>
  The abstract specification of the games' store: two maps, of the games by identifier and of
  the saves by game and identifier, and for each call the moves it may make. The database
  refines it: a call moves as the specification says or does not move, it never stands still
  when the database works and the specification lets it move, and calls on accounts do not
  move at all.
\<close>

section \<open>The specification\<close>

type_synonym games_view = "(string \<Rightarrow> Game_Types.session option) \<times> (string \<Rightarrow> string \<Rightarrow> snapshot option)"

definition games_view :: "db \<Rightarrow> games_view" where
  "games_view d = (db_sess d, db_shelf d)"

text \<open>A save by that name is on the shelf, or there is room for one more.\<close>

definition takes_place :: "(string \<Rightarrow> snapshot option) \<Rightarrow> string \<Rightarrow> string \<Rightarrow> bool" where
  "takes_place shelf k name \<longleftrightarrow> (case shelf k of
     Some m \<Rightarrow> nocase (n_name m) name
   | None \<Rightarrow> (\<forall>l m. shelf l = Some m \<longrightarrow> \<not> nocase (n_name m) name) \<and> card (dom shelf) < max_saves_per_game)"

text \<open>
  What an identifier a caller writes denotes: the game or save with that number. The store's
  own spelling names itself, and so may others (+1 names 1), but never anything else.
\<close>

definition names :: "string \<Rightarrow> string \<Rightarrow> bool" where
  "names i j \<longleftrightarrow> (case parse_int64 i of Some k \<Rightarrow> rowid_ok k \<and> j = id_of k | None \<Rightarrow> False)"

lemma names_canon: "canon i \<noteq> None \<Longrightarrow> names i j \<longleftrightarrow> j = i"
  by (auto simp: names_def canon_Some)

lemma names_unique: "names i j \<Longrightarrow> names i k \<Longrightarrow> j = k"
  by (auto simp: names_def split: option.splits)

lemma names_id_of [simp]: "rowid_ok k \<Longrightarrow> names (id_of k) j \<longleftrightarrow> j = id_of k"
  by (simp add: names_def)

lemma names_row:
  "row_id u i = Inr k \<Longrightarrow> names i (id_of k)" "save_row_id u i = Inr k \<Longrightarrow> names i (id_of k)"
  by (simp_all add: names_def result_iff)

lemma names_itself:
  "owned (db_sess d) user i \<Longrightarrow> names i i" "db_shelf d i k = Some n \<Longrightarrow> names k k"
  by (auto simp: owned_def db_sess_Some db_shelf_Some)

fun spec_move :: "game_call \<Rightarrow> games_view \<Rightarrow> games_view \<Rightarrow> bool" where
  "spec_move (CreateGame s) (S, H) V' \<longleftrightarrow>
     (\<exists>i. S i = None \<and> V' = (S(i \<mapsto> s\<lparr>s_id := i, s_version := 1\<rparr>), H))"
| "spec_move (UpdateGame s) (S, H) V' \<longleftrightarrow>
     (\<exists>c. S (s_id s) = Some c \<and> s_user c = s_user s \<and> s_version c = s_version s
        \<and> V' = (S(s_id s \<mapsto> s\<lparr>s_version := s_version s + 1\<rparr>), H))"
| "spec_move (DeleteGame user i) (S, H) V' \<longleftrightarrow>
     (\<exists>j. names i j \<and> owned S user j \<and> V' = (S(j := None), H(j := Map.empty)))"
| "spec_move (CreateSave n) (S, H) V' \<longleftrightarrow>
     (\<exists>j k t. names (n_game n) j \<and> owned S (n_user n) j \<and> takes_place (H j) k (n_name n)
        \<and> V' = (S, H(j := (H j)(k \<mapsto> stored_as k t (n\<lparr>n_game := j\<rparr>)))))"
| "spec_move (DeleteSave user i k) (S, H) V' \<longleftrightarrow>
     (\<exists>j l. names i j \<and> names k l \<and> owned S user j \<and> H j l \<noteq> None \<and> V' = (S, H(j := (H j)(l := None))))"

text \<open>When a call must move, if the store works.\<close>

fun spec_enabled :: "game_call \<Rightarrow> games_view \<Rightarrow> bool" where
  "spec_enabled (CreateGame s) (S, H) \<longleftrightarrow> True"
| "spec_enabled (UpdateGame s) (S, H) \<longleftrightarrow>
     (\<exists>c. S (s_id s) = Some c \<and> s_user c = s_user s \<and> s_version c = s_version s)"
| "spec_enabled (DeleteGame user i) (S, H) \<longleftrightarrow> owned S user i"
| "spec_enabled (CreateSave n) (S, H) \<longleftrightarrow> owned S (n_user n) (n_game n) \<and> (\<exists>k. takes_place (H (n_game n)) k (n_name n))"
| "spec_enabled (DeleteSave user i k) (S, H) \<longleftrightarrow> owned S user i \<and> H i k \<noteq> None"

text \<open>
  What the service sees to: the user has an account, what is stored can be, a save's name is
  clean, and an update keeps the owner and the story of the game it was read from.
\<close>

fun call_fits :: "db \<Rightarrow> game_call \<Rightarrow> bool" where
  "call_fits d (CreateGame s) \<longleftrightarrow> db_known d (s_user s) \<and> storable s"
| "call_fits d (UpdateGame s) \<longleftrightarrow> storable s
     \<and> (\<exists>c. db_sess d (s_id s) = Some c \<and> s_user c = s_user s \<and> s_key c = s_key s)"
| "call_fits d (DeleteGame user i) \<longleftrightarrow> db_known d user"
| "call_fits d (CreateSave n) \<longleftrightarrow> db_known d (n_user n) \<and> \<not> no_bytes (n_state n) \<and> clean_name (n_name n)"
| "call_fits d (DeleteSave user i k) \<longleftrightarrow> db_known d user"

section \<open>Moves\<close>

abbreviation stands_or_moves :: "game_call \<Rightarrow> db \<Rightarrow> db \<Rightarrow> bool" where
  "stands_or_moves c d d' \<equiv> games_view d' = games_view d \<or> spec_move c (games_view d) (games_view d')"

lemma create_game_moves:
  assumes "db_inv d" "db_known d (s_user s)" "storable s"
  shows "stands_or_moves (CreateGame s) d (snd (games_create u e s d))"
proof -
  obtain r d' where c: "games_create u e s d = (r, d')" by force
  show ?thesis
    using c games_create_fail [of u e s d _ d'] games_create_effect [OF assms, of u e _ d']
    by (cases r) (auto simp: games_view_def)
qed

lemma update_game_moves:
  assumes "db_inv d" "storable s" "db_sess d (s_id s) = Some c" "s_user c = s_user s" "s_key c = s_key s"
  shows "stands_or_moves (UpdateGame s) d (snd (games_update u e s d))"
proof -
  obtain r d' where r: "games_update u e s d = (r, d')" by force
  show ?thesis
    using r games_update_fail [of u e s d _ d'] games_update_effect [OF assms(1,3,4,5,2), of u e _ d'] assms(3,4)
    by (cases r) (auto simp: games_view_def)
qed

lemma delete_game_moves:
  assumes "db_inv d" "db_known d user"
  shows "stands_or_moves (DeleteGame user i) d (snd (games_delete u e user i d))"
proof -
  obtain r d' where r: "games_delete u e user i d = (r, d')" by force
  show ?thesis
  proof (cases "d' = d")
    case True
    then show ?thesis using r by simp
  next
    case False
    from db_delete_did [OF assms(1) r False] assms(2)
    obtain k where k: "d' = drop_game k d" "rowid_ok k" "owned (db_sess d) user (id_of k)" "row_id u i = Inr k" by blast
    then show ?thesis using r drop_game_view(1,2) [OF assms(1) k(2)] names_row(1) [OF k(4)] by (auto simp: games_view_def)
  qed
qed

text \<open>The row a save is written to.\<close>

lemma write_save_slot:
  assumes "db_inv d" "write_save u e owner game n d = Inr (k, replaced, j, d')"
  shows "if replaced then \<exists>r. map_of (d_saves d) k = Some r \<and> same_slot game (n_name n) r
    else map_of (d_saves d) k = None \<and> (\<forall>l r. map_of (d_saves d) l = Some r \<longrightarrow> \<not> same_slot game (n_name n) r)
      \<and> card (saves_of (d_saves d) game) < max_saves_per_game"
proof -
  let ?x = "fold (\<lambda>p i. if r_game (snd p) = game \<and> nocase (r_name (snd p)) (n_name n) then fst p else i) (d_saves d) 0"
  have ds: "distinct (keys (d_saves d))" using assms(1) by (simp add: db_inv_def)
  note x = save_id_cases [OF assms(1) refl, of game "n_name n"]
  show ?thesis
  proof (cases "?x = 0")
    case True
    then have i: "insert_save e 5 game n d = Inr (k, d')" "\<not> replaced"
        "\<not> max_saves_per_game \<le> length (filter (\<lambda>p. r_game (snd p) = game) (d_saves d))"
      using assms(2)
      by (auto simp: write_save_def save_id_by_name_def count_saves_def result_iff Let_def split: if_splits)
    have nx: "next_rowid (d_saves d) = Some k"
      using i(1) by (auto simp: insert_save_def result_iff Let_def split: option.splits if_splits)
    have "map_of (d_saves d) k = None" using next_rowid_fresh [OF nx] by (simp add: map_of_eq_None_iff)
    moreover have "\<forall>l r. map_of (d_saves d) l = Some r \<longrightarrow> \<not> same_slot game (n_name n) r" using x True by blast
    ultimately show ?thesis using i(2,3) count_saves_of [OF ds, of game] by simp
  next
    case False
    then have "k = ?x" "replaced"
      using assms(2) by (auto simp: write_save_def save_id_by_name_def result_iff Let_def split: if_splits)
    with x False show ?thesis by simp
  qed
qed

lemma write_save_place:
  assumes "db_inv d" "write_save u e owner game n d = Inr (k, replaced, j, d')" "rowid_ok k" "rowid_ok game"
    and "map_of (d_games d) game = Some gr"
  shows "takes_place (db_shelf d (id_of game)) (id_of k) (n_name n)"
proof -
  note slot = write_save_slot [OF assms(1,2)]
  note shelf = shelf_slot [OF assms(1,4,5)]
  show ?thesis
  proof (cases replaced)
    case True
    then obtain r where "map_of (d_saves d) k = Some r" "same_slot game (n_name n) r" using slot by auto
    then have "\<exists>m. db_shelf d (id_of game) (id_of k) = Some m \<and> nocase (n_name m) (n_name n)"
      unfolding shelf by blast
    then show ?thesis by (auto simp: takes_place_def)
  next
    case False
    then have n: "map_of (d_saves d) k = None" "\<forall>l r. map_of (d_saves d) l = Some r \<longrightarrow> \<not> same_slot game (n_name n) r"
        "card (saves_of (d_saves d) game) < max_saves_per_game" using slot by auto
    have "db_shelf d (id_of game) (id_of k) = None"
      using n(1) by (cases "db_shelf d (id_of game) (id_of k)") (auto simp: db_shelf_Some)
    moreover have "\<forall>l m. db_shelf d (id_of game) l = Some m \<longrightarrow> \<not> nocase (n_name m) (n_name n)"
      using n(2) shelf by blast
    moreover have "card (dom (db_shelf d (id_of game))) < max_saves_per_game"
      using n(3) card_shelf [OF assms(1,4)] by simp
    ultimately show ?thesis by (simp add: takes_place_def)
  qed
qed

lemma create_save_moves:
  assumes "db_inv d" "db_known d (n_user n)" "\<not> no_bytes (n_state n)" "clean_name (n_name n)"
  shows "stands_or_moves (CreateSave n) d (snd (games_create_save u e n d))"
proof -
  obtain r d' where r: "games_create_save u e n d = (r, d')" by force
  show ?thesis
  proof (cases "d' = d")
    case False
    then obtain p where "r = Inr p" using games_create_save_fail [of u e n d _ d'] r by (cases r) auto
    then obtain sv b where "r = Inr (sv, b)" by (cases p) auto
    let ?n = "n\<lparr>n_created := now e\<rparr>"
    from games_create_save_Inr [OF r [unfolded \<open>r = Inr (sv, b)\<close>]] False obtain owner game k j where
      o: "user_row_id u (n_user n) = Inr owner" "row_id u (n_game n) = Inr game"
        "write_save u e owner game ?n d = Inr (k, b, j, d')" by (auto split: if_splits)
    have g: "rowid_ok game" using o(2) by (simp add: result_iff)
    have st: "clean_name (n_name ?n)" "\<not> no_bytes (n_state ?n)" using assms(3,4) by simp_all
    from write_save_Inr [OF assms(1) o(3) st g] obtain gr where w: "rowid_ok k" "db_sess d' = db_sess d"
      "map_of (d_games d) game = Some gr" "g_user gr = owner"
      "db_shelf d' = (db_shelf d)(id_of game := (db_shelf d (id_of game))
          (id_of k \<mapsto> snapshot_of_row (id_of owner) (id_of game) k (save_row_of game ?n)))" by blast
    have user: "n_user n = id_of owner" using known_owner [OF assms(2) o(1)] .
    have own: "owned (db_sess d) (n_user n) (id_of game)"
      using g w(3,4) user by (auto simp: owned_row)
    have row: "snapshot_of_row (id_of owner) (id_of game) k (save_row_of game ?n)
        = stored_as (id_of k) (now e) (n\<lparr>n_game := id_of game\<rparr>)"
      using stored_row [of "n\<lparr>n_game := id_of game\<rparr>" owner game k "now e"] assms(3) user by (simp add: save_row_of_def)
    have "takes_place (db_shelf d (id_of game)) (id_of k) (n_name n)"
      using write_save_place [OF assms(1) o(3) w(1) g w(3)] by simp
    with own w(2,5) row names_row(1) [OF o(2)] show ?thesis unfolding r by (auto simp: games_view_def)
  qed (simp add: r)
qed

lemma delete_save_moves:
  assumes "db_inv d" "db_known d user"
  shows "stands_or_moves (DeleteSave user i k) d (snd (games_delete_save u e user i k d))"
proof -
  obtain x d' where r: "games_delete_save u e user i k d = (x, d')" by force
  show ?thesis
  proof (cases x)
    case (Inl err)
    then show ?thesis using games_delete_save_fail [of u e user i k d err d'] r by simp
  next
    case (Inr sv)
    from games_delete_save_Inr [OF r [unfolded Inr]] obtain n row where n: "games_load_save u e user i k d = Inr n"
      "save_row_id u k = Inr row" "d' = d\<lparr>d_saves := AList.delete row (d_saves d)\<rparr>" by blast
    from n(1)[unfolded games_load_save_Inr] n(2) obtain owner game g q where
      o: "user_row_id u user = Inr owner" "row_id u i = Inr game" "map_of (d_games d) game = Some g" "g_user g = owner"
        "map_of (d_saves d) row = Some q" "r_game q = game" by (auto simp del: row_id_Inr user_row_id_Inr save_row_id_Inr)
    have ok: "rowid_ok game" "rowid_ok row" using o(2) db_inv_save(1) [OF assms(1) o(5)] by (simp_all add: result_iff)
    have own: "owned (db_sess d) user (id_of game)"
      using known_owner [OF assms(2) o(1)] o ok by (auto simp: owned_row)
    have held: "db_shelf d (id_of game) (id_of row) \<noteq> None" using o ok by (simp add: db_shelf_def)
    from drop_save_view(1,3) [OF assms(1) o(5)] o(6) own held names_row(1) [OF o(2)] names_row(2) [OF n(2)] show ?thesis
      unfolding r n(3) by (auto simp: games_view_def)
  qed
qed

section \<open>Refinement\<close>

lemma game_call_moves:
  assumes "db_inv d" "call_fits d c"
  shows "stands_or_moves c d (game_write u e c d)"
  using assms create_game_moves [OF assms(1)] update_game_moves [OF assms(1)] delete_game_moves [OF assms(1)]
    create_save_moves [OF assms(1)] delete_save_moves [OF assms(1)]
  by (cases c) (simp_all only: game_write.simps call_fits.simps, blast+)

lemma game_call_must_move:
  assumes "db_inv d" "call_fits d c" "db_up e" "db_room d" "spec_enabled c (games_view d)"
  shows "spec_move c (games_view d) (games_view (game_write u e c d))"
proof (cases c)
  case (CreateGame s)
  then have s: "db_known d (s_user s)" "storable s" using assms(2) by simp_all
  obtain s' d' where r: "games_create u e s d = (Inr s', d')" using games_create_up [OF assms(3,4) s] by blast
  with games_create_effect [OF assms(1) s r] CreateGame show ?thesis by (auto simp: games_view_def)
next
  case (UpdateGame s)
  then obtain c where s: "storable s" "db_sess d (s_id s) = Some c" "s_user c = s_user s" "s_key c = s_key s" "s_version c = s_version s"
    using assms(2,5) by (auto simp: games_view_def)
  obtain s' d' where r: "games_update u e s d = (Inr s', d')" using games_update_up(1) [OF assms(1,3) s(2,3,5,1)] by blast
  with games_update_effect [OF assms(1) s(2,3,4,1) r] s UpdateGame show ?thesis by (auto simp: games_view_def)
next
  case (DeleteGame user i)
  then have o: "owned (db_sess d) user i" using assms(5) by (simp add: games_view_def)
  then obtain s where s: "db_sess d i = Some s" "s_user s = user" by (auto simp: owned_def)
  then obtain k where k: "i = id_of k" "rowid_ok k" by (auto simp: db_sess_Some)
  show ?thesis using db_delete_ok [OF assms(1,3) s] drop_game_view(1,2) [OF assms(1) k(2)] k o DeleteGame
    by (auto simp: games_view_def)
next
  case (CreateSave n)
  then have n: "owned (db_sess d) (n_user n) (n_game n)" "\<not> no_bytes (n_state n)" "clean_name (n_name n)"
    using assms(2,5) by (auto simp: games_view_def)
  obtain k where k: "takes_place (db_shelf d (n_game n)) k (n_name n)" using assms(5) CreateSave by (auto simp: games_view_def)
  note at = db_create_save_at [OF assms(1,3) n, where u = u]
  have "\<exists>k d'. takes_place (db_shelf d (n_game n)) k (n_name n) \<and> snd (games_create_save u e n d) = d' \<and> db_sess d' = db_sess d
      \<and> db_shelf d' = (db_shelf d)(n_game n := (db_shelf d (n_game n))(k \<mapsto> stored_as k (now e) n))"
  proof (cases "\<exists>l m. db_shelf d (n_game n) l = Some m \<and> nocase (n_name m) (n_name n)")
    case True
    then obtain l m where l: "db_shelf d (n_game n) l = Some m" "nocase (n_name m) (n_name n)" by blast
    obtain d' where "games_create_save u e n d = (Inr (summarize (stored_as l (now e) n), True), d')" "db_sess d' = db_sess d"
        "db_shelf d' = (db_shelf d)(n_game n := (db_shelf d (n_game n))(l \<mapsto> stored_as l (now e) n))"
      using at(1) [OF l] by blast
    moreover have "takes_place (db_shelf d (n_game n)) l (n_name n)" using l by (simp add: takes_place_def)
    ultimately show ?thesis by (intro exI [of _ l]) simp
  next
    case False
    then have f: "\<forall>k m. db_shelf d (n_game n) k = Some m \<longrightarrow> \<not> nocase (n_name m) (n_name n)" by blast
    then have c: "card (dom (db_shelf d (n_game n))) < max_saves_per_game"
      using k by (auto simp: takes_place_def split: option.splits)
    obtain l d' where "games_create_save u e n d = (Inr (summarize (stored_as l (now e) n), False), d')" "db_sess d' = db_sess d"
        "db_shelf d (n_game n) l = None"
        "db_shelf d' = (db_shelf d)(n_game n := (db_shelf d (n_game n))(l \<mapsto> stored_as l (now e) n))"
      using at(2) [OF f c assms(4)] by blast
    moreover have "takes_place (db_shelf d (n_game n)) l (n_name n)" using calculation(3) f c by (simp add: takes_place_def)
    ultimately show ?thesis by (intro exI [of _ l]) simp
  qed
  then obtain l d' where l: "takes_place (db_shelf d (n_game n)) l (n_name n)" "snd (games_create_save u e n d) = d'"
      "db_sess d' = db_sess d" "db_shelf d' = (db_shelf d)(n_game n := (db_shelf d (n_game n))(l \<mapsto> stored_as l (now e) n))"
    by blast
  have "n\<lparr>n_game := n_game n\<rparr> = n" by simp
  with l n(1) names_itself(1) [OF n(1)] show ?thesis
    unfolding CreateSave game_write.simps l(2) games_view_def spec_move.simps
    by (intro exI [of _ "n_game n"] exI [of _ l] exI [of _ "now e"]) simp
next
  case (DeleteSave user i k)
  then obtain n where n: "owned (db_sess d) user i" "db_shelf d i k = Some n" using assms(5) by (auto simp: games_view_def)
  obtain d' where d': "games_delete_save u e user i k d = (Inr (summarize n), d')" "db_sess d' = db_sess d"
      "db_shelf d' = (db_shelf d)(i := (db_shelf d i)(k := None))"
    using db_delete_save_at [OF assms(1,3) n] by blast
  with n names_itself(1) [OF n(1)] names_itself(2) [OF n(2)] show ?thesis unfolding DeleteSave game_write.simps d'(1) snd_conv games_view_def spec_move.simps
    by (intro exI [of _ i] exI [of _ k]) simp
qed

lemma account_call_stands: "games_view (account_write u e c d) = games_view d"
  using same_games_seen [OF account_write_games [of d u e c]] by (simp add: games_view_def)

end
