(* ===== verification/Account_Properties.thy ===== *)
theory Account_Properties
  imports Db_Whole Sample_World
begin

text \<open>
  Properties of accounts, passwords, browser sessions and invitations over the database, each
  with a witness at a small world: one account, one invitation, a clock that has started, and
  cryptography that can be computed by hand.
\<close>

section \<open>A sample\<close>

definition sample_crypto :: crypto where
  "sample_crypto = \<lparr>sha256 = (\<lambda>s. word_of_nat (length s)),
     argon2id = (\<lambda>pw salt t m p n. replicate (unat n) (word_of_nat (length pw))),
     rand_read = (\<lambda>e n. Inr (replicate n 1))\<rparr>"

definition sample_mail :: mail_env where
  "sample_mail = \<lparr>me_unicode = plain, me_parse = Some\<rparr>"

definition started_env :: env where
  "started_env = sample_env\<lparr>clock := (\<lambda>k. int k + 1)\<rparr>"

definition sample_auth :: "db auth_service" where
  "sample_auth = \<lparr>as_store = user_ops plain, as_mail = sample_mail, as_crypto = sample_crypto\<rparr>"

definition sample_manager :: "db manager" where
  "sample_manager = \<lparr>mg_store = login_ops plain, mg_crypto = sample_crypto, mg_ttl = hour, mg_secure = True\<rparr>"

definition sample_invites :: "db invite_service" where
  "sample_invites = \<lparr>is_store = invite_db_ops, is_ttl = hour, is_mail = sample_mail, is_crypto = sample_crypto\<rparr>"

definition invited_db :: db where
  "invited_db = empty_db\<lparr>d_users := [(1, sample_user ''a@b'')],
     d_invites := [(1, \<lparr>i_token = 3, i_email = ''x@y'', i_created = 0, i_expires = hour, i_redeemed = None, i_user = None\<rparr>)]\<rparr>"

lemma sample_accounts_simps [simp]:
  "as_store sample_auth = user_ops plain" "as_mail sample_auth = sample_mail" "as_crypto sample_auth = sample_crypto"
  "mg_store sample_manager = login_ops plain" "mg_crypto sample_manager = sample_crypto" "mg_ttl sample_manager = hour"
  "mg_secure sample_manager" "is_store sample_invites = invite_db_ops" "is_mail sample_invites = sample_mail"
  "is_crypto sample_invites = sample_crypto" "me_unicode sample_mail = plain"
  by (simp_all add: sample_auth_def sample_manager_def sample_invites_def sample_mail_def)

lemma started_up [simp]: "db_up started_env" "db_up (nth_use k started_env)"
  by (simp_all add: db_up_def nth_use_def later_def started_env_def sample_env_def)

lemma started_clock [simp]: "clock_runs started_env" "clock_runs (nth_use k started_env)" "now started_env = 1"
    "now (nth_use k started_env) = 8 * int k + 1"
  by (simp_all add: clock_runs_def started_env_def now_def nth_use_def later_def sample_env_def)

lemma sample_crypto_ok: "crypto_ok sample_crypto"
  by (simp add: crypto_ok_def sample_crypto_def)

lemma sample_hash: "\<exists>h. hash_password sample_crypto e ''xyzzy123'' = Inr h"
  by (simp add: hash_password_def hash_with_def check_password_length_def min_password_length_def max_password_length_def
      sample_crypto_def)

lemma sample_address: "normalize_email sample_mail ''x@y'' = Inr ''x@y''"
  by (simp add: normalize_email_def sample_mail_def plain_def text_eval equal_fold_def max_email_length_def char_of_def bit_0 Let_def)

lemma invited_ok: "acct_inv invited_db" "acct_room invited_db"
  using sample_rows
  by (simp_all add: acct_inv_def table_ok_def invited_db_def empty_db_def invite_ok_def acct_room_def next_rowid_def
      max_rowid_def)

lemma invited_seen:
  "db_acc invited_db ''x@y'' = None"
  "db_ivt invited_db 3 = Some \<lparr>iv_email = ''x@y'', iv_expires = hour, iv_redeemed = 0, iv_user = []\<rparr>"
  "db_tok invited_db h = None"
  by (simp_all add: db_acc_def db_ivt_def db_tok_def invited_db_def empty_db_def sample_user_def seen_invite_def read_invitation_def)

lemma invited_known: "db_known invited_db (id_of 1)"
  using sample_rows by (simp add: db_known_def invited_db_def)


section \<open>Passwords\<close>

text \<open>
  C21: Whatever the costs, the salt and the key, the string a hash is stored as reads back as
  them; a fresh hash takes a password exactly when it derives the same key, and every check
  of one costs one derivation, with the default parameters.
\<close>

theorem hash_round_trips:
  assumes "hp_memory p \<noteq> 0" "hp_time p \<noteq> 0" "hp_threads p \<noteq> 0" "salt \<noteq> []" "key \<noteq> []"
    and "crypto_ok cr" "hash_password cr e password = Inr h"
  shows "decode_hash u (encode_hash p salt key) =
       Inr (p\<lparr>hp_salt_len := word_of_nat (length salt), hp_key_len := word_of_nat (length key)\<rparr>, salt, key)
    \<and> verify_password cr u h attempt =
       (if key_for cr u h attempt = key_for cr u h password then Inr () else Inl (Sentinel ErrPasswordMismatch))
    \<and> verify_password cr u h password = Inr () \<and> verify_work u h = [default_params]"
  using decode_encode_hash [OF assms(1-5)] verify_fresh_hash [OF assms(6,7)] by simp

theorem hash_round_trips_witness:
  "\<exists>h. hash_password sample_crypto sample_env ''xyzzy123'' = Inr h \<and> verify_password sample_crypto plain h ''xyzzy123'' = Inr ()
    \<and> decode_hash plain (encode_hash default_params [1, 2] [3]) = Inr (default_params\<lparr>hp_salt_len := 2, hp_key_len := 1\<rparr>, [1, 2], [3])"
proof -
  obtain h where h: "hash_password sample_crypto sample_env ''xyzzy123'' = Inr h" using sample_hash by blast
  have "hp_memory default_params \<noteq> 0" "hp_time default_params \<noteq> 0" "hp_threads default_params \<noteq> 0"
    by (simp_all add: default_params_def)
  from hash_round_trips [OF this _ _ sample_crypto_ok h, of "[1, 2]" "[3]" plain] h show ?thesis by simp
qed

text \<open>
  C22: Every refused login answers the same, ErrInvalidCredentials, and does the same work: an
  address with no account, text that is no address, and a wrong password each cost one
  derivation with the parameters every stored hash has, as a login that is let in does. Only
  the one login of the process that first needs the decoy does a second one, of the same
  cost, to make it; from then on there is no difference. A login that is let in had the
  address of an account and gave that account's key. (The random source works, which is what
  crypto/rand promises, and the stored hashes were made with the present parameters.)
\<close>

theorem refusals_look_alike:
  assumes "as_store a = user_ops u" "acct_inv d" "db_up e" "crypto_ok (as_crypto a)"
    and "rand_read (as_crypto a) e 16 = Inr salt" "decoy_sound (as_crypto a) c"
    and "hashed_here (me_unicode (as_mail a)) (db_acc d)"
  shows "\<exists>r work c'. auth_authenticate a c e email password d = (Some (r, work), c')
    \<and> decoy_sound (as_crypto a) c'
    \<and> (case r of
          Inl err \<Rightarrow> err = Sentinel ErrInvalidCredentials
            \<and> (c' = c \<and> work = [default_params]
               \<or> c = DecoyUnmade \<and> (\<exists>h. c' = DecoyMade h) \<and> work = [default_params, default_params])
        | Inr w \<Rightarrow> c' = c \<and> work = [default_params]
            \<and> (\<exists>h p salt key. normalize_email (as_mail a) email = Inr (us_email w) \<and> db_acc d (us_email w) = Some (us_id w, h)
                \<and> decode_hash (me_unicode (as_mail a)) h = Inr (p, salt, key)
                \<and> key_for (as_crypto a) (me_unicode (as_mail a)) h password = Some key))"
proof -
  obtain r work c' where r: "auth_authenticate a c e email password d = (Some (r, work), c')" "decoy_sound (as_crypto a) c'"
      "c' = c \<and> work = [default_params]
         \<or> c = DecoyUnmade \<and> (\<exists>h. c' = DecoyMade h) \<and> work = [default_params, default_params] \<and> isl r"
      "\<And>err. r = Inl err \<Longrightarrow> err = Sentinel ErrInvalidCredentials"
    using users.logins_alike [OF assms] by blast
  show ?thesis
  proof (cases r)
    case (Inl err)
    with r show ?thesis by auto
  next
    case (Inr w)
    from users.login_sound [OF assms(1,2) r(1) [unfolded Inr]] Inr r show ?thesis by auto
  qed
qed

theorem refusals_look_alike_witness:
  "\<exists>h. auth_authenticate sample_auth DecoyUnmade started_env ''x@y'' ''xyzzy'' empty_db
      = (Some (Inl (Sentinel ErrInvalidCredentials), [default_params, default_params]), DecoyMade h)
    \<and> auth_authenticate sample_auth (DecoyMade h) started_env ''x@y'' ''xyzzy'' empty_db
      = (Some (Inl (Sentinel ErrInvalidCredentials), [default_params]), DecoyMade h)"
proof -
  have none: "db_acc empty_db m = None" for m by (simp add: db_acc_def empty_db_def)
  then have h: "hashed_here (me_unicode (as_mail sample_auth)) (db_acc empty_db)" by (simp add: hashed_here_def)
  have rd: "rand_read (as_crypto sample_auth) started_env 16 = Inr (replicate 16 1)" by (simp add: sample_crypto_def)
  have ok: "crypto_ok (as_crypto sample_auth)" using sample_crypto_ok by simp
  note alike = refusals_look_alike [OF sample_accounts_simps(1) acct_inv_empty started_up(1) ok rd _ h, of _ "''x@y''" "''xyzzy''"]
  have un: "decoy_sound (as_crypto sample_auth) DecoyUnmade" by (simp add: decoy_sound_def)
  have miss: "auth_authenticate sample_auth c started_env ''x@y'' ''xyzzy'' empty_db = refuse_unknown sample_auth c started_env" for c
    by (rule users.login_unknown [OF sample_accounts_simps(1) acct_inv_empty started_up(1)]) (rule none)
  obtain h where f: "auth_authenticate sample_auth DecoyUnmade started_env ''x@y'' ''xyzzy'' empty_db
      = (Some (Inl (Sentinel ErrInvalidCredentials), [default_params, default_params]), DecoyMade h)"
      "decoy_sound (as_crypto sample_auth) (DecoyMade h)"
    using refuse_unknown_works [OF ok rd un] unfolding miss by auto
  have "auth_authenticate sample_auth (DecoyMade h) started_env ''x@y'' ''xyzzy'' empty_db
      = (Some (Inl (Sentinel ErrInvalidCredentials), [default_params]), DecoyMade h)"
  proof (rule exE [OF alike [OF f(2)]], elim exE conjE)
    fix r work c'
    assume "auth_authenticate sample_auth (DecoyMade h) started_env ''x@y'' ''xyzzy'' empty_db = (Some (r, work), c')"
      "case r of Inl err \<Rightarrow> err = Sentinel ErrInvalidCredentials
            \<and> (c' = DecoyMade h \<and> work = [default_params]
               \<or> DecoyMade h = DecoyUnmade \<and> (\<exists>h. c' = DecoyMade h) \<and> work = [default_params, default_params])
        | Inr w \<Rightarrow> c' = DecoyMade h \<and> work = [default_params]
            \<and> (\<exists>k p salt key. normalize_email (as_mail sample_auth) ''x@y'' = Inr (us_email w) \<and> db_acc empty_db (us_email w) = Some (us_id w, k)
                \<and> decode_hash (me_unicode (as_mail sample_auth)) k = Inr (p, salt, key)
                \<and> key_for (as_crypto sample_auth) (me_unicode (as_mail sample_auth)) k ''xyzzy'' = Some key)"
    then show ?thesis using none by (cases r) auto
  qed
  with f(1) show ?thesis by blast
qed


section \<open>Browser sessions\<close>

text \<open>
  C23: A login gives the browser a cookie that scripts cannot read and that is sent over TLS alone
  (unless configured otherwise), and whatever other logins, requests, logouts and sweeps
  follow, that cookie stands for that user until its session is logged out or expires, and for
  nobody from the moment it expires.
\<close>

theorem session_lasts:
  assumes "mg_store m = login_ops u" "acct_inv d" "db_up (nth_use 1 e)" "acct_room d" "db_known d user"
    and "rand_read (mg_crypto m) e token_bytes = Inr raw" "raw \<noteq> []"
    and "db_tok d (hash_token (mg_crypto m) (b64url_encode raw)) = None"
    and "\<forall>(e', q) \<in> set qs. users_known db_known d q \<and> \<not> logs_out (mg_crypto m) (b64url_encode raw) q
        \<and> clock_before (now e + mg_ttl m) e'"
    and "db_up e1" "db_up (nth_use 2 e1)"
  shows "\<exists>c d1. manager_start m e user d = (Inr c, d1) \<and> ck_http_only c \<and> ck_lax c \<and> ck_secure c = mg_secure m
    \<and> fst (manager_user_id m e1 (Some (ck_value c)) (manager_all m qs d1)) =
        (if now (nth_use 1 e1) < now e + mg_ttl m then Inr user else Inl (Sentinel ErrNoSession))"
proof -
  let ?s = "\<lparr>lg_user = user, lg_expires = now e + mg_ttl m\<rparr>" and ?h = "hash_token (mg_crypto m) (b64url_encode raw)"
  have user: "user \<noteq> []" using assms(5) by (auto simp: is_user_known)
  have tok: "b64url_encode raw \<noteq> []" using assms(7) by (simp add: b64url_encode_def b64_encode_nil)
  obtain c d1 where c: "manager_start m e user d = (Inr c, d1)" "ck_value c = b64url_encode raw" "ck_http_only c" "ck_lax c"
      "ck_secure c = mg_secure m" "acct_inv d1" "db_tok d1 = (db_tok d)(?h \<mapsto> ?s)"
    using logins.start_ok [OF assms(1-5) user assms(6,8)] by auto
  have "db_known d1 = db_known d"
    using logins.do_keeps [OF assms(1,2), of "LogIn user" e] assms(5) c(1) by (simp add: users_known_def manager_do_def)
  then have q: "\<forall>(e', q) \<in> set qs. users_known db_known d1 q" using assms(9) by (auto simp: users_known_def split: session_call.splits)
  have q': "\<forall>(e', q) \<in> set qs. users_known db_known d1 q \<and> \<not> logs_out (mg_crypto m) (b64url_encode raw) q
      \<and> clock_before (lg_expires ?s) e'" using q assms(9) by auto
  note inv = logins.all_keep [OF assms(1) c(6) q]
  have held: "db_tok (manager_all m qs d1) ?h = Some ?s"
    using logins.all_keep_session [OF assms(1) c(6) q'] c(7) by simp
  show ?thesis
  proof (cases "now (nth_use 1 e1) < now e + mg_ttl m")
    case True
    with logins.look_live [OF assms(1) conjunct1 [OF inv] assms(10) tok held] c show ?thesis by auto
  next
    case False
    with logins.look_dead [OF assms(1) conjunct1 [OF inv] assms(10,11), of "b64url_encode raw"] held c show ?thesis by auto
  qed
qed

definition still_env :: env where
  "still_env = started_env\<lparr>clock := (\<lambda>_. 1)\<rparr>"

lemma still_clock [simp]: "clock_before t still_env \<longleftrightarrow> 1 < t"
  by (auto simp: clock_before_def still_env_def)

theorem session_lasts_witness:
  "\<exists>c d1. manager_start sample_manager started_env (id_of 1) invited_db = (Inr c, d1)
     \<and> fst (manager_user_id sample_manager started_env (Some (ck_value c))
         (manager_all sample_manager [(still_env, LogIn (id_of 1)), (still_env, SweepSessions)] d1)) = Inr (id_of 1)"
proof -
  let ?qs = "[(still_env, LogIn (id_of 1)), (still_env, SweepSessions)]"
  have r: "rand_read (mg_crypto sample_manager) started_env token_bytes = Inr (replicate 32 1)"
    by (simp add: sample_crypto_def token_bytes_def)
  have h: "hour = 3600000000000" by (simp add: hour_def minute_def second_def)
  have "\<forall>(e', q) \<in> set ?qs. users_known db_known invited_db q
      \<and> \<not> logs_out (mg_crypto sample_manager) (b64url_encode (replicate 32 1)) q
      \<and> clock_before (now started_env + mg_ttl sample_manager) e'"
    using invited_known by (simp add: users_known_def logs_out_def h)
  from session_lasts [OF sample_accounts_simps(4) invited_ok(1) started_up(2) invited_ok(2) invited_known r _ invited_seen(3) this
        started_up(1) started_up(2)]
  show ?thesis by (simp only: started_clock sample_accounts_simps h) (auto simp del: manager_all.simps)
qed


text \<open>
  C24: Once a session is logged out its cookie is worth nothing: whatever follows, short of a
  login drawing the same 32 random bytes, a request that carries it is nobody's.
\<close>

theorem logged_out_for_good:
  assumes "mg_store m = login_ops u" "acct_inv d" "db_up e" "v \<noteq> []"
    and "\<forall>(e', q) \<in> set qs. users_known db_known d q \<and> \<not> draws (mg_crypto m) e' q (hash_token (mg_crypto m) v)"
  shows "\<exists>d1. manager_end m e (Some v) d = ((Inr (), clear_cookie m), d1)
    \<and> (\<forall>e1 user. fst (manager_user_id m e1 (Some v) (manager_all m qs d1)) \<noteq> Inr user)"
proof -
  let ?h = "hash_token (mg_crypto m) v"
  obtain d1 where d1: "manager_end m e (Some v) d = ((Inr (), clear_cookie m), d1)" "acct_inv d1"
      "db_tok d1 = (db_tok d)(?h := None)"
    using logins.end_ok [OF assms(1-4)] by auto
  have "db_known d1 = db_known d"
    using logins.do_keeps [OF assms(1,2), of "LogOut (Some v)" e] d1(1) by (simp add: users_known_def manager_do_def)
  then have q: "\<forall>(e', q) \<in> set qs. users_known db_known d1 q" "\<forall>(e', q) \<in> set qs. users_known db_known d1 q \<and> \<not> draws (mg_crypto m) e' q ?h"
    using assms(5) by (auto simp: users_known_def split: session_call.splits)
  have none: "db_tok (manager_all m qs d1) ?h = None"
    using logins.all_stay_dead [OF assms(1) d1(2) _ q(2)] d1(3) by simp
  note inv = conjunct1 [OF logins.all_keep [OF assms(1) d1(2) q(1)]]
  have "fst (manager_user_id m e1 (Some v) (manager_all m qs d1)) \<noteq> Inr user" for e1 user
    using logins.look_sound [OF assms(1) inv, of e1 "Some v" user] none by auto
  with d1(1) show ?thesis by blast
qed

theorem logged_out_for_good_witness:
  "\<exists>d1. manager_end sample_manager started_env (Some ''abc'') invited_db = ((Inr (), clear_cookie sample_manager), d1)
     \<and> fst (manager_user_id sample_manager started_env (Some ''abc'')
          (manager_all sample_manager [(started_env, Look (Some ''abc'')), (started_env, SweepSessions)] d1)) \<noteq> Inr (id_of 1)"
proof -
  have "\<forall>(e', q) \<in> set [(started_env, Look (Some ''abc'')), (started_env, SweepSessions)]. users_known db_known invited_db q
      \<and> \<not> draws (mg_crypto sample_manager) e' q (hash_token (mg_crypto sample_manager) ''abc'')"
    by (simp add: users_known_def draws_def)
  from logged_out_for_good [OF sample_accounts_simps(4) invited_ok(1) started_up(1) _ this]
  show ?thesis by (auto simp del: manager_all.simps)
qed

section \<open>Invitations\<close>

text \<open>
  C25: An invitation makes one account. However calls to issue, look at, redeem and sweep
  invitations follow each other, a token is redeemed no more often than it is issued (once, if
  it was waiting at the start), and an address comes to have an account only by redeeming an
  invitation.
\<close>

theorem accounts_need_invitations:
  assumes "is_store s = invite_db_ops" "\<forall>(e, q) \<in> set qs. clock_runs e" "acct_inv d" "invite_all s qs d = (evs, d')"
  shows "times_redeemed h evs \<le> times_issued h evs
      + (case db_ivt d h of None \<Rightarrow> 0 | Some i \<Rightarrow> if is_zero (iv_redeemed i) then 1 else 0)
    \<and> (db_acc d m = None \<longrightarrow> db_acc d' m \<noteq> None \<longrightarrow> (\<exists>h. Redeemed h m \<in> set evs))"
  using invites.redeemed_at_most [OF assms] invites.accounts_are_invited [OF assms] by blast

theorem accounts_need_invitations_witness:
  "\<exists>evs d'. invite_all sample_invites [(started_env, Redeem ''abc'' ''x@y'' ''xyzzy123''), (started_env, Redeem ''abc'' ''x@y'' ''other123'')]
      invited_db = (evs, d') \<and> times_redeemed 3 evs \<le> times_issued 3 evs + 1"
proof -
  let ?qs = "[(started_env, Redeem ''abc'' ''x@y'' ''xyzzy123''), (started_env, Redeem ''abc'' ''x@y'' ''other123'')]"
  obtain evs d' where c: "invite_all sample_invites ?qs invited_db = (evs, d')" by force
  have "\<forall>(e, q) \<in> set ?qs. clock_runs e" by simp
  from accounts_need_invitations [OF sample_accounts_simps(8) this invited_ok(1) c, of 3] invited_seen(2) c show ?thesis
    by (simp add: del: invite_all.simps)
qed

text \<open>
  C26: An invited person gets in: redeeming a live invitation for its address makes the account,
  the password then logs in as that account, and the invitation is spent, for this address and
  any other.
\<close>

theorem invited_person_gets_in:
  assumes "is_store s = invite_db_ops" "as_store a = user_ops u" "as_mail a = is_mail s" "as_crypto a = is_crypto s"
    and "crypto_ok (is_crypto s)" "acct_inv d" "acct_room d" "db_up e" "db_up (nth_use 2 e)" "clock_runs e"
    and "token \<noteq> []" "db_ivt d (hash_token (is_crypto s) token) = Some i" "redeemable i (now (nth_use 1 e))"
    and "normalize_email (is_mail s) email = Inr (iv_email i)" "db_acc d (iv_email i) = None" "check_text (iv_email i)"
    and "hash_password (is_crypto s) e password = Inr hash" "db_up e'"
  shows "\<exists>w d'. invite_redeem s e token email password d = (Inr w, d') \<and> us_email w = iv_email i
    \<and> (\<forall>c. \<exists>work. auth_authenticate a c e' email password d' = (Some (Inr w, work), c))
    \<and> (\<forall>email' password'. invite_redeem s e' token email' password' d' = (Inl (Sentinel ErrNotInvited), d'))"
proof -
  let ?u = "me_unicode (is_mail s)"
  have "check_text hash" using assms(17)
    by (auto simp: hash_password_def hash_with_def bind_r_Inr encode_hash_def check_text_def)
  then have fits: "user_fits \<lparr>ac_user = zero_user\<lparr>us_email := iv_email i\<rparr>, ac_hash = hash\<rparr>"
    using assms(16) by (simp add: user_fits_def)
  obtain w d' where w: "invite_redeem s e token email password d = (Inr w, d')" "us_email w = iv_email i"
      "db_acc d' = (db_acc d)(iv_email i \<mapsto> (us_id w, hash))" "acct_inv d'"
      "db_ivt d' = (db_ivt d)(hash_token (is_crypto s) token \<mapsto> spent_by (now (nth_use 1 e)) w i)"
    using invites.redeem_ok [OF assms(1,6,8,9,7,11-15,17) fits assms(10)] by blast
  obtain salt key where k: "decode_hash ?u hash = Inr (default_params, salt, key)" "key_for (is_crypto s) ?u hash password = Some key"
    using hash_password_read [OF assms(5,17)] by blast
  have "db_acc d' (iv_email i) = Some (us_id w, hash)" using w(3) by simp
  from users.login_found [OF assms(2) w(4) assms(18) _ this, of email default_params salt key] k assms(3,4,14)
  have "auth_authenticate a c e' email password d' = (Some (Inr \<lparr>us_id = us_id w, us_email = iv_email i\<rparr>, [default_params]), c)" for c
    by simp
  moreover have "\<lparr>us_id = us_id w, us_email = iv_email i\<rparr> = w" using w(2) by (cases w) simp
  moreover have "invite_redeem s e' token email' password' d' = (Inl (Sentinel ErrNotInvited), d')" for email' password'
    using invites.redeem_useless [OF assms(1) w(4) assms(18)] w(5) clock_runs_now [OF assms(10), of 1]
    by (simp add: redeemable_def spent_by_def)
  ultimately show ?thesis using w(1,2) by auto
qed

theorem invited_person_gets_in_witness:
  "\<exists>w d'. invite_redeem sample_invites started_env ''abc'' ''x@y'' ''xyzzy123'' invited_db = (Inr w, d') \<and> us_email w = ''x@y''
    \<and> (\<exists>work. auth_authenticate sample_auth DecoyUnmade started_env ''x@y'' ''xyzzy123'' d' = (Some (Inr w, work), DecoyUnmade))"
proof -
  obtain h where h: "hash_password sample_crypto started_env ''xyzzy123'' = Inr h" using sample_hash by blast
  let ?i = "\<lparr>iv_email = ''x@y'', iv_expires = hour, iv_redeemed = 0, iv_user = []\<rparr>"
  have t: "db_ivt invited_db (hash_token sample_crypto ''abc'') = Some \<lparr>iv_email = ''x@y'', iv_expires = hour, iv_redeemed = 0, iv_user = []\<rparr>"
    using invited_seen(2) by (simp add: hash_token_def sample_crypto_def)
  have "hour = 3600000000000" by (simp add: hour_def minute_def second_def)
  with invited_person_gets_in [OF sample_accounts_simps(8,1) _ _ _ invited_ok, of started_env "''abc''" ?i "''x@y''" "''xyzzy123''" h started_env]
    t h sample_crypto_ok invited_seen(1) sample_address
  have "\<exists>w d'. invite_redeem sample_invites started_env ''abc'' ''x@y'' ''xyzzy123'' invited_db = (Inr w, d') \<and> us_email w = iv_email ?i
    \<and> (\<forall>c. \<exists>work. auth_authenticate sample_auth c started_env ''x@y'' ''xyzzy123'' d' = (Some (Inr w, work), c))
    \<and> (\<forall>email' password'. invite_redeem sample_invites started_env ''abc'' email' password' d' = (Inl (Sentinel ErrNotInvited), d'))"
    by (simp add: redeemable_def check_text_def)
  then show ?thesis by auto
qed

end
