(* ===== verification/Web_Properties.thy ===== *)
theory Web_Properties
  imports Web_Access Db_Refines Account_Properties Terminal
begin

text \<open>
  Properties of the server in front of the database: any request is answered and keeps the
  constraints, a request touches its own user's games alone, refused attempts run nothing,
  and what the rate limiter, the health probe and the terminal text promise; with the
  refinement of the store's specification by the database.
\<close>

section \<open>A sample\<close>

definition sample_server :: "(bytes, bytes, db) server" where
  "sample_server = \<lparr>srv_games = sample_service (games_ops plain), srv_accounts = sample_auth, srv_sessions = sample_manager,
     srv_invites = sample_invites, srv_library = sample_library, srv_trusted = [], srv_visit = (\<lambda>_ m. m)\<rparr>"

definition sample_web :: "db web" where
  "sample_web = \<lparr>wb_store = sample_db, wb_logins = login_limit, wb_registers = register_limit, wb_decoy = DecoyUnmade, wb_health = new_probe\<rparr>"

definition sample_request :: "string \<Rightarrow> string list \<Rightarrow> string \<Rightarrow> Web_Page.request" where
  "sample_request m path body = \<lparr>rq_method = m, rq_path = path, rq_peer = \<lparr>pi_remote = ''127.0.0.1:9'', pi_forwarded = []\<rparr>,
     rq_query = [], rq_type = UrlEncoded, rq_body = body, rq_cookie = None, rq_hx = [], rq_fetch_site = ''same-origin'',
     rq_origin = None, rq_host = ''localhost''\<rparr>"

lemma sample_server_simps [simp]:
  "db_server plain sample_server" "engine_ok (svc_engine (srv_games sample_server))" "fair_visit (srv_visit sample_server)"
  "srv_sessions sample_server = sample_manager"
  using sample_engine_ok by (simp_all add: sample_server_def db_server_def fair_visit_def)

lemma sample_acct_inv: "acct_inv sample_db"
  using sample_rows by (simp add: acct_inv_def table_ok_def sample_db_def empty_db_def sample_user_def)

lemma sample_web_ok: "whole_inv (wb_store sample_web)" "web_limits_ok sample_web" "wb_store sample_web = sample_db"
proof -
  show "whole_inv (wb_store sample_web)" using sample_inv sample_acct_inv by (simp add: sample_web_def whole_inv_def)
  have "server_new (Some (srv_games sample_server)) (Some sample_auth) (Some sample_manager) (Some sample_invites)
      (Some sample_library) (Some new_probe) (\<lambda>_ m. m) [] sample_db = Inr (sample_server, sample_web)"
    by (simp add: server_new_def sample_server_def sample_web_def)
  then show "web_limits_ok sample_web" by (rule server_new_limits)
qed (simp add: sample_web_def)

section \<open>Any request\<close>

text \<open>
  C27: Every request is answered: the server, the limiters' eviction loops included, returns for
  every sequence of requests, whatever fails beneath it (with a closed connection where making
  the decoy hash panics); and afterwards the five tables keep
  their constraints (keys, foreign keys, unique columns, checks, twenty saves a game) and the
  limiters their bounds.
\<close>

theorem requests_are_answered:
  assumes "db_server u s" "fair_visit (srv_visit s)" "web_limits_ok w" "whole_inv (wb_store w)"
    and "\<forall>(e, r) \<in> set rs. clock_runs e"
  shows "\<exists>as w'. serve_all s rs w = Some (as, w') \<and> length as = length rs \<and> whole_inv (wb_store w') \<and> web_limits_ok w'"
  using serve_all_ends [OF assms] .

theorem requests_are_answered_witness:
  "\<exists>as w'. serve_all sample_server [(started_env, sample_request ''POST'' [''login''] ''email=a@b&password=x''),
      (started_env, sample_request ''GET'' [''games'', id_of 1] [])] sample_web = Some (as, w') \<and> length as = 2
      \<and> whole_inv (wb_store w')"
proof -
  let ?rs = "[(started_env, sample_request ''POST'' [''login''] ''email=a@b&password=x''),
      (started_env, sample_request ''GET'' [''games'', id_of 1] [])]"
  have "\<forall>(e, r) \<in> set ?rs. clock_runs e" by simp
  from requests_are_answered [OF sample_server_simps(1,3) sample_web_ok(2,1) this]
  obtain as w' where "serve_all sample_server ?rs sample_web = Some (as, w')" "length as = length ?rs" "whole_inv (wb_store w')"
    by (elim exE conjE) (rule that)
  then show ?thesis by (intro exI [of _ as] exI [of _ w']) (simp del: serve_all.simps)
qed

text \<open>
  C28: A request changes only the games of the account its session belongs to: with no cookie, or
  one whose session is unknown, expired or another account's, a game and its saves stay as
  they are, whatever the request asks; and without a live session a game page answers with
  the way to the login page.
\<close>

theorem requests_reach_own_games_only:
  assumes "db_server u s" "engine_ok (svc_engine (srv_games s))" "whole_inv (wb_store w)" "clock_runs e"
    and "serve s e r w = Some (a, w')"
  shows "case acts_for (mg_crypto (srv_sessions s)) (now (nth_use 1 e)) (rq_cookie r) (wb_store w) of
      None \<Rightarrow> db_sess (wb_store w') = db_sess (wb_store w) \<and> db_shelf (wb_store w') = db_shelf (wb_store w)
        \<and> (\<not> cross_origin r \<and> (\<exists>g. route_of r = Some (Game g)) \<longrightarrow> a = redirect_to_login r)
    | Some user \<Rightarrow> (\<forall>i x. db_sess (wb_store w) i = Some x \<and> s_user x \<noteq> user \<longrightarrow>
        db_sess (wb_store w') i = Some x \<and> db_shelf (wb_store w') i = db_shelf (wb_store w) i)"
  using serve_access [OF assms] .

theorem requests_reach_own_games_only_witness:
  "\<exists>a w'. serve sample_server started_env (sample_request ''POST'' [''games'', id_of 1, ''delete''] []) sample_web = Some (a, w')
     \<and> a = redirect_to_login (sample_request ''POST'' [''games'', id_of 1, ''delete''] [])
     \<and> db_sess (wb_store w') (id_of 1) = Some (session_of_row 1 sample_game)"
proof -
  let ?r = "sample_request ''POST'' [''games'', id_of 1, ''delete''] []"
  obtain a w' where s: "serve sample_server started_env ?r sample_web = Some (a, w')"
    using serve_ends [OF sample_server_simps(3) sample_web_ok(2)] by blast
  have r: "\<not> cross_origin ?r" "route_of ?r = Some (Game (DeleteGamePage (id_of 1)))" "rq_cookie ?r = None"
    by (simp_all add: cross_origin_def sample_request_def route_of_def getting_def post_route_def)
  from requests_reach_own_games_only [OF sample_server_simps(1,2) sample_web_ok(1) started_clock(1) s] r s sample_sess
  show ?thesis by (simp add: acts_for_def sample_web_ok)
qed


section \<open>The rate limiter\<close>


text \<open>
  C29: However the server sweeps its buckets, forgetting one that has refilled is never seen: asked
  about no more keys than it tracks, by a clock that does not go back, the limiter answers
  as one bucket per key kept for ever would.
\<close>

theorem sweeping_is_invisible:
  assumes "fair_visit visit" "1 \<le> burst" "burst \<le> 2 ^ 53" "0 < refill" "refill \<le> 2 ^ 53" "sorted (map fst qs)"
    and "int (card (snd ` set qs)) \<le> lm_max (new_limiter burst refill mx)"
  shows "\<exists>l'. allow_all visit qs (new_limiter burst refill mx) =
      Some (ref_all (new_limiter burst refill mx) qs Map.empty, l') \<and> limiter_inv l'"
proof -
  let ?l = "new_limiter burst refill mx"
  have inv: "limiter_inv ?l" by (rule new_limiter_inv) (use assms in simp_all)
  have "forgets_full ?l t Map.empty" for t by (simp add: forgets_full_def new_limiter_def)
  moreover obtain t where "sorted (t # map fst qs)"
  proof (cases qs)
    case (Cons q qs')
    then have "sorted (fst q # map fst qs)" using assms(6) by auto
    then show ?thesis by (rule that)
  qed (use that in simp)
  ultimately obtain l' where l': "allow_all visit qs ?l = Some (ref_all ?l qs Map.empty, l')"
    using allow_all_ref [OF assms(1) inv, of t Map.empty qs "snd ` set qs"] assms(7) by (auto simp: new_limiter_def)
  with allow_all_inv [OF assms(1) inv, of qs] show ?thesis by auto
qed

theorem sweeping_is_invisible_witness:
  "\<exists>l'. allow_all (\<lambda>_ m. m) [(0, ''a''), (hour, ''b''), (2 * hour, ''a'')] (new_limiter 5 minute 2) =
      Some (ref_all (new_limiter 5 minute 2) [(0, ''a''), (hour, ''b''), (2 * hour, ''a'')] Map.empty, l')"
proof -
  let ?qs = "[(0, ''a''), (hour, ''b''), (2 * hour, ''a'')]"
  have "fair_visit (\<lambda>_ m. m)" "0 < minute" "minute \<le> 2 ^ 53" "sorted (map fst ?qs)"
      "int (card (snd ` set ?qs)) \<le> lm_max (new_limiter 5 minute 2)"
    by (simp_all add: fair_visit_def new_limiter_def duration_defs card_insert_if)
  from sweeping_is_invisible [OF this(1) _ _ this(2-5)]
  obtain l' where "allow_all (\<lambda>_ m. m) ?qs (new_limiter 5 minute 2) = Some (ref_all (new_limiter 5 minute 2) ?qs Map.empty, l')"
    by auto
  then show ?thesis by (rule exI)
qed






text \<open>
  C32: An attempt past the limit runs nothing: a login or a registration that is refused is
  answered 429, with a whole number of seconds of at least one to wait, from the limiters and
  the form alone: the answer is the same over any store, and the store is left as it was.
\<close>

theorem refused_attempt_runs_nothing:
  assumes "\<not> cross_origin r" "route_of r = Some PostLogin \<and> l = wb_logins w \<or> route_of r = Some PostRegister \<and> l = wb_registers w"
    and "parse_form r = Inr form" "try_attempt s e r (form_get form ''email'') l = Some ((retry, False), l')"
  shows "\<exists>a n. rs_status a = 429 \<and> rs_retry_after a = Some n \<and> 1 \<le> n
    \<and> (\<forall>st. serve s e r (w\<lparr>wb_store := st\<rparr>) = Some (a, (if route_of r = Some PostLogin then w\<lparr>wb_store := st, wb_logins := l'\<rparr>
          else w\<lparr>wb_store := st, wb_registers := l'\<rparr>)))"
proof -
  let ?email = "form_get form ''email''"
  let ?view = "no_credentials\<lparr>cv_min_password := min_password_length, cv_email := ?email, cv_invite := form_get form ''invite'', cv_invited := True\<rparr>"
  let ?login = "too_many_attempts LoginPage retry (no_credentials\<lparr>cv_email := ?email\<rparr>)"
    and ?register = "too_many_attempts RegisterPage retry ?view"
  have t: "rs_status (too_many_attempts pg retry v) = 429"
      "rs_retry_after (too_many_attempts pg retry v) = Some (retry_after_seconds retry)" for pg v
    by (simp_all add: too_many_attempts_def render_page_def answer_plain_def)
  have n: "1 \<le> retry_after_seconds retry" by (simp add: retry_after_seconds_def)
  from assms(2) show ?thesis
  proof
    assume "route_of r = Some PostLogin \<and> l = wb_logins w"
    with assms(1,3,4) t n show ?thesis
      by (intro exI [of _ ?login] exI [of _ "retry_after_seconds retry"]) (simp add: serve_def log_in_def)
  next
    assume "route_of r = Some PostRegister \<and> l = wb_registers w"
    with assms(1,3,4) t n show ?thesis
      by (intro exI [of _ ?register] exI [of _ "retry_after_seconds retry"]) (simp add: serve_def register_def Let_def)
  qed
qed

definition spent_limit :: attempt_limit where
  "spent_limit = login_limit\<lparr>al_source := (al_source login_limit)\<lparr>lm_buckets := [(''127.0.0.1'', \<lparr>bk_tokens = 0, bk_seen = 1\<rparr>)]\<rparr>\<rparr>"

theorem refused_attempt_runs_nothing_witness:
  "\<exists>a l'. serve sample_server started_env (sample_request ''POST'' [''login''] ''email=a@b'') (sample_web\<lparr>wb_logins := spent_limit\<rparr>)
     = Some (a, sample_web\<lparr>wb_logins := l'\<rparr>) \<and> rs_status a = 429"
proof -
  let ?r = "sample_request ''POST'' [''login''] ''email=a@b''"
  have r: "\<not> cross_origin ?r" "route_of ?r = Some PostLogin"
    by (simp_all add: cross_origin_def sample_request_def route_of_def getting_def post_route_def)
  have f: "parse_form ?r = Inr [(''email'', ''a@b'')]" by code_simp
  have src: "source_key (rq_peer ?r) = ''127.0.0.1''" by code_simp
  have key: "client_ip (srv_trusted sample_server) (rq_peer ?r) = ''127.0.0.1''"
    unfolding client_ip_def src by (simp add: sample_server_def Let_def)
  have "refilled (al_source spent_limit) \<lparr>bk_tokens = 0, bk_seen = 1\<rparr> 1 = 0" by (simp add: refilled_def time_sub_def Let_def)
  then have "\<exists>retry l'. try_attempt sample_server started_env ?r ''a@b'' spent_limit = Some ((retry, False), l')"
    unfolding try_attempt_def attempt_def key
    by (simp add: attempt_allow_def allow_def spend_def spent_limit_def login_limit_def)
  then obtain retry l' where "try_attempt sample_server started_env ?r (form_get [(''email'', ''a@b'')] ''email'')
      (wb_logins (sample_web\<lparr>wb_logins := spent_limit\<rparr>)) = Some ((retry, False), l')" by (auto simp: form_get_def)
  from refused_attempt_runs_nothing [OF r(1) disjI1 [OF conjI [OF r(2) refl]] f this]
  obtain a where a: "rs_status a = 429" "\<And>st. serve sample_server started_env ?r (sample_web\<lparr>wb_logins := spent_limit, wb_store := st\<rparr>)
      = Some (a, sample_web\<lparr>wb_store := st, wb_logins := l'\<rparr>)" using r(2) by auto
  from a(2) [of "wb_store sample_web"] a(1) show ?thesis by (intro exI [of _ a] exI [of _ l']) simp
qed


section \<open>The store, the probe and the screen\<close>

text \<open>
  C33: The database refines the abstract store of games and saves: a call of any store either
  leaves the two maps as they are or moves them as the specification of that call says (calls on
  accounts never move them), and when the database works a call the specification
  lets move does move. Fresh identifiers are fresh, a version is replaced by the next one alone,
  a save takes the place of the one save by its name or a free one of twenty on the shelf of the
  game it names, and a deletion takes the game or the save its identifier denotes, a game with
  its shelf, and no other.
\<close>

theorem database_refines_store:
  assumes "whole_inv d" "case c of Inl g \<Rightarrow> call_fits d g | Inr _ \<Rightarrow> True"
  shows "case c of
      Inl g \<Rightarrow> (games_view (db_write u e c d) = games_view d \<or> spec_move g (games_view d) (games_view (db_write u e c d)))
        \<and> (db_up e \<and> db_room d \<and> spec_enabled g (games_view d) \<longrightarrow> spec_move g (games_view d) (games_view (db_write u e c d)))
    | Inr _ \<Rightarrow> games_view (db_write u e c d) = games_view d"
proof (cases c)
  case (Inl g)
  have d: "db_inv d" "call_fits d g" using assms Inl by (simp_all add: whole_inv_def)
  show ?thesis using game_call_moves [OF d, of u e] game_call_must_move [OF d, of e u] by (simp add: Inl db_write_def)
next
  case (Inr a)
  show ?thesis by (simp add: Inr db_write_def account_call_stands)
qed

theorem database_refines_store_witness:
  "spec_move (DeleteGame (id_of 1) (id_of 1)) (games_view sample_db)
     (games_view (db_write plain sample_env (Inl (DeleteGame (id_of 1) (id_of 1))) sample_db))"
proof -
  have "whole_inv sample_db" using sample_web_ok by simp
  moreover have "spec_enabled (DeleteGame (id_of 1) (id_of 1)) (games_view sample_db)"
    using sample_sess by (simp add: games_view_def owned_def)
  ultimately show ?thesis
    using database_refines_store [of sample_db "Inl (DeleteGame (id_of 1) (id_of 1))" plain sample_env]
      sample_known sample_up sample_room by simp
qed

text \<open>
  C34: The health answer tells of the last ping: however the probe's loop and its pings interleave,
  it is 200 exactly when the last result taken was a success no older than ninety seconds;
  there is never more than one ping running, the failures are counted, and when the loop
  has returned no ping is left behind it.
\<close>

theorem health_tells_the_last_ping:
  assumes "probe_run p rs"
  shows "(rs_status (health t (pb_state p)) = 200 \<longleftrightarrow>
       (\<exists>r rs'. rs = r # rs' \<and> pr_error r = None \<and> (is_zero (pr_finished r) \<or> time_sub t (pr_finished r) \<le> 90 * second)))
    \<and> hs_total (pb_state p) = length (filter is_failure rs) \<and> hs_consecutive (pb_state p) = length (takeWhile is_failure rs)
    \<and> length (pb_pings p) \<le> 1 \<and> (pb_phase p = Returned \<longrightarrow> pb_pings p = [] \<and> pb_results p = [])"
proof -
  have s: "pb_state p = told rs" by (rule run_state [OF assms])
  have f: "flight_ok p" by (rule run_flight [OF assms])
  have "rs_status (health t (told rs)) = 200 \<longleftrightarrow>
      (\<exists>r rs'. rs = r # rs' \<and> pr_error r = None \<and> (is_zero (pr_finished r) \<or> time_sub t (pr_finished r) \<le> 90 * second))"
  proof (cases rs)
    case Nil
    then show ?thesis by (simp add: health_def health_ok_def snapshot_at_def new_probe_def http_error_def answer_plain_def)
  next
    case (Cons r rs')
    then show ?thesis
      by (auto simp: health_def health_ok_def snapshot_at_def http_error_def answer_plain_def health_stale_after_def
          health_probe_interval_def is_failure_def)
  qed
  moreover have "length (pb_pings p) \<le> 1" "pb_phase p = Returned \<longrightarrow> pb_pings p = [] \<and> pb_results p = []"
    using f by (cases "pb_phase p"; cases "pb_in_flight p"; auto simp: flight_ok_def)+
  ultimately show ?thesis using told_counts [of rs] unfolding s by blast
qed

lemma sample_probe_run:
  "\<exists>p. probe_run p [\<lparr>pr_finished = 5, pr_duration = time_sub 5 0, pr_error = None\<rparr>]"
proof -
  let ?p = "probe_start 0" and ?r = "\<lparr>pr_finished = 5, pr_duration = time_sub 5 0, pr_error = None\<rparr>"
  have ping: "pb_pings ?p = [0]" "pb_results ?p = []" "pb_phase ?p = Looping" "\<not> pb_ended ?p"
    by (simp_all add: probe_start_def start_ping_def)
  let ?q = "?p\<lparr>pb_pings := [], pb_results := [?r]\<rparr>"
  have q: "probe_run ?q []" using probe_run.step_run [OF probe_run.begin_run probe_step.post [OF ping(1,2), of 5 None]] by simp
  have "probe_step ?q (log_transition (hs_status (record_result ?r (pb_state ?q)))
      (?q\<lparr>pb_in_flight := False, pb_results := [], pb_state := record_result ?r (pb_state ?q)\<rparr>)) (Some ?r)"
    by (rule probe_step.take_result) (use ping in simp_all)
  from probe_run.step_run [OF q this] show ?thesis by auto
qed

theorem health_tells_the_last_ping_witness:
  "\<exists>p :: probe. rs_status (health 7 (pb_state p)) = 200 \<and> rs_status (health (91 * second) (pb_state p)) = 503"
proof -
  obtain p where p: "probe_run p [\<lparr>pr_finished = 5, pr_duration = time_sub 5 0, pr_error = None\<rparr>]" using sample_probe_run by blast
  have y: "rs_status (health 7 (pb_state p)) = 200"
    using health_tells_the_last_ping [OF p, of 7] by (simp add: time_sub_def second_def)
  have n: "rs_status (health (91 * second) (pb_state p)) \<noteq> 200"
    using health_tells_the_last_ping [OF p, of "91 * second"] by (simp add: time_sub_def second_def)
  have "rs_status (health (91 * second) (pb_state p)) = 503"
    using n by (simp add: health_def http_error_def answer_plain_def split: if_splits)
  with y show ?thesis by (intro exI [of _ p] conjI)
qed

text \<open>
  C35: Folding loses and joins no words: at any width the folded text has the words of the text in
  their order. At a width of one or more, a line of the text that fits, or whose indent leaves
  no room, comes out as it is; any other comes out as lines that fit the width but for the
  blanks at their end, each over-long only if it is the indent and one word too long for it.
\<close>

theorem folding_keeps_words:
  "text_words (wrap_text t width) = text_words t
    \<and> (if width \<le> 0 then wrap_text t width = t
       else \<exists>lss. wrap_text t width = join [CHR 0x0A] (concat lss)
         \<and> list_all2 (\<lambda>line ls. ls \<noteq> []
              \<and> (if int (rune_count line) \<le> width \<or> width \<le> int (rune_count (takeWhile blank line)) then ls = [line]
                 else list_all (folded_ok width (takeWhile blank line)) ls)) (split_on (CHR 0x0A) t) lss)"
proof (cases "width \<le> 0")
  case True
  then show ?thesis by (simp add: wrap_text_def)
next
  case False
  then have "\<exists>lss. wrap_text t width = join [CHR 0x0A] (concat lss) \<and> list_all2 (line_folded width) (split_on (CHR 0x0A) t) lss"
    using wrap_text_folded [of width t] by simp
  with False wrap_text_words [of t width] show ?thesis unfolding line_folded_def by simp
qed

end
