(* ===== verification/Db_Stamp.thy ===== *)
theory Db_Stamp
  imports Db_Tables
begin

text \<open>
  The timestamps of the database (database.go: \<open>timeFormat\<close>, \<open>stamp\<close>): RFC 3339 in UTC with nine
  digits of fraction. They are compared as text in SQL; to the year 9999 that is the order of
  time, which is what lets the tables of this development hold instants.
\<close>

section \<open>The calendar\<close>

text \<open>Counting \<open>d\<close> from the start of unit \<open>k\<close>, of lengths \<open>len\<close>: the unit it falls in, and the rest.\<close>

function split_by :: "(nat \<Rightarrow> nat) \<Rightarrow> nat \<Rightarrow> nat \<Rightarrow> nat \<times> nat" where
  "split_by len k d = (if d < len k \<or> len k = 0 then (k, d) else split_by len (Suc k) (d - len k))"
  by pat_completeness auto

termination
  by (relation "measure (\<lambda>(_, _, d). d)") auto

declare split_by.simps [simp del]

definition leap_year :: "nat \<Rightarrow> bool" where
  "leap_year y \<longleftrightarrow> y mod 4 = 0 \<and> (y mod 100 \<noteq> 0 \<or> y mod 400 = 0)"

definition year_len :: "nat \<Rightarrow> nat" where
  "year_len y = (if leap_year y then 366 else 365)"

definition month_len :: "nat \<Rightarrow> nat \<Rightarrow> nat" where
  "month_len y m =
     (if m = 2 then (if leap_year y then 29 else 28)
      else if m = 4 \<or> m = 6 \<or> m = 9 \<or> m = 11 then 30 else if 1 \<le> m \<and> m \<le> 12 then 31 else 0)"

lemma split_by_within:
  "d < sum len {k..<K} \<Longrightarrow> \<forall>i < K. 0 < len i \<or> i < k \<Longrightarrow> k \<le> fst (split_by len k d) \<and> fst (split_by len k d) < K
     \<and> snd (split_by len k d) < len (fst (split_by len k d))"
proof (induction len k d rule: split_by.induct)
  case (1 len k d)
  have k: "k < K" using "1.prems"(1) by (cases "k < K") auto
  then have pos: "0 < len k" using "1.prems"(2) by auto
  show ?case
  proof (cases "d < len k")
    case True
    then show ?thesis using k by (simp add: split_by.simps)
  next
    case False
    then have "d - len k < sum len {Suc k..<K}" using "1.prems"(1) k by (simp add: sum.atLeast_Suc_lessThan)
    moreover have "\<forall>i < K. 0 < len i \<or> i < Suc k" using "1.prems"(2) by auto
    ultimately show ?thesis using "1.IH" False pos by (auto simp: split_by.simps [of len k d])
  qed
qed

lemma split_by_ge: "k \<le> fst (split_by len k d)"
  by (induction len k d rule: split_by.induct) (subst split_by.simps, auto)

lemma split_by_less: "d < d' \<Longrightarrow> split_by len k d < split_by len k d'"
proof (induction len k d arbitrary: d' rule: split_by.induct)
  case (1 len k d)
  consider "len k = 0" | "0 < len k" "d < len k" "d' < len k" | "0 < len k" "d < len k" "\<not> d' < len k" | "0 < len k" "\<not> d < len k"
    by fastforce
  then show ?case
  proof cases
    case 3
    then have "split_by len k d' = split_by len (Suc k) (d' - len k)" by (subst split_by.simps) simp
    then have "k < fst (split_by len k d')" using split_by_ge [of "Suc k" len "d' - len k"] by simp
    then show ?thesis using 3 by (subst split_by.simps) (simp add: less_prod_def)
  next
    case 4
    then have "d - len k < d' - len k" "\<not> d' < len k" using "1.prems" by auto
    then show ?thesis using "1.IH" [of "d' - len k"] 4 by (simp add: split_by.simps [of len k])
  qed (use "1.prems" in \<open>simp_all add: split_by.simps [of len k] less_prod_def\<close>)
qed

lemma split_by_order: "split_by len k d < split_by len k d' \<longleftrightarrow> d < d'"
  by (metis less_asym linorder_neqE_nat order.irrefl split_by_less)

section \<open>The text\<close>

fun fixed :: "nat \<Rightarrow> nat \<Rightarrow> string" where
  "fixed 0 n = []"
| "fixed (Suc w) n = fixed w (n div 10) @ [digit_char (n mod 10)]"

record moment =
  mo_year :: nat
  mo_month :: nat
  mo_day :: nat
  mo_hour :: nat
  mo_minute :: nat
  mo_second :: nat
  mo_nanosecond :: nat

definition moment_of :: "time \<Rightarrow> moment" where
  "moment_of t =
     (let n = nat t; (y, yday) = split_by year_len 1 (n div 10 ^ 9 div 86400); (m, mday) = split_by (month_len y) 1 yday;
          s = n div 10 ^ 9 mod 86400 in
      \<lparr>mo_year = y, mo_month = m, mo_day = Suc mday, mo_hour = s div 3600, mo_minute = s div 60 mod 60,
       mo_second = s mod 60, mo_nanosecond = n mod 10 ^ 9\<rparr>)"

definition stamp :: "time \<Rightarrow> string" where
  "stamp t = (let p = moment_of t in
     fixed 4 (mo_year p) @ ''-'' @ fixed 2 (mo_month p) @ ''-'' @ fixed 2 (mo_day p) @ ''T''
       @ fixed 2 (mo_hour p) @ '':'' @ fixed 2 (mo_minute p) @ '':'' @ fixed 2 (mo_second p)
       @ ''.'' @ fixed 9 (mo_nanosecond p) @ ''Z'')"

section \<open>Text sorts as time\<close>

lemma length_fixed [simp]: "length (fixed w n) = w"
  by (induction w n rule: fixed.induct) simp_all

lemma append_less:
  fixes xs ys :: "'a :: linorder list"
  assumes "length xs = length ys"
  shows "xs @ us < ys @ vs \<longleftrightarrow> xs < ys \<or> xs = ys \<and> us < vs"
  using assms by (induction xs ys rule: list_induct2) auto

lemma digit_char_less: "d < 10 \<Longrightarrow> e < 10 \<Longrightarrow> digit_char d < digit_char e \<longleftrightarrow> d < e"
  by (simp add: less_char_def of_char_digit)

lemma digit_char_eq: "d < 10 \<Longrightarrow> e < 10 \<Longrightarrow> digit_char d = digit_char e \<longleftrightarrow> d = e"
  by (metis digit_value_digit_char option.inject)

lemma radix_less: "a < b \<longleftrightarrow> a div k < b div k \<or> a div k = b div k \<and> a mod k < b mod (k :: nat)"
proof (cases "a div k" "b div k" rule: linorder_cases)
  case less
  then have "\<not> b \<le> a" using div_le_mono [of b a k] by auto
  with less show ?thesis by simp
next
  case equal
  have "a = a div k * k + a mod k" "b = a div k * k + b mod k"
    by (simp, simp add: equal)
  then have "a < b \<longleftrightarrow> a mod k < b mod k" by linarith
  with equal show ?thesis by simp
next
  case greater
  then have "\<not> a \<le> b" using div_le_mono [of a b k] by auto
  with greater show ?thesis by simp
qed

lemma radix_eq: "a div k = b div k \<Longrightarrow> a mod k = b mod (k :: nat) \<Longrightarrow> a = b"
  by (metis div_mult_mod_eq)

lemma radix_lex:
  "a div k < b div k \<or> a div k = b div k \<and> (a mod k < b mod k \<or> a mod k = b mod k \<and> P) \<longleftrightarrow> a < b \<or> a = (b :: nat) \<and> P"
proof (cases "a = b")
  case False
  then have "\<not> (a div k = b div k \<and> a mod k = b mod k)" using radix_eq by blast
  with False show ?thesis using radix_less [of a b k] by auto
qed simp

lemma fixed_eq: "n < 10 ^ w \<Longrightarrow> m < 10 ^ w \<Longrightarrow> fixed w n = fixed w m \<longleftrightarrow> n = m"
proof (induction w arbitrary: n m)
  case (Suc w)
  then have "fixed w (n div 10) = fixed w (m div 10) \<longleftrightarrow> n div 10 = m div 10" by (simp add: less_mult_imp_div_less mult.commute)
  then show ?case by (auto simp: digit_char_eq intro: radix_eq)
qed simp

lemma fixed_less: "n < 10 ^ w \<Longrightarrow> m < 10 ^ w \<Longrightarrow> fixed w n < fixed w m \<longleftrightarrow> n < m"
proof (induction w arbitrary: n m)
  case (Suc w)
  have s: "n div 10 < 10 ^ w" "m div 10 < 10 ^ w" using Suc.prems by (simp_all add: less_mult_imp_div_less mult.commute)
  have "fixed (Suc w) n < fixed (Suc w) m \<longleftrightarrow> n div 10 < m div 10 \<or> n div 10 = m div 10 \<and> n mod 10 < m mod 10"
    using Suc.IH [OF s] fixed_eq [OF s] by (simp add: append_less digit_char_less)
  also have "\<dots> \<longleftrightarrow> n < m" by (rule radix_less [symmetric])
  finally show ?case .
qed simp

lemma field_less:
  assumes "n < 10 ^ w" "m < 10 ^ w"
  shows "fixed w n @ sep @ us < fixed w m @ sep @ vs \<longleftrightarrow> n < m \<or> n = m \<and> us < vs"
  using assms by (simp add: append_less fixed_less fixed_eq)

lemma twelve_months: "sum (month_len y) {1..<13} = year_len y"
  by (simp add: month_len_def year_len_def eval_nat_numeral)

lemma split_by_rest: "\<forall>i. 0 < len i \<Longrightarrow> snd (split_by len k d) < len (fst (split_by len k d))"
proof (induction len k d rule: split_by.induct)
  case (1 len k d)
  then show ?case by (cases "d < len k") (auto simp: split_by.simps [of len k d])
qed

lemma split_by_inj: "split_by len k d = split_by len k d' \<longleftrightarrow> d = d'"
  using split_by_order [of len k d d'] split_by_order [of len k d' d] by (metis linorder_neqE_nat order.irrefl)

text \<open>The day of a moment, as it is written: its year, month and day are in range, and ordered as days are.\<close>

definition date_of :: "nat \<Rightarrow> nat \<times> nat \<times> nat" where
  "date_of d = (let (y, yday) = split_by year_len 1 d; (m, mday) = split_by (month_len y) 1 yday in (y, m, Suc mday))"

lemma date_range: "date_of d = (y, m, k) \<Longrightarrow> m < 13 \<and> k < 32"
proof -
  assume d: "date_of d = (y, m, k)"
  obtain yday where y: "split_by year_len 1 d = (y, yday)" using d by (auto simp: date_of_def split: prod.splits)
  obtain mday where m: "split_by (month_len y) 1 yday = (m, mday)" "k = Suc mday"
    using d y by (auto simp: date_of_def split: prod.splits)
  have "yday < year_len y" using split_by_rest [of year_len 1 d] y by (simp add: year_len_def)
  then have "yday < sum (month_len y) {1..<13}" by (simp only: twelve_months)
  moreover have "\<forall>i < 13. 0 < month_len y i \<or> i < 1" by (auto simp: month_len_def)
  ultimately have "m < 13 \<and> mday < month_len y m"
    using split_by_within [of yday "month_len y" 1 13] unfolding m(1) by simp
  moreover have "month_len y m \<le> 31" by (simp add: month_len_def)
  ultimately show ?thesis using m(2) by auto
qed

lemma date_less: "date_of d < date_of d' \<longleftrightarrow> d < d'"
proof -
  obtain y a where y: "split_by year_len 1 d = (y, a)" by force
  obtain y' a' where y': "split_by year_len 1 d' = (y', a')" by force
  have "d < d' \<longleftrightarrow> y < y' \<or> y = y' \<and> a < a'" using split_by_order [of year_len 1 d d'] y y' by (auto simp: less_prod_def)
  also have "\<dots> \<longleftrightarrow> y < y' \<or> y = y' \<and> split_by (month_len y) 1 a < split_by (month_len y') 1 a'"
    using split_by_order [of "month_len y" 1 a a'] by auto
  finally show ?thesis using y y' by (auto simp: date_of_def less_prod_def split: prod.splits)
qed

lemma date_eq: "date_of d = date_of d' \<longleftrightarrow> d = d'"
  using date_less [of d d'] date_less [of d' d] by (metis linorder_neqE_nat order.irrefl)

text \<open>The time of day, of \<open>s\<close> seconds.\<close>

lemma clock_less:
  "(s div 3600 < s' div 3600 \<or> s div 3600 = s' div 3600 \<and> (s div 60 mod 60 < s' div 60 mod 60
      \<or> s div 60 mod 60 = s' div 60 mod 60 \<and> (s mod 60 < s' mod 60 \<or> s mod 60 = s' mod 60 \<and> P))) \<longleftrightarrow> s < s' \<or> s = (s' :: nat) \<and> P"
proof -
  have d: "s div 3600 = s div 60 div 60" "s' div 3600 = s' div 60 div 60" by (simp_all flip: div_mult2_eq)
  show ?thesis unfolding d radix_lex ..
qed

text \<open>
  C40: Timestamps sort as time does. To the end of the year 9999 the text of an instant is less than
  that of another, byte by byte as SQLite compares, exactly when it is the earlier instant; so
  comparing expiry columns as text in SQL is comparing the instants.
\<close>

theorem stamps_sort_as_time:
  assumes "0 \<le> t" "0 \<le> t'" "mo_year (moment_of t) < 10000" "mo_year (moment_of t') < 10000"
  shows "stamp t < stamp t' \<longleftrightarrow> t < t'"
proof -
  let ?d = "\<lambda>t. nat t div 10 ^ 9 div 86400" and ?s = "\<lambda>t. nat t div 10 ^ 9 mod 86400" and ?n = "\<lambda>t. nat t mod 10 ^ 9"
  have written: "stamp t = fixed 4 y @ ''-'' @ fixed 2 m @ ''-'' @ fixed 2 k @ ''T'' @ fixed 2 (?s t div 3600) @ '':''
      @ fixed 2 (?s t div 60 mod 60) @ '':'' @ fixed 2 (?s t mod 60) @ ''.'' @ fixed 9 (?n t) @ ''Z'' @ []"
    and year: "y = mo_year (moment_of t)" if "date_of (?d t) = (y, m, k)" for t y m k
    using that by (auto simp: stamp_def moment_of_def date_of_def Let_def split: prod.splits)
  obtain y m k where d: "date_of (?d t) = (y, m, k)" by (metis surj_pair)
  obtain y' m' k' where d': "date_of (?d t') = (y', m', k')" by (metis surj_pair)
  have range: "y < 10 ^ 4" "y' < 10 ^ 4" "m < 10 ^ 2" "m' < 10 ^ 2" "k < 10 ^ 2" "k' < 10 ^ 2"
    using date_range [OF d] date_range [OF d'] year [OF d] year [OF d'] assms(3,4) by simp_all
  have day: "?s x div 3600 < 10 ^ 2" "?s x div 60 mod 60 < 10 ^ 2" "?s x mod 60 < 10 ^ 2" "?n x < 10 ^ 9" for x
  proof -
    have "?s x < 86400" by simp
    then have "?s x div 3600 < 24" by (intro less_mult_imp_div_less) simp
    moreover have "?s x div 60 mod 60 < 60" "?s x mod 60 < 60" by (rule mod_less_divisor, simp)+
    ultimately show "?s x div 3600 < 10 ^ 2" "?s x div 60 mod 60 < 10 ^ 2" "?s x mod 60 < 10 ^ 2" "?n x < 10 ^ 9"
      by (simp_all only: power2_eq_square) simp_all
  qed
  have "stamp t < stamp t' \<longleftrightarrow> (y < y' \<or> y = y' \<and> (m < m' \<or> m = m' \<and> (k < k' \<or> k = k' \<and>
      (?s t < ?s t' \<or> ?s t = ?s t' \<and> ?n t < ?n t'))))"
    unfolding written [OF d] written [OF d'] field_less [OF range(1,2)] field_less [OF range(3,4)] field_less [OF range(5,6)]
      field_less [OF day(1) day(1)] field_less [OF day(2) day(2)] field_less [OF day(3) day(3)] field_less [OF day(4) day(4)] clock_less
    by simp
  also have "\<dots> \<longleftrightarrow> date_of (?d t) < date_of (?d t') \<or> date_of (?d t) = date_of (?d t') \<and>
      (?s t < ?s t' \<or> ?s t = ?s t' \<and> ?n t < ?n t')"
    unfolding d d' less_prod_def by auto
  also have "\<dots> \<longleftrightarrow> nat t div 10 ^ 9 < nat t' div 10 ^ 9 \<or> nat t div 10 ^ 9 = nat t' div 10 ^ 9 \<and> ?n t < ?n t'"
    unfolding date_less date_eq by (rule radix_lex)
  also have "\<dots> \<longleftrightarrow> nat t < nat t'" by (rule radix_less [symmetric])
  also have "\<dots> \<longleftrightarrow> t < t'" using assms(1,2) by auto
  finally show ?thesis .
qed

theorem stamps_sort_as_time_witness: "stamp 999 < stamp (86401 * 10 ^ 9)"
proof -
  have "mo_year (moment_of 999) < 10000" "mo_year (moment_of (86401 * 10 ^ 9)) < 10000"
    by (simp_all add: moment_of_def split_by.simps [of year_len] year_len_def Let_def split: prod.split)
  then show ?thesis using stamps_sort_as_time [of 999 "86401 * 10 ^ 9"] by simp
qed

end
