(* ===== verification/System_Properties.thy ===== *)
theory System_Properties
  imports Zorkd_Serve Zorkplay Web_Properties Db_Stamp
begin

text \<open>
  Properties of the commands: what opening a database leaves in its file, what a server that
  comes up has been built with, what an invitation's link is worth, and what the terminal
  plays.
\<close>

section \<open>Opening\<close>

text \<open>
  C37: Opening a database the application made runs the migrations it has not seen, each once and
  in the order of their versions. When it succeeds the file's schema is what all the scripts
  build in order and its version is the last one's, and a file was created exactly when one was
  asked for and there was none; when it fails the file is as it was, or has seen more of the
  scripts in order, at most one of them without its version. Where nothing beneath fails it
  succeeds.
\<close>

theorem open_upgrades_in_order:
  assumes "all_migrations files = Inr ms" "made run sch0 ms k st"
    and "db_open cwd stat run files sch0 e path create st = (r, st')"
  shows "(case r of
      Inr _ \<Rightarrow> (create \<longleftrightarrow> st = None) \<and> (\<exists>f. st' = Some f \<and> brought_to run sch0 ms (length ms) f)
    | Inl _ \<Rightarrow> st' = st \<or> (\<exists>f i. st' = Some f \<and> k \<le> i \<and> (brought_to run sch0 ms i f \<or> half_recorded run sch0 ms i f)))
    \<and> ((\<forall>j. ctx_err e j = None) \<and> (\<exists>full. check_path cwd stat path create = Inr full)
        \<and> (\<exists>sch. built run ms sch0 = Inr sch) \<and> (create \<longleftrightarrow> st = None) \<longrightarrow> r = Inr ())"
proof (rule conjI [OF db_open_brings [OF assms] impI])
  assume a: "(\<forall>j. ctx_err e j = None) \<and> (\<exists>full. check_path cwd stat path create = Inr full)
    \<and> (\<exists>sch. built run ms sch0 = Inr sch) \<and> (create \<longleftrightarrow> st = None)"
  then obtain full sch where c: "check_path cwd stat path create = Inr full" "built run ms sch0 = Inr sch" by (elim conjE exE)
  have "create \<longleftrightarrow> st = None" using a by (elim conjE)
  moreover have "ctx_err e j = None" for j using conjunct1 [OF a] by (rule spec)
  ultimately have "\<exists>st1. db_open cwd stat run files sch0 e path create st = (Inr (), st1)"
    by (intro db_open_works [OF assms(1,2) _ c])
  with assms(3) show "r = Inr ()" by (elim exE) simp
qed

text \<open>Two migrations, of which a file has seen the first.\<close>

definition sample_files :: "(string \<times> string) list" where
  "sample_files = [(''0002_b.sql'', ''B''), (''0001_a.sql'', ''A''), (''notes.txt'', ''-'')]"

definition sample_migrations :: "migration list" where
  "sample_migrations = [\<lparr>mi_version = 1, mi_name = ''0001_a.sql'', mi_sql = ''A''\<rparr>,
     \<lparr>mi_version = 2, mi_name = ''0002_b.sql'', mi_sql = ''B''\<rparr>]"

definition sample_stat :: "string \<Rightarrow> file_kind result" where
  "sample_stat p = (if p = ''/'' then Inr Directory else Inr RegularFile)"

lemma sample_versions: "version_of ''0001_a.sql'' = Inr 1" "version_of ''0002_b.sql'' = Inr 2"
  by (simp_all add: version_of_def before_def parse_int64_def parse_nat_def digit_value_def)

lemma sample_sorted:
  "sort_key fst (filter (\<lambda>p. 4 \<le> length (fst p) \<and> drop (length (fst p) - 4) (fst p) = ''.sql'') sample_files)
    = [(''0001_a.sql'', ''A''), (''0002_b.sql'', ''B'')]"
  by code_simp

lemma sample_all_migrations: "all_migrations sample_files = Inr sample_migrations"
  by (simp add: all_migrations_def sample_sorted sample_versions sample_migrations_def)

lemma sample_path: "abs_path (Inr ''/'') ''zorkd.db'' = Inr ''/zorkd.db''" "dir_of ''/zorkd.db'' = ''/''"
  by code_simp+

lemma sample_check: "check_path (Inr ''/'') sample_stat ''zorkd.db'' False = Inr ''/zorkd.db''"
  by (simp add: check_path_def sample_path sample_stat_def)

theorem open_upgrades_in_order_witness:
  "\<exists>f. db_open (Inr ''/'') sample_stat (\<lambda>sql sch. Inr (sch @ [sql])) sample_files [] started_env ''zorkd.db'' False
      (Some \<lparr>df_version = 1, df_schema = [''A'']\<rparr>) = (Inr (), Some f)
    \<and> df_version f = 2 \<and> df_schema f = [''A'', ''B'']"
proof -
  let ?run = "\<lambda>sql sch. Inr (sch @ [sql])" and ?f0 = "\<lparr>df_version = 1, df_schema = [''A'']\<rparr>"
  obtain r st' where o: "db_open (Inr ''/'') sample_stat ?run sample_files [] started_env ''zorkd.db'' False (Some ?f0) = (r, st')"
    by force
  have m: "made ?run [] sample_migrations 1 (Some ?f0)"
    by (simp add: made_def brought_to_def version_after_def sample_migrations_def)
  have b: "built ?run sample_migrations [] = Inr [''A'', ''B'']" by (simp add: sample_migrations_def)
  have u: "\<forall>j. ctx_err started_env j = None" by (simp add: started_env_def sample_env_def)
  note p = open_upgrades_in_order [OF sample_all_migrations m o]
  have "r = Inr ()"
    by (rule mp [OF conjunct2 [OF p]], intro conjI exI) (rule u, rule sample_check, rule b, simp)
  then obtain f where "st' = Some f" "brought_to ?run [] sample_migrations (length sample_migrations) f"
    using conjunct1 [OF p] by auto
  then show ?thesis using o b \<open>r = Inr ()\<close>
    by (intro exI [of _ f]) (simp add: brought_to_def version_after_def sample_migrations_def)
qed

section \<open>Inviting\<close>

text \<open>
  C38: The link zorkd invite prints is worth an account: it carries a token under which the
  database the command wrote holds an unspent invitation for the address, as it is normalized,
  and until 48 hours later a server over that database, asked with that token, answers with that
  invitation.
\<close>

theorem printed_link_invites:
  assumes "\<forall>(name, sql) \<in> set (ho_files h). \<forall>d d'. ho_scripts h sql d = Inr d' \<longrightarrow> acct_inv d \<longrightarrow> acct_inv d'" "acct_inv (df_schema f)"
    and "run_invite h ul me cr e e' args (Some f) = (Inr link, st')"
    and "is_store s = invite_db_ops" "is_crypto s = cr"
    and "\<forall>bs. rand_read cr e' token_bytes = Inr bs \<longrightarrow> bs \<noteq> []"
  shows "\<exists>base address full token f' i. invite_settings h ul me args = Inr (base, address, full)
    \<and> link = ul_string ul base ''/register'' (''invite='' @ token) \<and> st' = Some f'
    \<and> normalize_email me address = Inr (iv_email i) \<and> is_zero (iv_redeemed i)
    \<and> (\<forall>e1. db_up e1 \<and> now (nth_use 1 e1) < now e' + 48 * hour \<longrightarrow> invite_invited s e1 token (df_schema f') = Inr i)"
proof -
  obtain base address full where a: "invite_settings h ul me args = Inr (base, address, full)"
    using assms(3) by (cases "invite_settings h ul me args") (auto simp: run_invite_def)
  obtain r st1 where o: "open_existing h e full (Some f) = (r, st1)" by force
  obtain f1 where f1: "st1 = Some f1" "acct_inv (df_schema f1)" using open_existing_keep [OF assms(1,2) o] by blast
  let ?v = "\<lparr>is_store = invite_db_ops, is_ttl = default_invitation_ttl, is_mail = me, is_crypto = cr\<rparr>"
  have "default_invitation_ttl > 0" by (simp add: default_invitation_ttl_def duration_defs)
  then have v: "invite_new_service me cr (Some invite_db_ops) [] = Inr ?v" by (simp add: invite_new_service_def)
  obtain token d where c: "invite_create ?v e' address (df_schema f1) = (Inr token, d)"
    and l: "link = ul_string ul base ''/register'' (''invite='' @ token)" "st' = Some (f1\<lparr>df_schema := d\<rparr>)"
    using assms(3) a o f1(1) v
    by (cases "invite_create ?v e' address (df_schema f1)") (auto simp: run_invite_def split: sum.splits)
  obtain m where m: "normalize_email me address = Inr m" "acct_inv d"
      "db_ivt d (hash_token cr token) = Some \<lparr>iv_email = m, iv_expires = now e' + default_invitation_ttl, iv_redeemed = 0, iv_user = []\<rparr>"
    using invites.create_Inr [OF _ f1(2) c] by auto
  have token: "token \<noteq> []"
    using c assms(6) by (auto simp: invite_create_def Let_def b64url_encode_def b64_encode_nil result_iff split: sum.splits prod.splits)
  let ?i = "\<lparr>iv_email = m, iv_expires = now e' + default_invitation_ttl, iv_redeemed = 0, iv_user = []\<rparr>"
  have "invite_invited s e1 token d = Inr ?i" if "db_up e1" "now (nth_use 1 e1) < now e' + 48 * hour" for e1
    using invites.inv_found [OF m(2) that(1) m(3)] that(2) token assms(4,5)
    by (simp add: invite_invited_def redeemable_def default_invitation_ttl_def)
  then show ?thesis using a l m(1)
    by (intro exI [of _ base] exI [of _ address] exI [of _ full] exI [of _ token] exI [of _ "f1\<lparr>df_schema := d\<rparr>"] exI [of _ ?i]) simp
qed

text \<open>A host with that file system, where a file is up to date; and a URL library that keeps text.\<close>

definition sample_host :: "db host" where
  "sample_host = \<lparr>ho_getenv = (\<lambda>_. None), ho_cwd = Inr ''/'', ho_stat = sample_stat, ho_scripts = (\<lambda>_ d. Inr d),
     ho_files = sample_files, ho_empty = empty_db, ho_unicode = plain\<rparr>"

definition sample_file :: "db db_file" where
  "sample_file = \<lparr>df_version = 2, df_schema = sample_db\<rparr>"

definition sample_url :: "string url_lib" where
  "sample_url = \<lparr>ul_parse = Some, ul_host = (\<lambda>b. b), ul_string = (\<lambda>b p q. b @ p @ ''?'' @ q)\<rparr>"

lemma sample_host_simps [simp]:
  "env_or sample_host name fallback = fallback" "ho_cwd sample_host = Inr ''/''" "ho_unicode sample_host = plain"
  "ho_scripts sample_host sql d = Inr d" "full_database_path sample_host ''zorkd.db'' = Inr ''/zorkd.db''"
  using sample_path by (simp_all add: sample_host_def env_or_def full_database_path_def)

lemma sample_url_simps [simp]: "ul_parse sample_url b = Some b" "ul_host sample_url b = b"
  "ul_string sample_url b p q = b @ p @ ''?'' @ q"
  by (simp_all add: sample_url_def)

lemma sample_open: "open_existing sample_host started_env ''/zorkd.db'' (Some sample_file) = (Inr (), Some sample_file)"
proof -
  have p: "abs_path (Inr ''/'') ''/zorkd.db'' = Inr ''/zorkd.db''" by code_simp
  have u: "db_use started_env k = Inr ()" for k by (simp add: db_use_def started_env_def sample_env_def)
  have c: "check_path (Inr ''/'') sample_stat ''/zorkd.db'' False = Inr ''/zorkd.db''"
    by (simp add: check_path_def p sample_path(2) sample_stat_def)
  show ?thesis
    by (simp add: open_existing_def open_database_def db_open_def sample_host_def c u migrate_def sample_all_migrations
        user_version_def db_conn_def sample_file_def sample_migrations_def)
qed

theorem printed_link_invites_witness:
  "\<exists>token f'. run_invite sample_host sample_url sample_mail sample_crypto started_env started_env [''x@y''] (Some sample_file)
      = (Inr (''http://localhost:8080/register?invite='' @ token), Some f')
    \<and> (\<exists>i. iv_email i = ''x@y'' \<and> invite_invited sample_invites started_env token (df_schema f') = Inr i)"
proof -
  have "invite_settings sample_host sample_url sample_mail [''x@y''] = Inr (''http://localhost:8080'', ''x@y'', ''/zorkd.db'')"
    by (simp add: invite_settings_def parse_one_def sample_address flag_text_def invite_flags_def)
  note st = this
  have u: "db_use started_env k = Inr ()" "db_use (nth_use j started_env) k = Inr ()" for j k
    by (simp_all add: db_use_def started_env_def sample_env_def nth_use_def later_def)
  have row: "next_rowid [] = Some 1" by (simp add: next_rowid_def max_rowid_def)
  have db: "d_invites sample_db = []" by (simp add: sample_db_def empty_db_def)
  let ?v = "\<lparr>is_store = invite_db_ops, is_ttl = default_invitation_ttl, is_mail = sample_mail, is_crypto = sample_crypto\<rparr>"
  have "default_invitation_ttl > 0" by (simp add: default_invitation_ttl_def duration_defs)
  then have v: "invite_new_service sample_mail sample_crypto (Some invite_db_ops) [] = Inr ?v"
    by (simp add: invite_new_service_def)
  obtain token d where c: "invite_create ?v started_env ''x@y'' sample_db = (Inr token, d)"
    by (simp add: invite_create_def sample_address sample_crypto_def invites_create_def u db_conn_def db row check_text_def Let_def)
  have f: "df_schema sample_file = sample_db" by (simp add: sample_file_def)
  have r: "run_invite sample_host sample_url sample_mail sample_crypto started_env started_env [''x@y''] (Some sample_file)
      = (Inr (''http://localhost:8080/register?invite='' @ token), Some (sample_file\<lparr>df_schema := d\<rparr>))"
    by (simp add: run_invite_def st sample_open v f c)
  have inv: "acct_inv (df_schema sample_file)" using sample_acct_inv f by simp
  have run: "\<forall>(name, sql) \<in> set (ho_files sample_host). \<forall>d d'. ho_scripts sample_host sql d = Inr d' \<longrightarrow> acct_inv d \<longrightarrow> acct_inv d'" by auto
  have raw: "\<forall>bs. rand_read sample_crypto started_env token_bytes = Inr bs \<longrightarrow> bs \<noteq> []"
    by (simp add: sample_crypto_def token_bytes_def)
  obtain token' i where i: "''http://localhost:8080/register?invite='' @ token = ''http://localhost:8080/register?invite='' @ token'"
      "normalize_email sample_mail ''x@y'' = Inr (iv_email i)"
      "\<forall>e1. db_up e1 \<and> now (nth_use 1 e1) < now started_env + 48 * hour \<longrightarrow>
         invite_invited sample_invites e1 token' d = Inr i"
    using printed_link_invites [OF run inv r sample_accounts_simps(8,10) raw, unfolded st]
    by auto
  have "48 * hour > 9" by (simp add: duration_defs)
  then have "invite_invited sample_invites started_env token d = Inr i" using i(1,3) by simp
  moreover have "iv_email i = ''x@y''" using i(2) sample_address by simp
  ultimately show ?thesis using r by (intro exI [of _ token] exI [of _ "sample_file\<lparr>df_schema := d\<rparr>"]) auto
qed

section \<open>Serving\<close>

lemma serve_checked_Inr:
  assumes "serve_checked h args = Inr (cf, trusted)"
  shows "(cf_insecure cf \<longrightarrow> is_loopback_addr (cf_addr cf)) \<and> (\<forall>a \<in> set trusted. is_loopback a)"
proof -
  have c: "check_cookie_policy (ho_unicode h) (cf_insecure cf) (cf_addr cf) = Inr ()"
      "parse_trusted_proxies (ho_unicode h) (cf_proxies cf) = Inr trusted"
    using assms by (auto simp: serve_checked_def result_iff)
  from c(1) have "cf_insecure cf \<longrightarrow> is_loopback_addr (cf_addr cf)" by (simp add: check_cookie_policy_def split: if_splits)
  moreover have "is_loopback a" if "a \<in> set trusted" for a
    using parse_proxy_fields_loopback [OF _ that] c(2) by (simp add: parse_trusted_proxies_def)
  ultimately show ?thesis by blast
qed

lemma runner_of_limit: "0 < instruction_limit (runner_of cf)"
  by (simp add: runner_of_def new_runner_def with_turn_timeout_def with_instruction_limit_def default_instruction_limit_def)

lemma build_services_Inr:
  assumes "build_services u b cf library = Inr (games, accounts, invitations, sessions)"
  shows "svc_store games = games_ops u \<and> svc_library games = library \<and> svc_runner games = runner_of cf
    \<and> as_store accounts = user_ops u \<and> is_store invitations = invite_db_ops \<and> mg_store sessions = login_ops u
    \<and> (mg_secure sessions \<longleftrightarrow> \<not> cf_insecure cf)"
  using assms
  by (auto simp: build_services_def result_iff new_service_def auth_new_service_def invite_new_service_def new_manager_def
      Let_def session_options_def with_insecure_cookies_def split: if_splits)

lemma serve_start_Inr:
  assumes "serve_start h b e e' args st = (up, down, Inr (cf, s, w), st')"
  shows "\<exists>trusted library full f1 games accounts invitations sessions d.
    serve_checked h args = Inr (cf, trusted) \<and> library_of b = Inr library
    \<and> open_existing h e full st = (Inr (), Some f1)
    \<and> build_services (ho_unicode h) b cf library = Inr (games, accounts, invitations, sessions)
    \<and> d = snd (run_sweeps e' 0 (zorkd_sweeps sessions invitations) (df_schema f1)) \<and> st' = Some (f1\<lparr>df_schema := d\<rparr>)
    \<and> build_server b trusted library (games, accounts, invitations, sessions) d = Inr (s, w)"
proof -
  let ?pre = "bind_r (serve_checked h args) (\<lambda>(cf, trusted). bind_r (library_of b) (\<lambda>library.
             bind_r (full_database_path h (cf_database cf)) (\<lambda>full. Inr (cf, trusted, library, full))))"
  obtain cf0 trusted library full where pre: "?pre = Inr (cf0, trusted, library, full)"
    using assms by (cases ?pre) (auto simp: serve_start_def)
  then have chk: "serve_checked h args = Inr (cf0, trusted)" "library_of b = Inr library"
    by (auto simp: result_iff split: prod.splits)
  obtain r st1 where o: "open_existing h e full st = (r, st1)" by force
  obtain f1 where f1: "r = Inr ()" "st1 = Some f1"
    using assms pre o by (cases r; cases st1) (auto simp: serve_start_def)
  obtain games accounts invitations sessions where
    b: "build_services (ho_unicode h) b cf0 library = Inr (games, accounts, invitations, sessions)"
    using assms pre o f1 by (cases "build_services (ho_unicode h) b cf0 library") (auto simp: serve_start_def)
  obtain ls d where d: "run_sweeps e' 0 (zorkd_sweeps sessions invitations) (df_schema f1) = (ls, d)" by force
  have "bind_r (build_server b trusted library (games, accounts, invitations, sessions) d) (\<lambda>(s, w). Inr (cf0, s, w))
      = Inr (cf, s, w)" "st' = Some (f1\<lparr>df_schema := d\<rparr>)"
    using assms pre o f1 b d by (simp_all add: serve_start_def)
  moreover from this(1) have "cf0 = cf" "build_server b trusted library (games, accounts, invitations, sessions) d = Inr (s, w)"
    by (auto simp: result_iff)
  moreover have "d = snd (run_sweeps e' 0 (zorkd_sweeps sessions invitations) (df_schema f1))" using d by simp
  moreover have "open_existing h e full st = (Inr (), Some f1)" using o f1 by simp
  ultimately show ?thesis using chk b by blast
qed

text \<open>
  C36: A server that comes up is sound: started over a database in order, by embedded
  scripts that keep it in order, it holds the library of the binary, its services all work on
  that database, which is still in order after the first sweep; session cookies lack the Secure
  attribute only on a loopback listener, only loopback proxies are trusted, and a turn has an
  instruction limit. So whatever requests follow, each is answered and the database stays in
  order.
\<close>

theorem started_server_is_sound:
  assumes "\<forall>(name, sql) \<in> set (ho_files h). \<forall>d d'. ho_scripts h sql d = Inr d' \<longrightarrow> whole_inv d \<longrightarrow> whole_inv d'" "whole_inv (df_schema f)"
    and "serve_start h b e e' args (Some f) = (up, down, Inr (cf, s, w), st')" "fair_visit (bi_visit b)"
  shows "db_server (ho_unicode h) s \<and> library_of b = Inr (srv_library s) \<and> library_ok (srv_library s)
    \<and> svc_library (srv_games s) = srv_library s \<and> 0 < instruction_limit (svc_runner (srv_games s))
    \<and> (mg_secure (srv_sessions s) \<longleftrightarrow> \<not> cf_insecure cf) \<and> (cf_insecure cf \<longrightarrow> is_loopback_addr (cf_addr cf))
    \<and> (\<forall>a \<in> set (srv_trusted s). is_loopback a)
    \<and> (\<exists>f'. st' = Some f' \<and> df_schema f' = wb_store w)
    \<and> (\<forall>rs. (\<forall>(e, r) \<in> set rs. clock_runs e) \<longrightarrow>
        (\<exists>as w'. serve_all s rs w = Some (as, w') \<and> length as = length rs \<and> whole_inv (wb_store w')))"
proof -
  obtain trusted library full f1 games accounts invitations sessions d where
    c: "serve_checked h args = Inr (cf, trusted)" "library_of b = Inr library"
      "open_existing h e full (Some f) = (Inr (), Some f1)"
      "build_services (ho_unicode h) b cf library = Inr (games, accounts, invitations, sessions)"
      "d = snd (run_sweeps e' 0 (zorkd_sweeps sessions invitations) (df_schema f1))" "st' = Some (f1\<lparr>df_schema := d\<rparr>)"
      "build_server b trusted library (games, accounts, invitations, sessions) d = Inr (s, w)"
    using serve_start_Inr [OF assms(3)] by blast
  note sv = build_services_Inr [OF c(4)] and chk = serve_checked_Inr [OF c(1)]
  have f1: "whole_inv (df_schema f1)" using open_existing_keep [OF assms(1,2) c(3)] by auto
  have d: "whole_inv d" using swept(1) [of sessions "ho_unicode h" invitations "df_schema f1" e' 0] sv f1 c(5) by simp
  have s: "s = \<lparr>srv_games = games, srv_accounts = accounts, srv_sessions = sessions, srv_invites = invitations,
      srv_library = library, srv_trusted = trusted, srv_visit = bi_visit b\<rparr>" "wb_store w = d"
    using c(7) by (auto simp: build_server_def server_new_def with_trusted_proxies_def)
  have l: "web_limits_ok w" using c(7) server_new_limits by (simp add: build_server_def)
  have db: "db_server (ho_unicode h) s" using sv by (simp add: s db_server_def)
  have "library_ok library" using c(2) new_library_ok by (auto simp: library_of_def embedded_library_def split: prod.splits)
  moreover have "\<exists>as w'. serve_all s rs w = Some (as, w') \<and> length as = length rs \<and> whole_inv (wb_store w')"
    if "\<forall>(e, r) \<in> set rs. clock_runs e" for rs
    using serve_all_ends [OF db _ l _ that] d s assms(4) by (elim meta_impE) (auto simp del: serve_all.simps)
  ultimately show ?thesis using sv chk c(2,6) db s runner_of_limit [of cf] by auto
qed

definition sample_binary :: "(bytes, bytes) binary" where
  "sample_binary = \<lparr>bi_engine = sample_engine, bi_stories = ([1], [1, 1], [1, 1, 1]), bi_sha = (\<lambda>b. word_of_nat (length b)),
     bi_crypto = sample_crypto, bi_mail = sample_mail, bi_visit = (\<lambda>_ m. m)\<rparr>"

definition sample_settings :: settings where
  "sample_settings = \<lparr>cf_addr = ''localhost:8080'', cf_database = ''zorkd.db'', cf_timeout = default_turn_timeout,
     cf_limit = unat default_instruction_limit, cf_insecure = False, cf_proxies = [], cf_verbose = False\<rparr>"

lemma sample_checked: "serve_checked sample_host [] = Inr (sample_settings, [])"
  by (simp add: serve_checked_def serve_settings_def env_duration_def env_uint_def flag_text_def flag_switch_def
      flag_duration_def flag_uint_def check_cookie_policy_def parse_trusted_proxies_def sample_settings_def text_eval)

lemma sample_stories: "\<exists>l. library_of sample_binary = Inr l"
  by (simp add: library_of_def sample_binary_def embedded_library_def new_library_def games_all_def add_source_def
      sample_engine_def story_key_of_def Let_def)

lemma sample_services: "\<exists>games accounts invitations sessions.
    build_services plain sample_binary sample_settings l = Inr (games, accounts, invitations, sessions)"
  by (simp add: build_services_def new_service_def auth_new_service_def invite_new_service_def new_manager_def Let_def
      session_options_def sample_settings_def default_session_ttl_def default_invitation_ttl_def duration_defs)

lemma sample_serve_start:
  "\<exists>up down s w st'. serve_start sample_host sample_binary started_env started_env [] (Some sample_file)
     = (up, down, Inr (sample_settings, s, w), st')"
proof -
  obtain l where l: "library_of sample_binary = Inr l" using sample_stories by blast
  obtain games accounts invitations sessions where
    sv: "build_services plain sample_binary sample_settings l = Inr (games, accounts, invitations, sessions)"
    using sample_services by blast
  have db: "cf_database sample_settings = ''zorkd.db''" by (simp add: sample_settings_def)
  obtain ls d where "run_sweeps started_env 0 (zorkd_sweeps sessions invitations) (df_schema sample_file) = (ls, d)" by force
  then show ?thesis
    by (simp add: serve_start_def sample_checked l db sample_open sv build_server_def server_new_def)
qed

theorem started_server_is_sound_witness:
  "\<exists>up down s w st'. serve_start sample_host sample_binary started_env started_env [] (Some sample_file)
      = (up, down, Inr (sample_settings, s, w), st')
    \<and> db_server plain s \<and> mg_secure (srv_sessions s)
    \<and> (\<exists>as w'. serve_all s [(started_env, sample_request ''GET'' [''healthz''] [])] w = Some (as, w') \<and> length as = 1)"
proof -
  let ?rs = "[(started_env, sample_request ''GET'' [''healthz''] [])]"
  obtain up down s w st' where r: "serve_start sample_host sample_binary started_env started_env [] (Some sample_file)
      = (up, down, Inr (sample_settings, s, w), st')"
    using sample_serve_start by blast
  have run: "\<forall>(name, sql) \<in> set (ho_files sample_host). \<forall>d d'. ho_scripts sample_host sql d = Inr d' \<longrightarrow> whole_inv d \<longrightarrow> whole_inv d'" by auto
  have inv: "whole_inv (df_schema sample_file)" using sample_web_ok by (simp add: sample_file_def)
  have fair: "fair_visit (bi_visit sample_binary)" by (simp add: sample_binary_def fair_visit_def)
  note p = started_server_is_sound [OF run inv r fair]
  have "\<forall>(e, r) \<in> set ?rs. clock_runs e" by simp
  then have "\<exists>as w'. serve_all s ?rs w = Some (as, w') \<and> length as = length ?rs \<and> whole_inv (wb_store w')" using p by blast
  moreover have "mg_secure (srv_sessions s)" "db_server plain s" using p by (simp_all add: sample_settings_def)
  ultimately show ?thesis using r by auto
qed

section \<open>The terminal\<close>

text \<open>
  C39: What zorkplay shows is one chain of turns, and it reads its input to the end of one of them.
  It reads the lines in their order, each while the game is not over: a line is too long, or
  its turn fails in a way that may be tried again, and then nothing changes, or its turn is
  run from the state the turn before left, and the screens after the opening are those of
  the turns, in their order. It returns when a turn has ended the story, or with every line
  read, with the error of reading if there was one; it stops at the line after those only
  with the error of that line's turn, which is one not worth retrying.
\<close>

theorem terminal_plays_one_chain:
  assumes "\<not> tb_zero_halted t" "runner_start (tb_engine t) (tb_runner t) e (Some (tb_entry t)) = Inr res"
    and "play t e ended input = (out, r)" "scan_lines ended input = (lines, scanned)"
  shows "\<exists>fs. length fs \<le> length lines
    \<and> (\<forall>n < length fs. let (st, over) = left_by (z_state res, z_halted res) (take n fs);
           run = runner_run (tb_engine t) (tb_runner t) (tb_env t n) (Some (tb_entry t)) st (lines ! n) in
         \<not> over \<and> (case fs ! n of
             LineRefused \<Rightarrow> max_command_bytes < length (lines ! n)
           | LineFailed err \<Rightarrow> length (lines ! n) \<le> max_command_bytes \<and> retryable (classify (Some err)) \<and> run = Inl err
           | LinePlayed turn \<Rightarrow> length (lines ! n) \<le> max_command_bytes \<and> run = Inr turn))
    \<and> screens out = turn_text (new_turn [] res) (tb_width t) # concat (map (\<lambda>(c, f). case f of
         LinePlayed turn \<Rightarrow> [turn_text (new_turn c turn) (tb_width t)] | _ \<Rightarrow> []) (zip lines fs))
    \<and> (let (st, over) = left_by (z_state res, z_halted res) fs; n = length fs in
       case r of
         Inr _ \<Rightarrow> over \<or> n = length lines \<and> scanned = None
       | Inl err \<Rightarrow> \<not> over \<and> (n = length lines \<and> scanned = Some err
           \<or> n < length lines \<and> length (lines ! n) \<le> max_command_bytes
             \<and> (\<exists>err'. runner_run (tb_engine t) (tb_runner t) (tb_env t n) (Some (tb_entry t)) st (lines ! n) = Inl err'
                 \<and> \<not> retryable (classify (Some err')) \<and> err = Wrap (fault_string (classify (Some err')) @ '' turn'') err')))"
proof -
  obtain fs where fs: "lines_went t 0 (z_state res, z_halted res) lines fs"
      "screens out = turn_text (new_turn [] res) (tb_width t) # line_screens (tb_width t) lines fs"
      "ends_with t scanned 0 (z_state res, z_halted res) lines fs r"
    using play_account [OF assms] by blast
  then show ?thesis
    unfolding lines_went_def line_went_def line_screens_def ends_with_def Let_def case_prod_unfold add_0
    by (intro exI [of _ fs]) (elim conjE, intro conjI, assumption+)
qed

definition sample_table :: "(bytes, bytes) table" where
  "sample_table = \<lparr>tb_engine = sample_engine, tb_runner = sample_runner, tb_entry = sample_entry, tb_width = 80,
     tb_env = (\<lambda>_. sample_env), tb_text = (\<lambda>_. ''failed''), tb_zero_halted = False\<rparr>"

theorem terminal_plays_one_chain_witness:
  "\<exists>out r fs. play sample_table sample_env None (''look'' @ newline) = (out, r)
    \<and> screens out = turn_text (new_turn [] sample_opening) 80 # concat (map (\<lambda>(c, f). case f of
         LinePlayed turn \<Rightarrow> [turn_text (new_turn c turn) 80] | _ \<Rightarrow> []) (zip [''look''] fs))
    \<and> length fs \<le> 1"
proof -
  obtain out r where p: "play sample_table sample_env None (''look'' @ newline) = (out, r)" by force
  have z: "\<not> tb_zero_halted sample_table" "tb_width sample_table = 80" by (simp_all add: sample_table_def)
  have s: "runner_start (tb_engine sample_table) (tb_runner sample_table) sample_env (Some (tb_entry sample_table)) = Inr sample_opening"
    using sample_start by (simp add: sample_table_def)
  have l: "scan_lines None (''look'' @ newline) = ([''look''], None)"
    by (simp add: scan_lines_def newline_def drop_cr_def max_scan_bytes_def Let_def)
  from terminal_plays_one_chain [OF z(1) s p l] obtain fs where
    "length fs \<le> length [''look'']"
    "screens out = turn_text (new_turn [] sample_opening) (tb_width sample_table) # concat (map (\<lambda>(c, f). case f of
         LinePlayed turn \<Rightarrow> [turn_text (new_turn c turn) (tb_width sample_table)] | _ \<Rightarrow> []) (zip [''look''] fs))"
    by (elim exE conjE) (rule that)
  with p show ?thesis unfolding z(2) by (intro exI [of _ out] exI [of _ r] exI [of _ fs]) simp
qed

end
