(* ===== verification/Spec2Isabelle.thy ===== *)
theory Spec2Isabelle
  imports Game_Properties Text_Properties Known_Defects System_Properties
begin

text \<open>
  zorkd serves the Zork games to browsers: a request handler takes the player's line, the game
  service reads the game's state, plays one turn on a fresh Z-machine and writes the new state
  back, and SQLite keeps accounts, browser sessions, invitations, games and named saves. zorkplay
  plays the same games from a terminal.

  \<^bold>\<open>Parts.\<close> Each theory models one part of the source, a definition per type or function, under the
  source's name where Isabelle allows it (the packages' clashing names have a prefix: \<open>service_play\<close>
  is \<open>Service.Play\<close>, \<open>mem_create\<close> the memory store's \<open>Create\<close>, \<open>games_create\<close> the database's).

  \<^item> \<open>Zorkd_Prelude\<close>: errors (wrapping, \<open>errors.Is\<close>), results, time, bytes, decimal numbers
    (\<open>strconv\<close>) and lemmas on association lists. \<open>Go_Text\<close>: strings as bytes, UTF-8, and the
    functions of \<open>strings\<close> and \<open>unicode\<close> used. \<open>Float_Round\<close>: float64 by rounding rationals.
    \<open>Go_Flags\<close>: package flag with the numbers and durations its values are written in.
  \<^item> \<open>Game_Types\<close>, \<open>Game_Command\<close>, \<open>Game_Transcript\<close>, \<open>Game_Save_Names\<close>, \<open>Game_Engine\<close>:
    internal/game's data, command.go, transcript.go, the names of saves.go, and errors.go,
    library.go and turn.go.
  \<^item> \<open>Game_Store\<close>: the interface \<open>Store\<close> of session.go as a locale: its nine operations and the
    laws the service relies on. \<open>Game_Memstore\<close> (memstore.go) and \<open>Db_Store_Laws\<close> (over
    \<open>Db_Tables\<close>, \<open>Db_Games\<close> and \<open>Db_Store\<close>: internal/database, migrations/) interpret it on
    the two implementations.
  \<^item> \<open>Game_Service\<close>: the operations of \<open>Service\<close> (session.go, saves.go); \<open>Service_Laws\<close> proves
    them inside the locale. \<open>Keyed_Mutex\<close>: the lock per session (session.go) as a step relation;
    \<open>Game_Locking\<close> puts the service's reads and writes between its steps.
  \<^item> \<open>Auth_Password\<close>, \<open>Auth_Service\<close> (internal/auth), \<open>Session_Manager\<close> (internal/session) and
    \<open>Invite_Service\<close> (internal/invite): each with the interface of its store as a locale
    (\<open>account_store\<close>, \<open>token_store\<close>, \<open>invite_store\<close>); \<open>Db_Accounts\<close> holds the database's three
    stores and \<open>Db_Account_Laws\<close> interprets the locales on them.
  \<^item> \<open>Db_Whole\<close>: all calls that write, over the five tables at once. \<open>Db_Refines\<close>: the specification
    of a store of games and saves as moves of an abstract state, and the database's moves.
    \<open>Db_Open\<close>: database.go's path checks, file creation and migrations, and migrations.go. \<open>Db_Stamp\<close>:
    its timestamps as text.
  \<^item> \<open>Rate_Limit\<close>, \<open>Web_Proxies\<close>, \<open>Web_Page\<close>, \<open>Web_Handlers\<close>, \<open>Web_Server\<close>, \<open>Health_Probe\<close>:
    internal/httpserver, from the token buckets to \<open>Handler\<close>; a request is a record of what the
    code reads of it and an answer the record of what it writes. \<open>Rate_Limit_Laws\<close>, \<open>Web_Laws\<close>
    and \<open>Web_Access\<close> hold what the limiters promise, what handlers keep, and whom a request acts
    for. \<open>Terminal\<close>: internal/terminal.
  \<^item> \<open>Zorkd_Command\<close>, \<open>Zorkd_Serve\<close>: cmd/zorkd, from the arguments to the deferred calls.
    \<open>Zorkplay\<close>: cmd/zorkplay.
  \<^item> \<open>Sample_World\<close>: a small engine, library and database for the witnesses.
    \<open>Game_Properties\<close>, \<open>Text_Properties\<close>, \<open>Account_Properties\<close>, \<open>Web_Properties\<close> and
    \<open>System_Properties\<close> state the properties, numbered C1 on; \<open>Known_Defects\<close> proves where the
    code does not do what it says.

  \<^bold>\<open>What is shown.\<close> Playing: a turn is stored or nothing is, no update of a game that stays is lost
  (across processes by the version, within one by the lock, for callers who write the game's
  identifier alike), saving and restoring are inverse, other players' games are
  not touched. Accounts: hashes round-trip, refusals look alike (but for making the decoy hash once), a cookie stands for its user
  until it is logged out or expires, an account needs an invitation. The server: every request is
  answered and keeps the tables' constraints, a request reaches its own user's games alone,
  attempts are rationed, the database refines the abstract store. The commands: opening upgrades
  a file in order, a server that comes up has the configuration the other properties assume, a
  printed link is worth an invitation, and the terminal plays one chain of turns.

  \<^bold>\<open>State and failure.\<close> State is passed explicitly. An \<open>env\<close> says what a call sees of the world: the
  k-th reading of the clock, and whether the k-th use of the database finds its context live. Any
  of them may fail, so every early return is a branch; \<open>nth_use\<close> and \<open>stage\<close> give the calls of one
  operation disjoint stretches of it (eight uses a store call, of which none needs more; 64 a
  service call). Loops recurse on what they consume; those whose end depends on the limiter's map
  (eviction) are \<open>option\<close>-valued and shown to return a value.

  \<^bold>\<open>Outside the program.\<close> The Z-machine is a record of functions about which nothing is assumed
  but, where a property needs it, that a result without state is a halted one. Unicode's tables,
  SHA-256, Argon2id, the random source, \<open>net/mail.ParseAddress\<close>, net/url and the clock are
  arguments; SQLite's statements are written out over rows with the constraints of the schema,
  and what a migration's script does is an argument. The tables hold instants where the schema
  has TEXT timestamps: to the year 9999 these sort alike, which \<open>Db_Stamp\<close> proves.
  Go's \<open>int\<close> is 64 bits; the engine's counters and the instruction limit keep their width.

  \<^bold>\<open>Not modelled.\<close> Logging, the templates' markup and the contents of the embedded files; net/http's
  connection handling and its timeouts; usage texts. A handler's panic is modelled
  where the code raises it itself, for the decoy hash, and is a closed connection (\<open>aborted\<close>);
  other panics, and the loss of the process between two writes, are outside the steps, but for the lock, whose
  callers' steps interleave freely, and for migrations, whose half-done states are results.
\<close>

end
